(* ===== verification/Uvc_Prelude.thy ===== *)
theory Uvc_Prelude
  imports Main "HOL-Library.Word" "HOL-Library.Monad_Syntax"
begin

text \<open>
  Shared vocabulary of the development: the C integer types as words, the error codes of
  \<^verbatim>\<open>enum uvc_error\<close>, reads and copies of C arrays that fail where C has no defined
  result, the little-endian codecs of \<^verbatim>\<open>libuvc_internal.h\<close>, and the generic lemmas on
  them.  Every definition that reads memory, dereferences a pointer or divides returns an
  option; \<^term>\<open>None\<close> always means that the C program has left the defined behaviour of
  the language (an access outside an object, a null dereference, a division by zero, a shift
  by the width or more).  Error codes are ordinary return values and never \<^term>\<open>None\<close>.
\<close>

unbundle bit_operations_syntax

named_theorems uvc_mem \<open>when reads and copies of C arrays are defined, and their result\<close>
named_theorems uvc_bits \<open>bits of the interface masks\<close>
named_theorems uvc_codec \<open>the byte codecs of libuvc_internal.h\<close>

section \<open>Types and constants\<close>

type_synonym u8 = "8 word"
type_synonym u16 = "16 word"
type_synonym u32 = "32 word"
type_synonym u64 = "64 word"
type_synonym bytes = "u8 list"

text \<open>The codes of \<^verbatim>\<open>enum uvc_error\<close> (libuvc.h), which coincide with libusb's on 0 to -12.\<close>

abbreviation UVC_SUCCESS :: int where "UVC_SUCCESS \<equiv> 0"
abbreviation UVC_ERROR_IO :: int where "UVC_ERROR_IO \<equiv> -1"
abbreviation UVC_ERROR_INVALID_PARAM :: int where "UVC_ERROR_INVALID_PARAM \<equiv> -2"
abbreviation UVC_ERROR_NO_DEVICE :: int where "UVC_ERROR_NO_DEVICE \<equiv> -4"
abbreviation UVC_ERROR_NOT_FOUND :: int where "UVC_ERROR_NOT_FOUND \<equiv> -5"
abbreviation UVC_ERROR_BUSY :: int where "UVC_ERROR_BUSY \<equiv> -6"
abbreviation UVC_ERROR_TIMEOUT :: int where "UVC_ERROR_TIMEOUT \<equiv> -7"
abbreviation UVC_ERROR_NO_MEM :: int where "UVC_ERROR_NO_MEM \<equiv> -11"
abbreviation UVC_ERROR_NOT_SUPPORTED :: int where "UVC_ERROR_NOT_SUPPORTED \<equiv> -12"
abbreviation UVC_ERROR_INVALID_DEVICE :: int where "UVC_ERROR_INVALID_DEVICE \<equiv> -50"
abbreviation UVC_ERROR_INVALID_MODE :: int where "UVC_ERROR_INVALID_MODE \<equiv> -51"
abbreviation UVC_ERROR_CALLBACK_EXISTS :: int where "UVC_ERROR_CALLBACK_EXISTS \<equiv> -52"
abbreviation UVC_ERROR_OTHER :: int where "UVC_ERROR_OTHER \<equiv> -99"

section \<open>C arrays\<close>

text \<open>\<open>rd xs i\<close> is the C expression \<^verbatim>\<open>xs[i]\<close> on an array object holding exactly \<open>xs\<close>.\<close>

definition rd :: "'a list \<Rightarrow> nat \<Rightarrow> 'a option" where
  "rd xs i = (if i < length xs then Some (xs ! i) else None)"

text \<open>\<open>rd_bytes xs i n\<close> is what \<^verbatim>\<open>memcpy(dst, &xs[i], n)\<close> reads.\<close>

definition rd_bytes :: "'a list \<Rightarrow> nat \<Rightarrow> nat \<Rightarrow> 'a list option" where
  "rd_bytes xs i n = (if i + n \<le> length xs then Some (take n (drop i xs)) else None)"

text \<open>\<open>mem_put dst i src\<close> is \<^verbatim>\<open>memcpy(&dst[i], src, n)\<close> where \<open>src\<close> are the \<open>n\<close> bytes read.\<close>

definition mem_put :: "'a list \<Rightarrow> nat \<Rightarrow> 'a list \<Rightarrow> 'a list option" where
  "mem_put dst i src =
     (if i + length src \<le> length dst
      then Some (take i dst @ src @ drop (i + length src) dst) else None)"

definition mem_copy :: "'a list \<Rightarrow> nat \<Rightarrow> 'a list \<Rightarrow> nat \<Rightarrow> nat \<Rightarrow> 'a list option" where
  "mem_copy dst i src j n = Option.bind (rd_bytes src j n) (mem_put dst i)"

text \<open>Subtraction of two \<^verbatim>\<open>size_t\<close> values wraps modulo \<open>2 ^ 64\<close>.\<close>

definition size_sub :: "nat \<Rightarrow> nat \<Rightarrow> nat" where
  "size_sub a b = (if b \<le> a then a - b else 2 ^ 64 + a - b)"

text \<open>
  A utlist doubly linked list is a HOL list.  \<^verbatim>\<open>head->prev\<close> of a non-empty list is its last
  element; on the empty list the expression dereferences \<^verbatim>\<open>NULL\<close>.
\<close>

definition dl_prev :: "'a list \<Rightarrow> 'a option" where
  "dl_prev xs = (if xs = [] then None else Some (last xs))"

definition upd_last :: "('a \<Rightarrow> 'a) \<Rightarrow> 'a list \<Rightarrow> 'a list" where
  "upd_last f xs = (if xs = [] then [] else butlast xs @ [f (last xs)])"

section \<open>Little-endian codecs\<close>

definition dw_of :: "u8 \<Rightarrow> u8 \<Rightarrow> u8 \<Rightarrow> u8 \<Rightarrow> u32" where
  "dw_of b0 b1 b2 b3 =
     ucast b0 OR push_bit 8 (ucast b1) OR push_bit 16 (ucast b2) OR push_bit 24 (ucast b3)"

definition sw_of :: "u8 \<Rightarrow> u8 \<Rightarrow> u16" where
  "sw_of b0 b1 = ucast b0 OR push_bit 8 (ucast b1)"

definition DW_TO_INT :: "bytes \<Rightarrow> nat \<Rightarrow> u32 option" where
  "DW_TO_INT p i = do {
     b0 \<leftarrow> rd p i; b1 \<leftarrow> rd p (i + 1); b2 \<leftarrow> rd p (i + 2); b3 \<leftarrow> rd p (i + 3);
     Some (dw_of b0 b1 b2 b3) }"

definition SW_TO_SHORT :: "bytes \<Rightarrow> nat \<Rightarrow> u16 option" where
  "SW_TO_SHORT p i = do { b0 \<leftarrow> rd p i; b1 \<leftarrow> rd p (i + 1); Some (sw_of b0 b1) }"

text \<open>The expression \<^verbatim>\<open>p[i] + (p[i + 1] << 8)\<close>, as the frame parsers write it.\<close>

definition sum16 :: "bytes \<Rightarrow> nat \<Rightarrow> u16 option" where
  "sum16 p i = do { b0 \<leftarrow> rd p i; b1 \<leftarrow> rd p (i + 1); Some (ucast b0 + push_bit 8 (ucast b1)) }"

definition INT_TO_DW :: "u32 \<Rightarrow> bytes" where
  "INT_TO_DW i = [ucast i, ucast (drop_bit 8 i), ucast (drop_bit 16 i), ucast (drop_bit 24 i)]"

definition SHORT_TO_SW :: "u16 \<Rightarrow> bytes" where
  "SHORT_TO_SW s = [ucast s, ucast (drop_bit 8 s)]"

section \<open>Bit masks indexed by interface number\<close>

text \<open>\<^verbatim>\<open>1 << idx\<close> on a 32-bit operand: undefined from the width on.\<close>

definition shl1 :: "nat \<Rightarrow> u32 option" where
  "shl1 idx = (if idx < 32 then Some (push_bit idx 1) else None)"

section \<open>Lemmas\<close>

subsection \<open>Arrays\<close>

lemma rd_Some [uvc_mem]: "i < length xs \<Longrightarrow> rd xs i = Some (xs ! i)"
  by (simp add: rd_def)

lemma rd_None [uvc_mem]: "length xs \<le> i \<Longrightarrow> rd xs i = None"
  by (simp add: rd_def)

lemma rd_eq_Some_iff: "rd xs i = Some x \<longleftrightarrow> i < length xs \<and> xs ! i = x"
  by (auto simp: rd_def)

lemma rd_append [simp]: "i < length xs \<Longrightarrow> rd (xs @ ys) i = rd xs i"
  by (simp add: rd_def nth_append)

lemma rd_Cons_0 [simp]: "rd (x # xs) 0 = Some x"
  by (simp add: rd_def)

lemma rd_Cons_numeral [simp]: "rd (x # xs) (numeral n) = rd xs (pred_numeral n)"
  by (simp add: rd_def numeral_eq_Suc)

lemma rd_Cons_Suc [simp]: "rd (x # xs) (Suc n) = rd xs n"
  by (simp add: rd_def)

lemma rd_Nil [simp]: "rd [] n = None"
  by (simp add: rd_def)

lemma rd_bytes_Some [uvc_mem]: "i + n \<le> length xs \<Longrightarrow> rd_bytes xs i n = Some (take n (drop i xs))"
  by (simp add: rd_bytes_def)

lemma rd_bytes_length: "rd_bytes xs i n = Some ys \<Longrightarrow> length ys = n"
  by (auto simp: rd_bytes_def split: if_splits)

lemma mem_put_length: "mem_put dst i src = Some dst' \<Longrightarrow> length dst' = length dst"
  by (auto simp: mem_put_def split: if_splits)

lemma mem_copy_length: "mem_copy dst i src j n = Some dst' \<Longrightarrow> length dst' = length dst"
  by (auto simp: mem_copy_def bind_eq_Some_conv dest: mem_put_length)

lemma mem_copy_Some [uvc_mem]:
  assumes "i + n \<le> length dst" and "j + n \<le> length src"
  shows "mem_copy dst i src j n = Some (take i dst @ take n (drop j src) @ drop (i + n) dst)"
  using assms by (simp add: mem_copy_def rd_bytes_def mem_put_def)

text \<open>Appending behind the first \<open>i\<close> bytes: what the accumulating buffers of a stream do.\<close>

lemma mem_copy_take:
  assumes "mem_copy dst i src j n = Some dst'"
  shows "take (i + n) dst' = take i dst @ take n (drop j src)"
  using assms by (auto simp: mem_copy_def rd_bytes_def mem_put_def split: if_splits)

lemma mem_copy_bounds:
  assumes "mem_copy dst i src j n = Some dst'"
  shows "i + n \<le> length dst \<and> j + n \<le> length src"
  using assms by (auto simp: mem_copy_def rd_bytes_def mem_put_def split: if_splits)

lemma mem_put_append:
  "Option.bind (mem_put dst j a) (\<lambda>d. mem_put d (j + length a) b) = mem_put dst j (a @ b)"
  by (auto simp: mem_put_def ac_simps)

lemma mem_put_eq_None: "mem_put dst j a = None \<longleftrightarrow> length dst < j + length a"
  by (auto simp: mem_put_def)

lemma mem_put_take: "mem_put dst 0 a = Some d \<Longrightarrow> take (length a) d = a"
  by (auto simp: mem_put_def split: if_splits)

lemma bind_Some_pair: "Option.bind m (\<lambda>(a, b). Some (g a b)) = map_option (\<lambda>(a, b). g a b) m"
  by (cases m) auto

lemma size_sub_le [simp]: "b \<le> a \<Longrightarrow> size_sub a b = a - b"
  by (simp add: size_sub_def)

lemma dl_prev_snoc [simp]: "dl_prev (xs @ [x]) = Some x"
  by (simp add: dl_prev_def)

lemma dl_prev_eq_None [simp]: "dl_prev xs = None \<longleftrightarrow> xs = []"
  by (simp add: dl_prev_def)

lemma upd_last_snoc [simp]: "upd_last f (xs @ [x]) = xs @ [f x]"
  by (simp add: upd_last_def)

lemma upd_last_Nil [simp]: "upd_last f xs = [] \<longleftrightarrow> xs = []"
  by (simp add: upd_last_def)

lemma length_upd_last [simp]: "length (upd_last f xs) = length xs"
  by (simp add: upd_last_def)

subsection \<open>Codecs\<close>

lemma dw_of_split [uvc_codec]:
  "dw_of (ucast i) (ucast (drop_bit 8 i)) (ucast (drop_bit 16 i)) (ucast (drop_bit 24 i)) = i"
proof (rule bit_word_eqI)
  fix n assume "n < LENGTH(32)"
  then have "n < 32" by simp
  then consider "n < 8" | "8 \<le> n" "n < 16" | "16 \<le> n" "n < 24" | "24 \<le> n" "n < 32" by linarith
  then show "bit (dw_of (ucast i) (ucast (drop_bit 8 i)) (ucast (drop_bit 16 i))
               (ucast (drop_bit 24 i))) n = bit i n"
    by cases (auto simp: dw_of_def bit_simps)
qed

lemma sw_of_split [uvc_codec]: "sw_of (ucast s) (ucast (drop_bit 8 s)) = s"
proof (rule bit_word_eqI)
  fix n assume "n < LENGTH(16)"
  then have "n < 16" by simp
  then consider "n < 8" | "8 \<le> n" "n < 16" by linarith
  then show "bit (sw_of (ucast s) (ucast (drop_bit 8 s))) n = bit s n"
    by cases (auto simp: sw_of_def bit_simps)
qed

lemma length_INT_TO_DW [simp]: "length (INT_TO_DW i) = 4"
  by (simp add: INT_TO_DW_def)

lemma length_SHORT_TO_SW [simp]: "length (SHORT_TO_SW s) = 2"
  by (simp add: SHORT_TO_SW_def)

lemma DW_TO_INT_Some [uvc_mem]:
  "i + 4 \<le> length p \<Longrightarrow> DW_TO_INT p i = Some (dw_of (p ! i) (p ! (i + 1)) (p ! (i + 2)) (p ! (i + 3)))"
  by (simp add: DW_TO_INT_def rd_Some)

lemma SW_TO_SHORT_Some [uvc_mem]:
  "i + 2 \<le> length p \<Longrightarrow> SW_TO_SHORT p i = Some (sw_of (p ! i) (p ! (i + 1)))"
  by (simp add: SW_TO_SHORT_def rd_Some)

text \<open>A value written at an offset is read back there, whatever surrounds it.\<close>

lemma DW_TO_INT_at [uvc_codec]: "DW_TO_INT (xs @ INT_TO_DW i @ ys) (length xs) = Some i"
  by (simp add: DW_TO_INT_def INT_TO_DW_def rd_def nth_append dw_of_split)

lemma SW_TO_SHORT_at [uvc_codec]: "SW_TO_SHORT (xs @ SHORT_TO_SW i @ ys) (length xs) = Some i"
  by (simp add: SW_TO_SHORT_def SHORT_TO_SW_def rd_def nth_append sw_of_split)

text \<open>Reading an encoded structure: step over what lies before, read what stands in front.\<close>

lemma rd_skip [uvc_codec]: "length xs \<le> i \<Longrightarrow> rd (xs @ ys) i = rd ys (i - length xs)"
  by (simp add: rd_def nth_append less_diff_conv2 add.commute)

lemma DW_skip [uvc_codec]: "length xs \<le> i \<Longrightarrow> DW_TO_INT (xs @ ys) i = DW_TO_INT ys (i - length xs)"
  by (simp add: DW_TO_INT_def rd_skip Suc_diff_le)

lemma SW_skip [uvc_codec]: "length xs \<le> i \<Longrightarrow> SW_TO_SHORT (xs @ ys) i = SW_TO_SHORT ys (i - length xs)"
  by (simp add: SW_TO_SHORT_def rd_skip Suc_diff_le)

lemma DW_here [uvc_codec]: "DW_TO_INT (INT_TO_DW i @ ys) 0 = Some i"
  using DW_TO_INT_at [of "[]"] by simp

lemma SW_here [uvc_codec]: "SW_TO_SHORT (SHORT_TO_SW i @ ys) 0 = Some i"
  using SW_TO_SHORT_at [of "[]"] by simp

lemma DW_Cons [uvc_codec]: "0 < i \<Longrightarrow> DW_TO_INT (x # xs) i = DW_TO_INT xs (i - 1)"
  using DW_skip [of "[x]" i xs] by simp

lemma SW_Cons [uvc_codec]: "0 < i \<Longrightarrow> SW_TO_SHORT (x # xs) i = SW_TO_SHORT xs (i - 1)"
  using SW_skip [of "[x]" i xs] by simp

text \<open>The two spellings of a little-endian 16-bit read agree: their summands share no bit.\<close>

lemma sum16_eq [simp]: "sum16 p i = SW_TO_SHORT p i"
proof -
  have "ucast b0 + push_bit 8 (ucast b1) = (sw_of b0 b1 :: u16)" for b0 b1 :: u8
    unfolding sw_of_def
    by (rule disjunctive_add) (auto simp: bit_simps dest: bit_imp_le_length)
  then show ?thesis by (simp add: sum16_def SW_TO_SHORT_def)
qed

text \<open>When a sequence of reads is undefined; the rules turn a parser into its bounds.\<close>

lemma bind_rd_None [uvc_mem]: "Option.bind (rd xs i) f = None \<longleftrightarrow> length xs \<le> i \<or> f (xs ! i) = None"
  by (auto simp: rd_def)

lemma bind_rd_bytes_None [uvc_mem]:
  "Option.bind (rd_bytes xs i n) f = None \<longleftrightarrow> length xs < i + n \<or> f (take n (drop i xs)) = None"
  by (auto simp: rd_bytes_def)

lemma bind_DW_None [uvc_mem]: "Option.bind (DW_TO_INT xs i) f = None \<longleftrightarrow>
  length xs < i + 4 \<or> f (dw_of (xs ! i) (xs ! (i + 1)) (xs ! (i + 2)) (xs ! (i + 3))) = None"
  by (auto simp: DW_TO_INT_def rd_def)

lemma bind_SW_None [uvc_mem]: "Option.bind (SW_TO_SHORT xs i) f = None \<longleftrightarrow>
  length xs < i + 2 \<or> f (sw_of (xs ! i) (xs ! (i + 1))) = None"
  by (auto simp: SW_TO_SHORT_def rd_def)

lemma bind_dl_prev_None [uvc_mem]: "Option.bind (dl_prev xs) f = None \<longleftrightarrow> xs = [] \<or> f (last xs) = None"
  by (auto simp: dl_prev_def)

lemma unat_lt2p_u8: "unat (b :: u8) < 256"
  using unsigned_less [of b] by simp

subsection \<open>Masks\<close>

lemma shl1_Some [simp]: "idx < 32 \<Longrightarrow> shl1 idx = Some (push_bit idx 1)"
  by (simp add: shl1_def)

lemma shl1_None [simp]: "32 \<le> idx \<Longrightarrow> shl1 idx = None"
  by (simp add: shl1_def)

lemma bit_mask_set [uvc_bits]:
  "idx < 32 \<Longrightarrow> bit (m OR 2 ^ idx :: u32) j \<longleftrightarrow> bit m j \<or> j = idx"
  by (auto simp: bit_simps)

lemma bit_mask_clear [uvc_bits]:
  "idx < 32 \<Longrightarrow> bit (m AND NOT (2 ^ idx) :: u32) j \<longleftrightarrow> bit m j \<and> j \<noteq> idx"
  by (auto simp: bit_simps dest: bit_imp_le_length)

lemma mask_test [uvc_bits]:
  assumes "idx < 32"
  shows "(m AND 2 ^ idx :: u32) = 0 \<longleftrightarrow> \<not> bit m idx"
proof
  assume "m AND 2 ^ idx = 0"
  then have "\<not> bit (m AND 2 ^ idx) idx" by simp
  with assms show "\<not> bit m idx" by (simp add: bit_simps)
next
  assume "\<not> bit m idx"
  then show "m AND 2 ^ idx = 0"
    by (intro bit_word_eqI) (auto simp: bit_simps)
qed

end
