(* ===== verification/Desc_Types.thy ===== *)
theory Desc_Types
  imports Uvc_Prelude
begin

text \<open>
  The data of descriptor parsing.  The structures libusb hands over (a configuration with its
  interfaces, alternate settings and endpoints) carry exactly the fields the sources read; the
  \<^verbatim>\<open>uvc_*\<close> structures are those of libuvc.h and libuvc_internal.h.  A utlist list is a HOL
  list, so the \<^verbatim>\<open>prev\<close>/\<^verbatim>\<open>next\<close> links and the \<^verbatim>\<open>parent\<close> back links are not fields: the
  parent of an element is the record whose list holds it.  Field names are the C names behind
  a two-letter prefix for their struct.
\<close>

section \<open>What libusb reports\<close>

record libusb_endpoint_descriptor =
  ep_bEndpointAddress :: u8
  ep_wMaxPacketSize :: u16
  ep_ss_wBytesPerInterval :: "u16 option" \<comment> \<open>the SuperSpeed companion descriptor, if there is one\<close>

record libusb_interface_descriptor =
  id_bInterfaceNumber :: u8
  id_bAlternateSetting :: u8
  id_bInterfaceClass :: u8
  id_bInterfaceSubClass :: u8
  id_endpoint :: "libusb_endpoint_descriptor list" \<comment> \<open>bNumEndpoints is its length\<close>
  id_extra :: bytes \<comment> \<open>extra_length is its length\<close>

text \<open>\<^verbatim>\<open>struct libusb_interface\<close> is its altsetting array; num_altsetting is its length.\<close>

type_synonym libusb_interface = "libusb_interface_descriptor list"

text \<open>\<^verbatim>\<open>struct libusb_config_descriptor\<close> is its interface array; bNumInterfaces is its length.\<close>

type_synonym libusb_config = "libusb_interface list"

section \<open>VideoStreaming structures\<close>

record uvc_frame_desc =
  fr_bDescriptorSubtype :: u8
  fr_bFrameIndex :: u8
  fr_bmCapabilities :: u8
  fr_wWidth :: u16
  fr_wHeight :: u16
  fr_dwMinBitRate :: u32
  fr_dwMaxBitRate :: u32
  fr_dwMaxVideoFrameBufferSize :: u32
  fr_dwDefaultFrameInterval :: u32
  fr_dwMinFrameInterval :: u32
  fr_dwMaxFrameInterval :: u32
  fr_dwFrameIntervalStep :: u32
  fr_bFrameIntervalType :: u8
  fr_dwBytesPerLine :: u32
  fr_intervals :: "u32 list option" \<comment> \<open>NULL, or the zero-terminated array\<close>

record uvc_still_frame_res =
  sr_bResolutionIndex :: u8
  sr_wWidth :: u16
  sr_wHeight :: u16

record uvc_still_frame_desc =
  sf_bDescriptorSubtype :: u8
  sf_bEndPointAddress :: u8
  sf_imageSizePatterns :: "uvc_still_frame_res list"
  sf_bNumCompressionPattern :: u8
  sf_bCompression :: "bytes option"

text \<open>
  \<^verbatim>\<open>guidFormat[16]\<close> and \<^verbatim>\<open>fourccFormat[4]\<close> are one union, and so are \<^verbatim>\<open>bBitsPerPixel\<close> and
  \<^verbatim>\<open>bmFlags\<close>: each is one field here.
\<close>

record uvc_format_desc =
  fo_bDescriptorSubtype :: u8
  fo_bFormatIndex :: u8
  fo_bNumFrameDescriptors :: u8
  fo_guidFormat :: bytes
  fo_bBitsPerPixel :: u8
  fo_bDefaultFrameIndex :: u8
  fo_bAspectRatioX :: u8
  fo_bAspectRatioY :: u8
  fo_bmInterlaceFlags :: u8
  fo_bCopyProtect :: u8
  fo_bVariableSize :: u8
  fo_frame_descs :: "uvc_frame_desc list"
  fo_still_frame_desc :: "uvc_still_frame_desc list"

record uvc_streaming_interface =
  si_bInterfaceNumber :: u8
  si_format_descs :: "uvc_format_desc list"
  si_bEndpointAddress :: u8
  si_bTerminalLink :: u8
  si_bStillCaptureMethod :: u8

section \<open>VideoControl structures\<close>

record uvc_input_terminal =
  it_bTerminalID :: u8
  it_wTerminalType :: u16
  it_wObjectiveFocalLengthMin :: u16
  it_wObjectiveFocalLengthMax :: u16
  it_wOcularFocalLength :: u16
  it_bmControls :: u64

record uvc_processing_unit =
  pu_bUnitID :: u8
  pu_bSourceID :: u8
  pu_bmControls :: u64

record uvc_selector_unit =
  su_bUnitID :: u8

record uvc_extension_unit =
  xu_bUnitID :: u8
  xu_guidExtensionCode :: bytes
  xu_bmControls :: u64

record uvc_control_interface =
  ci_input_term_descs :: "uvc_input_terminal list"
  ci_selector_unit_descs :: "uvc_selector_unit list"
  ci_processing_unit_descs :: "uvc_processing_unit list"
  ci_extension_unit_descs :: "uvc_extension_unit list"
  ci_bcdUVC :: u16
  ci_dwClockFrequency :: u32
  ci_bEndpointAddress :: u8
  ci_bInterfaceNumber :: u8

record uvc_device_info =
  in_config :: libusb_config
  in_ctrl_if :: uvc_control_interface
  in_stream_ifs :: "uvc_streaming_interface list"

section \<open>What calloc returns\<close>

definition frame_desc0 :: uvc_frame_desc where
  "frame_desc0 = \<lparr> fr_bDescriptorSubtype = 0, fr_bFrameIndex = 0, fr_bmCapabilities = 0,
     fr_wWidth = 0, fr_wHeight = 0, fr_dwMinBitRate = 0, fr_dwMaxBitRate = 0,
     fr_dwMaxVideoFrameBufferSize = 0, fr_dwDefaultFrameInterval = 0, fr_dwMinFrameInterval = 0,
     fr_dwMaxFrameInterval = 0, fr_dwFrameIntervalStep = 0, fr_bFrameIntervalType = 0,
     fr_dwBytesPerLine = 0, fr_intervals = None \<rparr>"

definition format_desc0 :: uvc_format_desc where
  "format_desc0 = \<lparr> fo_bDescriptorSubtype = 0, fo_bFormatIndex = 0, fo_bNumFrameDescriptors = 0,
     fo_guidFormat = replicate 16 0, fo_bBitsPerPixel = 0, fo_bDefaultFrameIndex = 0,
     fo_bAspectRatioX = 0, fo_bAspectRatioY = 0, fo_bmInterlaceFlags = 0, fo_bCopyProtect = 0,
     fo_bVariableSize = 0, fo_frame_descs = [], fo_still_frame_desc = [] \<rparr>"

definition stream_if0 :: uvc_streaming_interface where
  "stream_if0 = \<lparr> si_bInterfaceNumber = 0, si_format_descs = [], si_bEndpointAddress = 0,
     si_bTerminalLink = 0, si_bStillCaptureMethod = 0 \<rparr>"

definition ctrl_if0 :: uvc_control_interface where
  "ctrl_if0 = \<lparr> ci_input_term_descs = [], ci_selector_unit_descs = [],
     ci_processing_unit_descs = [], ci_extension_unit_descs = [], ci_bcdUVC = 0,
     ci_dwClockFrequency = 0, ci_bEndpointAddress = 0, ci_bInterfaceNumber = 0 \<rparr>"

definition device_info0 :: "libusb_config \<Rightarrow> uvc_device_info" where
  "device_info0 config = \<lparr> in_config = config, in_ctrl_if = ctrl_if0, in_stream_ifs = [] \<rparr>"

end
