(* ===== verification/Desc_Parse.thy ===== *)
theory Desc_Parse
  imports Desc_Types
begin

text \<open>
  Descriptor parsing of device.c, from \<^verbatim>\<open>uvc_scan_control\<close> down to the parsers of single
  blocks.  A parser receives \<open>block\<close>, all bytes readable from the block pointer to the end of
  the interface's \<^verbatim>\<open>extra\<close> array, and \<open>block_size\<close>, the block's own length byte; a C read
  \<^verbatim>\<open>block[i]\<close> is \<open>rd block i\<close> and is undefined only past the end of \<^verbatim>\<open>extra\<close>.  Results are the
  return code and the updated structure.
\<close>

section \<open>VideoStreaming blocks\<close>

definition uvc_parse_vs_input_header ::
  "uvc_streaming_interface \<Rightarrow> bytes \<Rightarrow> nat \<Rightarrow> (int \<times> uvc_streaming_interface) option" where
  "uvc_parse_vs_input_header si block block_size = do {
     b6 \<leftarrow> rd block 6; b8 \<leftarrow> rd block 8; b9 \<leftarrow> rd block 9;
     Some (UVC_SUCCESS, si\<lparr> si_bEndpointAddress := b6 AND 0x8f, si_bTerminalLink := b8,
       si_bStillCaptureMethod := b9 \<rparr>) }"

definition add_format :: "uvc_format_desc \<Rightarrow> uvc_streaming_interface \<Rightarrow> uvc_streaming_interface" where
  "add_format f si = si\<lparr> si_format_descs := si_format_descs si @ [f] \<rparr>"

definition uvc_parse_vs_format_uncompressed ::
  "uvc_streaming_interface \<Rightarrow> bytes \<Rightarrow> nat \<Rightarrow> (int \<times> uvc_streaming_interface) option" where
  "uvc_parse_vs_format_uncompressed si block block_size = do {
     b2 \<leftarrow> rd block 2; b3 \<leftarrow> rd block 3;
     guid \<leftarrow> rd_bytes block 5 16;
     b21 \<leftarrow> rd block 21; b22 \<leftarrow> rd block 22; b23 \<leftarrow> rd block 23; b24 \<leftarrow> rd block 24;
     b25 \<leftarrow> rd block 25; b26 \<leftarrow> rd block 26;
     Some (UVC_SUCCESS, add_format (format_desc0\<lparr> fo_bDescriptorSubtype := b2,
       fo_bFormatIndex := b3, fo_guidFormat := guid, fo_bBitsPerPixel := b21,
       fo_bDefaultFrameIndex := b22, fo_bAspectRatioX := b23, fo_bAspectRatioY := b24,
       fo_bmInterlaceFlags := b25, fo_bCopyProtect := b26 \<rparr>) si) }"

definition uvc_parse_vs_frame_format ::
  "uvc_streaming_interface \<Rightarrow> bytes \<Rightarrow> nat \<Rightarrow> (int \<times> uvc_streaming_interface) option" where
  "uvc_parse_vs_frame_format si block block_size =
     (if block_size < 28 then Some (UVC_ERROR_INVALID_DEVICE, si) else do {
     b2 \<leftarrow> rd block 2; b3 \<leftarrow> rd block 3; b4 \<leftarrow> rd block 4;
     guid \<leftarrow> rd_bytes block 5 16;
     b21 \<leftarrow> rd block 21; b22 \<leftarrow> rd block 22; b23 \<leftarrow> rd block 23; b24 \<leftarrow> rd block 24;
     b25 \<leftarrow> rd block 25; b26 \<leftarrow> rd block 26; b27 \<leftarrow> rd block 27;
     Some (UVC_SUCCESS, add_format (format_desc0\<lparr> fo_bDescriptorSubtype := b2,
       fo_bFormatIndex := b3, fo_bNumFrameDescriptors := b4, fo_guidFormat := guid,
       fo_bBitsPerPixel := b21, fo_bDefaultFrameIndex := b22, fo_bAspectRatioX := b23,
       fo_bAspectRatioY := b24, fo_bmInterlaceFlags := b25, fo_bCopyProtect := b26,
       fo_bVariableSize := b27 \<rparr>) si) })"

text \<open>The union makes the second store of the MJPEG parser overwrite the flags it just stored.\<close>

definition uvc_parse_vs_format_mjpeg ::
  "uvc_streaming_interface \<Rightarrow> bytes \<Rightarrow> nat \<Rightarrow> (int \<times> uvc_streaming_interface) option" where
  "uvc_parse_vs_format_mjpeg si block block_size = do {
     b2 \<leftarrow> rd block 2; b3 \<leftarrow> rd block 3; b5 \<leftarrow> rd block 5; b6 \<leftarrow> rd block 6; b7 \<leftarrow> rd block 7;
     b8 \<leftarrow> rd block 8; b9 \<leftarrow> rd block 9; b10 \<leftarrow> rd block 10;
     Some (UVC_SUCCESS, add_format (format_desc0\<lparr> fo_bDescriptorSubtype := b2,
       fo_bFormatIndex := b3, fo_guidFormat := [0x4d, 0x4a, 0x50, 0x47] @ replicate 12 0,
       fo_bBitsPerPixel := b5, fo_bBitsPerPixel := 0,
       fo_bDefaultFrameIndex := b6, fo_bAspectRatioX := b7, fo_bAspectRatioY := b8,
       fo_bmInterlaceFlags := b9, fo_bCopyProtect := b10 \<rparr>) si) }"

text \<open>
  The interval range the repair works with: the continuous bounds, or the first and the last
  discrete interval.
\<close>

definition interval_range :: "uvc_frame_desc \<Rightarrow> (u32 \<times> u32) option" where
  "interval_range frame =
     (if fr_bFrameIntervalType frame = 0
      then Some (fr_dwMinFrameInterval frame, fr_dwMaxFrameInterval frame)
      else do {
        ivs \<leftarrow> fr_intervals frame;
        lo \<leftarrow> rd ivs 0; hi \<leftarrow> rd ivs (unat (fr_bFrameIntervalType frame) - 1);
        Some (lo, hi) })"

text \<open>The two repairs: a zero buffer size, and a default interval outside the range.\<close>

definition repair_buffer_size :: "uvc_format_desc \<Rightarrow> uvc_frame_desc \<Rightarrow> uvc_frame_desc" where
  "repair_buffer_size format frame =
     (if fr_dwMaxVideoFrameBufferSize frame = 0 \<and> fr_wWidth frame \<noteq> 0 \<and> fr_wHeight frame \<noteq> 0
      then frame\<lparr> fr_dwMaxVideoFrameBufferSize :=
             (if fo_bBitsPerPixel format \<noteq> 0
              then ucast (fo_bBitsPerPixel format) * ucast (fr_wWidth frame) * ucast (fr_wHeight frame) div 8
              else ucast (fr_wWidth frame) * ucast (fr_wHeight frame) * 2) \<rparr>
      else frame)"

definition repair_interval :: "uvc_frame_desc \<Rightarrow> uvc_frame_desc option" where
  "repair_interval frame = do {
     (min_interval, max_interval) \<leftarrow> interval_range frame;
     Some (if min_interval \<noteq> 0 \<and> max_interval \<noteq> 0 \<and> min_interval \<le> max_interval \<and>
              (fr_dwDefaultFrameInterval frame = 0 \<or>
               fr_dwDefaultFrameInterval frame < min_interval \<or>
               fr_dwDefaultFrameInterval frame > max_interval)
           then frame\<lparr> fr_dwDefaultFrameInterval :=
                  min max_interval (max min_interval (fr_dwDefaultFrameInterval frame)) \<rparr>
           else frame) }"

definition uvc_repair_frame_desc :: "uvc_format_desc \<Rightarrow> uvc_frame_desc \<Rightarrow> uvc_frame_desc option" where
  "uvc_repair_frame_desc format frame = repair_interval (repair_buffer_size format frame)"

text \<open>The loop that copies \<open>n\<close> intervals, a zero becoming a one.\<close>

fun rd_intervals :: "bytes \<Rightarrow> nat \<Rightarrow> nat \<Rightarrow> u32 list option" where
  "rd_intervals block p 0 = Some []"
| "rd_intervals block p (Suc n) = do {
     interval \<leftarrow> DW_TO_INT block p;
     rest \<leftarrow> rd_intervals block (p + 4) n;
     Some ((if interval \<noteq> 0 then interval else 1) # rest) }"

text \<open>The interval fields from offset 26 on, common to both frame parsers.\<close>

definition set_intervals :: "bytes \<Rightarrow> u8 \<Rightarrow> uvc_frame_desc \<Rightarrow> uvc_frame_desc option" where
  "set_intervals block ty frame =
     (if ty = 0 then do {
        lo \<leftarrow> DW_TO_INT block 26; hi \<leftarrow> DW_TO_INT block 30; st \<leftarrow> DW_TO_INT block 34;
        Some (frame\<lparr> fr_dwMinFrameInterval := lo, fr_dwMaxFrameInterval := hi,
          fr_dwFrameIntervalStep := st \<rparr>) }
      else do {
        ivs \<leftarrow> rd_intervals block 26 (unat ty);
        Some (frame\<lparr> fr_intervals := Some (ivs @ [0]) \<rparr>) })"

definition add_frame :: "uvc_frame_desc \<Rightarrow> uvc_streaming_interface \<Rightarrow> uvc_streaming_interface" where
  "add_frame fr si = si\<lparr> si_format_descs :=
     upd_last (\<lambda>f. f\<lparr> fo_frame_descs := fo_frame_descs f @ [fr] \<rparr>) (si_format_descs si) \<rparr>"

definition uvc_parse_vs_frame_frame ::
  "uvc_streaming_interface \<Rightarrow> bytes \<Rightarrow> nat \<Rightarrow> (int \<times> uvc_streaming_interface) option" where
  "uvc_parse_vs_frame_frame si block block_size =
     (if block_size < 26 \<or> si_format_descs si = [] then Some (UVC_ERROR_INVALID_DEVICE, si)
      else do {
        b21 \<leftarrow> rd block 21;
        if b21 = 0 \<and> block_size < 38 \<or> b21 \<noteq> 0 \<and> block_size < 26 + 4 * unat b21
        then Some (UVC_ERROR_INVALID_DEVICE, si)
        else do {
          format \<leftarrow> dl_prev (si_format_descs si);
          b2 \<leftarrow> rd block 2; b3 \<leftarrow> rd block 3; b4 \<leftarrow> rd block 4;
          w \<leftarrow> sum16 block 5; h \<leftarrow> sum16 block 7;
          minbr \<leftarrow> DW_TO_INT block 9; maxbr \<leftarrow> DW_TO_INT block 13; def \<leftarrow> DW_TO_INT block 17;
          bpl \<leftarrow> DW_TO_INT block 22;
          frame \<leftarrow> set_intervals block b21 (frame_desc0\<lparr> fr_bDescriptorSubtype := b2,
            fr_bFrameIndex := b3, fr_bmCapabilities := b4, fr_wWidth := w, fr_wHeight := h,
            fr_dwMinBitRate := minbr, fr_dwMaxBitRate := maxbr, fr_dwDefaultFrameInterval := def,
            fr_bFrameIntervalType := b21, fr_dwBytesPerLine := bpl \<rparr>);
          frame \<leftarrow> uvc_repair_frame_desc format frame;
          Some (UVC_SUCCESS, add_frame frame si) } })"

definition uvc_parse_vs_frame_uncompressed ::
  "uvc_streaming_interface \<Rightarrow> bytes \<Rightarrow> nat \<Rightarrow> (int \<times> uvc_streaming_interface) option" where
  "uvc_parse_vs_frame_uncompressed si block block_size = do {
     format \<leftarrow> dl_prev (si_format_descs si);
     b2 \<leftarrow> rd block 2; b3 \<leftarrow> rd block 3; b4 \<leftarrow> rd block 4;
     w \<leftarrow> sum16 block 5; h \<leftarrow> sum16 block 7;
     minbr \<leftarrow> DW_TO_INT block 9; maxbr \<leftarrow> DW_TO_INT block 13; maxsz \<leftarrow> DW_TO_INT block 17;
     def \<leftarrow> DW_TO_INT block 21; b25 \<leftarrow> rd block 25;
     frame \<leftarrow> set_intervals block b25 (frame_desc0\<lparr> fr_bDescriptorSubtype := b2,
       fr_bFrameIndex := b3, fr_bmCapabilities := b4, fr_wWidth := w, fr_wHeight := h,
       fr_dwMinBitRate := minbr, fr_dwMaxBitRate := maxbr, fr_dwMaxVideoFrameBufferSize := maxsz,
       fr_dwDefaultFrameInterval := def, fr_bFrameIntervalType := b25 \<rparr>);
     frame \<leftarrow> uvc_repair_frame_desc format frame;
     Some (UVC_SUCCESS, add_frame frame si) }"

text \<open>The size patterns of a still frame, numbered from 1; the index is stored in a byte.\<close>

fun rd_size_patterns :: "bytes \<Rightarrow> nat \<Rightarrow> nat \<Rightarrow> nat \<Rightarrow> uvc_still_frame_res list option" where
  "rd_size_patterns block p i 0 = Some []"
| "rd_size_patterns block p i (Suc n) = do {
     w \<leftarrow> SW_TO_SHORT block p; h \<leftarrow> SW_TO_SHORT block (p + 2);
     rest \<leftarrow> rd_size_patterns block (p + 4) (i + 1) n;
     Some (\<lparr> sr_bResolutionIndex = of_nat i, sr_wWidth = w, sr_wHeight = h \<rparr> # rest) }"

definition uvc_parse_vs_still_image_frame ::
  "uvc_streaming_interface \<Rightarrow> bytes \<Rightarrow> nat \<Rightarrow> (int \<times> uvc_streaming_interface) option" where
  "uvc_parse_vs_still_image_frame si block block_size = do {
     format \<leftarrow> dl_prev (si_format_descs si);
     b2 \<leftarrow> rd block 2; b3 \<leftarrow> rd block 3; numImageSizePatterns \<leftarrow> rd block 4;
     res \<leftarrow> rd_size_patterns block 5 1 (unat numImageSizePatterns);
     nc \<leftarrow> rd block (5 + 4 * unat numImageSizePatterns);
     comp \<leftarrow> (if nc \<noteq> 0 then map_option Some (rd_bytes block (6 + 4 * unat numImageSizePatterns) (unat nc))
             else Some None);
     Some (UVC_SUCCESS, si\<lparr> si_format_descs := upd_last (\<lambda>f. f\<lparr> fo_still_frame_desc :=
       fo_still_frame_desc f @ [\<lparr> sf_bDescriptorSubtype = b2, sf_bEndPointAddress = b3,
         sf_imageSizePatterns = res, sf_bNumCompressionPattern = nc, sf_bCompression = comp \<rparr>] \<rparr>)
       (si_format_descs si) \<rparr>) }"

text \<open>The dispatch on \<^verbatim>\<open>block[2]\<close> (the subtypes of \<^verbatim>\<open>enum uvc_vs_desc_subtype\<close>).\<close>

definition uvc_parse_vs ::
  "uvc_streaming_interface \<Rightarrow> bytes \<Rightarrow> nat \<Rightarrow> (int \<times> uvc_streaming_interface) option" where
  "uvc_parse_vs si block block_size = do {
     descriptor_subtype \<leftarrow> rd block 2;
     if descriptor_subtype = 0x01 then uvc_parse_vs_input_header si block block_size
     else if descriptor_subtype = 0x02 then Some (UVC_SUCCESS, si)
     else if descriptor_subtype = 0x03 then uvc_parse_vs_still_image_frame si block block_size
     else if descriptor_subtype = 0x04 then uvc_parse_vs_format_uncompressed si block block_size
     else if descriptor_subtype = 0x06 then uvc_parse_vs_format_mjpeg si block block_size
     else if descriptor_subtype = 0x05 \<or> descriptor_subtype = 0x07
       then uvc_parse_vs_frame_uncompressed si block block_size
     else if descriptor_subtype = 0x10 then uvc_parse_vs_frame_format si block block_size
     else if descriptor_subtype = 0x11 then uvc_parse_vs_frame_frame si block block_size
     else Some (UVC_SUCCESS, si) }"

section \<open>The scan loop\<close>

text \<open>
  \<^verbatim>\<open>uvc_scan_control\<close> and \<^verbatim>\<open>uvc_scan_streaming\<close> walk a buffer with the same loop; only the block
  parser differs.  It stops at the first block whose length byte is below 3 or runs past the
  buffer, and at the first error of the parser.
\<close>

function (sequential) scan_blocks ::
  "('s \<Rightarrow> bytes \<Rightarrow> nat \<Rightarrow> (int \<times> 's) option) \<Rightarrow> 's \<Rightarrow> bytes \<Rightarrow> (int \<times> 's) option" where
  "scan_blocks parse s [] = Some (UVC_SUCCESS, s)"
| "scan_blocks parse s (b # buf) =
     (if unat b < 3 \<or> unat b > length (b # buf) then Some (UVC_ERROR_INVALID_DEVICE, s)
      else case parse s (b # buf) (unat b) of
        None \<Rightarrow> None
      | Some (ret, s') \<Rightarrow>
          if ret \<noteq> UVC_SUCCESS then Some (ret, s')
          else scan_blocks parse s' (drop (unat b) (b # buf)))"
  by pat_completeness auto
termination
  by (relation "measure (\<lambda>(parse, s, buf). length buf)") auto

definition uvc_scan_streaming :: "uvc_device_info \<Rightarrow> nat \<Rightarrow> (int \<times> uvc_device_info) option" where
  "uvc_scan_streaming info interface_idx =
     (if interface_idx \<ge> length (in_config info) then Some (UVC_ERROR_INVALID_DEVICE, info)
      else do {
        interface \<leftarrow> rd (in_config info) interface_idx;
        if length interface < 1 then Some (UVC_ERROR_INVALID_DEVICE, info)
        else do {
          if_desc \<leftarrow> rd interface 0;
          (ret, stream_if) \<leftarrow> scan_blocks uvc_parse_vs
            (stream_if0\<lparr> si_bInterfaceNumber := id_bInterfaceNumber if_desc \<rparr>) (id_extra if_desc);
          Some (ret, info\<lparr> in_stream_ifs := in_stream_ifs info @ [stream_if] \<rparr>) } })"

section \<open>VideoControl blocks\<close>

abbreviation upd_ctrl_if ::
  "(uvc_control_interface \<Rightarrow> uvc_control_interface) \<Rightarrow> uvc_device_info \<Rightarrow> uvc_device_info" where
  "upd_ctrl_if f info \<equiv> info\<lparr> in_ctrl_if := f (in_ctrl_if info) \<rparr>"

text \<open>The header's baInterfaceNr bytes, from offset 12 to the end of the block.\<close>

fun scan_interfaces :: "uvc_device_info \<Rightarrow> bytes \<Rightarrow> nat \<Rightarrow> nat \<Rightarrow> (int \<times> uvc_device_info) option" where
  "scan_interfaces info block i 0 = Some (UVC_SUCCESS, info)"
| "scan_interfaces info block i (Suc n) = do {
     idx \<leftarrow> rd block i;
     (scan_ret, info') \<leftarrow> uvc_scan_streaming info (unat idx);
     if scan_ret \<noteq> UVC_SUCCESS then Some (scan_ret, info')
     else scan_interfaces info' block (i + 1) n }"

definition uvc_parse_vc_header ::
  "uvc_device_info \<Rightarrow> bytes \<Rightarrow> nat \<Rightarrow> (int \<times> uvc_device_info) option" where
  "uvc_parse_vc_header info block block_size = do {
     bcd \<leftarrow> SW_TO_SHORT block 3;
     let info = upd_ctrl_if (\<lambda>c. c\<lparr> ci_bcdUVC := bcd \<rparr>) info;
     if bcd = 0x0100 \<or> bcd = 0x010a \<or> bcd = 0x0110 \<or> bcd = 0x0150
     then do {
       clk \<leftarrow> DW_TO_INT block 7;
       scan_interfaces (upd_ctrl_if (\<lambda>c. c\<lparr> ci_dwClockFrequency := clk \<rparr>) info) block 12 (block_size - 12) }
     else Some (UVC_ERROR_NOT_SUPPORTED, info) }"

text \<open>
  The loops \<^verbatim>\<open>for (i = last; i >= first; --i) bmControls = block[i] + (bmControls << 8)\<close>:
  \<open>n\<close> bytes from offset \<open>lo\<close>, the highest first.
\<close>

fun bm_controls :: "bytes \<Rightarrow> nat \<Rightarrow> nat \<Rightarrow> u64 \<Rightarrow> u64 option" where
  "bm_controls block lo 0 acc = Some acc"
| "bm_controls block lo (Suc n) acc = do {
     b \<leftarrow> rd block (lo + n);
     bm_controls block lo n (ucast b + push_bit 8 acc) }"

definition uvc_parse_vc_input_terminal ::
  "uvc_device_info \<Rightarrow> bytes \<Rightarrow> nat \<Rightarrow> (int \<times> uvc_device_info) option" where
  "uvc_parse_vc_input_terminal info block block_size = do {
     ty \<leftarrow> SW_TO_SHORT block 4;
     if ty \<noteq> 0x0201 then Some (UVC_SUCCESS, info)
     else do {
       b3 \<leftarrow> rd block 3;
       fmin \<leftarrow> SW_TO_SHORT block 8; fmax \<leftarrow> SW_TO_SHORT block 10; foc \<leftarrow> SW_TO_SHORT block 12;
       n \<leftarrow> rd block 14;
       bm \<leftarrow> bm_controls block 15 (unat n) 0;
       Some (UVC_SUCCESS, upd_ctrl_if (\<lambda>c. c\<lparr> ci_input_term_descs := ci_input_term_descs c @
         [\<lparr> it_bTerminalID = b3, it_wTerminalType = ty, it_wObjectiveFocalLengthMin = fmin,
            it_wObjectiveFocalLengthMax = fmax, it_wOcularFocalLength = foc, it_bmControls = bm \<rparr>] \<rparr>) info) } }"

definition uvc_parse_vc_processing_unit ::
  "uvc_device_info \<Rightarrow> bytes \<Rightarrow> nat \<Rightarrow> (int \<times> uvc_device_info) option" where
  "uvc_parse_vc_processing_unit info block block_size = do {
     b3 \<leftarrow> rd block 3; b4 \<leftarrow> rd block 4; n \<leftarrow> rd block 7;
     bm \<leftarrow> bm_controls block 8 (unat n) 0;
     Some (UVC_SUCCESS, upd_ctrl_if (\<lambda>c. c\<lparr> ci_processing_unit_descs := ci_processing_unit_descs c @
       [\<lparr> pu_bUnitID = b3, pu_bSourceID = b4, pu_bmControls = bm \<rparr>] \<rparr>) info) }"

definition uvc_parse_vc_selector_unit ::
  "uvc_device_info \<Rightarrow> bytes \<Rightarrow> nat \<Rightarrow> (int \<times> uvc_device_info) option" where
  "uvc_parse_vc_selector_unit info block block_size = do {
     b3 \<leftarrow> rd block 3;
     Some (UVC_SUCCESS, upd_ctrl_if (\<lambda>c. c\<lparr> ci_selector_unit_descs := ci_selector_unit_descs c @
       [\<lparr> su_bUnitID = b3 \<rparr>] \<rparr>) info) }"

definition uvc_parse_vc_extension_unit ::
  "uvc_device_info \<Rightarrow> bytes \<Rightarrow> nat \<Rightarrow> (int \<times> uvc_device_info) option" where
  "uvc_parse_vc_extension_unit info block block_size = do {
     b3 \<leftarrow> rd block 3;
     guid \<leftarrow> rd_bytes block 4 16;
     num_in_pins \<leftarrow> rd block 21;
     size_of_controls \<leftarrow> rd block (22 + unat num_in_pins);
     bm \<leftarrow> bm_controls block (23 + unat num_in_pins) (unat size_of_controls) 0;
     Some (UVC_SUCCESS, upd_ctrl_if (\<lambda>c. c\<lparr> ci_extension_unit_descs := ci_extension_unit_descs c @
       [\<lparr> xu_bUnitID = b3, xu_guidExtensionCode = guid, xu_bmControls = bm \<rparr>] \<rparr>) info) }"

definition uvc_parse_vc :: "uvc_device_info \<Rightarrow> bytes \<Rightarrow> nat \<Rightarrow> (int \<times> uvc_device_info) option" where
  "uvc_parse_vc info block block_size = do {
     ty \<leftarrow> rd block 1;
     if ty \<noteq> 36 then Some (UVC_SUCCESS, info)
     else do {
       descriptor_subtype \<leftarrow> rd block 2;
       if descriptor_subtype = 0x01 then uvc_parse_vc_header info block block_size
       else if descriptor_subtype = 0x02 then uvc_parse_vc_input_terminal info block block_size
       else if descriptor_subtype = 0x03 then Some (UVC_SUCCESS, info)
       else if descriptor_subtype = 0x04 then uvc_parse_vc_selector_unit info block block_size
       else if descriptor_subtype = 0x05 then uvc_parse_vc_processing_unit info block block_size
       else if descriptor_subtype = 0x06 then uvc_parse_vc_extension_unit info block block_size
       else Some (UVC_ERROR_INVALID_DEVICE, info) } }"

section \<open>Finding the VideoControl interface\<close>

definition is_control_if :: "bool \<Rightarrow> libusb_interface_descriptor \<Rightarrow> bool" where
  "is_control_if haveTISCamera d =
     (haveTISCamera \<and> id_bInterfaceClass d = 255 \<and> id_bInterfaceSubClass d = 1 \<or>
      id_bInterfaceClass d = 14 \<and> id_bInterfaceSubClass d = 1)"

text \<open>The first interface, counted from \<open>i\<close>, whose altsetting 0 is a VideoControl interface.\<close>

fun find_control_if ::
  "bool \<Rightarrow> nat \<Rightarrow> libusb_config \<Rightarrow> (nat \<times> libusb_interface_descriptor) option option" where
  "find_control_if tis i [] = Some None"
| "find_control_if tis i (interface # rest) = do {
     if_desc \<leftarrow> rd interface 0;
     if is_control_if tis if_desc then Some (Some (i, if_desc))
     else find_control_if tis (i + 1) rest }"

text \<open>
  \<open>ids\<close> is what \<^verbatim>\<open>get_device_descriptor\<close> reports of the device, vendor and product number, or
  \<^term>\<open>None\<close> when libusb cannot read it.
\<close>

definition have_TIS_camera :: "(u16 \<times> u16) option \<Rightarrow> bool" where
  "have_TIS_camera ids = (case ids of None \<Rightarrow> False
     | Some (idVendor, idProduct) \<Rightarrow> idVendor = 0x199e \<and> (idProduct = 0x8101 \<or> idProduct = 0x8102))"

definition uvc_scan_control ::
  "(u16 \<times> u16) option \<Rightarrow> uvc_device_info \<Rightarrow> (int \<times> uvc_device_info) option" where
  "uvc_scan_control ids info = do {
     found \<leftarrow> find_control_if (have_TIS_camera ids) 0 (in_config info);
     case found of
       None \<Rightarrow> Some (UVC_ERROR_INVALID_DEVICE, info)
     | Some (interface_idx, if_desc) \<Rightarrow>
         (let info = upd_ctrl_if (\<lambda>c. c\<lparr> ci_bInterfaceNumber := of_nat interface_idx \<rparr>) info;
              info = (case id_endpoint if_desc of [] \<Rightarrow> info
                | ep # _ \<Rightarrow> upd_ctrl_if (\<lambda>c. c\<lparr> ci_bEndpointAddress := ep_bEndpointAddress ep \<rparr>) info)
          in scan_blocks uvc_parse_vc info (id_extra if_desc)) }"

text \<open>
  \<^verbatim>\<open>uvc_get_device_info\<close>: \<open>alloc\<close> tells whether calloc succeeds, \<open>config\<close> what
  \<^verbatim>\<open>libusb_get_config_descriptor\<close> yields (\<^term>\<open>None\<close>: it fails).  The structure is handed out
  only on success.
\<close>

definition uvc_get_device_info ::
  "bool \<Rightarrow> libusb_config option \<Rightarrow> (u16 \<times> u16) option \<Rightarrow> (int \<times> uvc_device_info option) option" where
  "uvc_get_device_info alloc config ids =
     (if \<not> alloc then Some (UVC_ERROR_NO_MEM, None)
      else case config of
        None \<Rightarrow> Some (UVC_ERROR_IO, None)
      | Some cfg \<Rightarrow> do {
          (ret, info) \<leftarrow> uvc_scan_control ids (device_info0 cfg);
          if ret \<noteq> UVC_SUCCESS then Some (ret, None) else Some (ret, Some info) })"

section \<open>What a parsed description satisfies\<close>

text \<open>
  A frame has either no interval array and type 0, or an array of as many non-zero intervals
  as its type says, closed by a zero: the loops of stream.c walk it up to that zero.
\<close>

definition frame_desc_wf :: "uvc_frame_desc \<Rightarrow> bool" where
  "frame_desc_wf fr = (case fr_intervals fr of
     None \<Rightarrow> fr_bFrameIntervalType fr = 0
   | Some xs \<Rightarrow> fr_bFrameIntervalType fr \<noteq> 0 \<and> length xs = unat (fr_bFrameIntervalType fr) + 1 \<and>
       last xs = 0 \<and> 0 \<notin> set (butlast xs))"

definition format_desc_wf :: "uvc_format_desc \<Rightarrow> bool" where
  "format_desc_wf f = (length (fo_guidFormat f) = 16 \<and> list_all frame_desc_wf (fo_frame_descs f))"

definition stream_if_wf :: "uvc_streaming_interface \<Rightarrow> bool" where
  "stream_if_wf si = list_all format_desc_wf (si_format_descs si)"

text \<open>Each streaming interface is a described one: it carries the number of an interface of the configuration.\<close>

definition device_info_wf :: "uvc_device_info \<Rightarrow> bool" where
  "device_info_wf info = list_all (\<lambda>si. stream_if_wf si \<and>
     list_ex (\<lambda>ifc. ifc \<noteq> [] \<and> id_bInterfaceNumber (hd ifc) = si_bInterfaceNumber si) (in_config info))
     (in_stream_ifs info)"

section \<open>Lemmas on the parsers\<close>

lemma rd_intervals_props:
  "rd_intervals block p n = Some ivs \<Longrightarrow> length ivs = n \<and> 0 \<notin> set ivs"
  by (induction block p n arbitrary: ivs rule: rd_intervals.induct)
     (auto simp: bind_eq_Some_conv split: if_splits)

lemma rd_intervals_Some:
  "p + 4 * n \<le> length block \<Longrightarrow> \<exists>ivs. rd_intervals block p n = Some ivs"
proof (induction n arbitrary: p)
  case (Suc n)
  have "p + 4 + 4 * n \<le> length block" using Suc.prems by simp
  then obtain ivs where "rd_intervals block (p + 4) n = Some ivs" using Suc.IH by blast
  moreover have "p + 4 \<le> length block" using Suc.prems by simp
  ultimately show ?case by (simp add: DW_TO_INT_Some)
qed simp

lemma rd_size_patterns_Some:
  "p + 4 * n \<le> length block \<Longrightarrow> \<exists>rs. rd_size_patterns block p i n = Some rs"
proof (induction n arbitrary: p i)
  case (Suc n)
  have "p + 4 + 4 * n \<le> length block" using Suc.prems by simp
  then obtain rs where "rd_size_patterns block (p + 4) (i + 1) n = Some rs" using Suc.IH by blast
  moreover have "p + 2 \<le> length block" "p + 2 + 2 \<le> length block" using Suc.prems by simp_all
  ultimately show ?case by (simp add: SW_TO_SHORT_Some)
qed simp

lemma bm_controls_Some:
  "lo + n \<le> length block \<Longrightarrow> \<exists>v. bm_controls block lo n acc = Some v"
  by (induction block lo n acc rule: bm_controls.induct) (auto simp: rd_Some)

lemma repair_fields:
  assumes "uvc_repair_frame_desc format frame = Some frame'"
  shows "fr_intervals frame' = fr_intervals frame \<and>
    fr_bFrameIntervalType frame' = fr_bFrameIntervalType frame"
  using assms
  by (auto simp: uvc_repair_frame_desc_def repair_interval_def repair_buffer_size_def bind_eq_Some_conv
      split: if_splits)

lemma set_intervals_wf:
  assumes "set_intervals block ty frame = Some frame'"
    and "fr_intervals frame = None" and "fr_bFrameIntervalType frame = ty"
  shows "frame_desc_wf frame'"
  using assms
  by (auto simp: set_intervals_def frame_desc_wf_def bind_eq_Some_conv dest: rd_intervals_props split: if_splits)

lemma repair_wf:
  assumes "uvc_repair_frame_desc format frame = Some frame'" and "frame_desc_wf frame"
  shows "frame_desc_wf frame'"
  using assms(2) repair_fields [OF assms(1)] by (auto simp: frame_desc_wf_def split: option.splits)

lemma interval_range_cong [simp]:
  "interval_range (fr\<lparr> fr_dwMaxVideoFrameBufferSize := a \<rparr>) = interval_range fr"
  "interval_range (fr\<lparr> fr_dwDefaultFrameInterval := b \<rparr>) = interval_range fr"
  by (simp_all add: interval_range_def)

lemma interval_range_size [simp]: "interval_range (repair_buffer_size format fr) = interval_range fr"
  by (simp add: repair_buffer_size_def)

lemma interval_range_Some: "frame_desc_wf fr \<Longrightarrow> \<exists>lo hi. interval_range fr = Some (lo, hi)"
  by (auto simp: interval_range_def frame_desc_wf_def rd_def split: option.splits)

lemma repair_Some:
  assumes "frame_desc_wf frame"
  shows "\<exists>frame'. uvc_repair_frame_desc format frame = Some frame'"
  using interval_range_Some [OF assms] by (auto simp: uvc_repair_frame_desc_def repair_interval_def)

lemma wf_add_frame:
  assumes "stream_if_wf si" and "frame_desc_wf fr"
  shows "stream_if_wf (add_frame fr si)"
proof (cases "si_format_descs si" rule: rev_cases)
  case Nil then show ?thesis by (simp add: stream_if_wf_def add_frame_def upd_last_def)
next
  case (snoc xs x) with assms show ?thesis by (simp add: stream_if_wf_def add_frame_def format_desc_wf_def)
qed

lemma wf_add_format:
  "stream_if_wf si \<Longrightarrow> format_desc_wf f \<Longrightarrow> stream_if_wf (add_format f si)"
  by (simp add: stream_if_wf_def add_format_def)

lemma wf_upd_still:
  assumes "stream_if_wf si"
  shows "stream_if_wf (si\<lparr> si_format_descs := upd_last (\<lambda>f. f\<lparr> fo_still_frame_desc := g f \<rparr>) (si_format_descs si) \<rparr>)"
proof (cases "si_format_descs si" rule: rev_cases)
  case Nil then show ?thesis by (simp add: stream_if_wf_def upd_last_def)
next
  case (snoc xs x) with assms show ?thesis by (simp add: stream_if_wf_def format_desc_wf_def)
qed

lemma input_header_wf:
  "stream_if_wf si \<Longrightarrow> uvc_parse_vs_input_header si block n = Some (r, si') \<Longrightarrow> stream_if_wf si'"
  by (auto simp: uvc_parse_vs_input_header_def bind_eq_Some_conv stream_if_wf_def)

lemma format_uncompressed_wf:
  "stream_if_wf si \<Longrightarrow> uvc_parse_vs_format_uncompressed si block n = Some (r, si') \<Longrightarrow> stream_if_wf si'"
  by (auto simp: uvc_parse_vs_format_uncompressed_def bind_eq_Some_conv format_desc_wf_def
      format_desc0_def intro!: wf_add_format dest: rd_bytes_length)

lemma frame_format_wf:
  "stream_if_wf si \<Longrightarrow> uvc_parse_vs_frame_format si block n = Some (r, si') \<Longrightarrow> stream_if_wf si'"
  by (auto simp: uvc_parse_vs_frame_format_def bind_eq_Some_conv format_desc_wf_def
      format_desc0_def intro!: wf_add_format dest: rd_bytes_length split: if_splits)

lemma format_mjpeg_wf:
  "stream_if_wf si \<Longrightarrow> uvc_parse_vs_format_mjpeg si block n = Some (r, si') \<Longrightarrow> stream_if_wf si'"
  by (auto simp: uvc_parse_vs_format_mjpeg_def bind_eq_Some_conv format_desc_wf_def
      format_desc0_def intro!: wf_add_format)

lemma new_frame_wf:
  assumes "set_intervals block ty frame = Some frame'"
    and "uvc_repair_frame_desc format frame' = Some frame''"
    and "fr_intervals frame = None" and "fr_bFrameIntervalType frame = ty"
  shows "frame_desc_wf frame''"
  using assms by (blast intro: repair_wf set_intervals_wf)

lemma frame_frame_wf:
  "stream_if_wf si \<Longrightarrow> uvc_parse_vs_frame_frame si block n = Some (r, si') \<Longrightarrow> stream_if_wf si'"
  unfolding uvc_parse_vs_frame_frame_def
  by (auto simp: bind_eq_Some_conv frame_desc0_def intro!: wf_add_frame elim!: new_frame_wf
      split: if_splits)

lemma frame_uncompressed_wf:
  "stream_if_wf si \<Longrightarrow> uvc_parse_vs_frame_uncompressed si block n = Some (r, si') \<Longrightarrow> stream_if_wf si'"
  unfolding uvc_parse_vs_frame_uncompressed_def
  by (auto simp: bind_eq_Some_conv frame_desc0_def intro!: wf_add_frame elim!: new_frame_wf)

lemma still_image_wf:
  "stream_if_wf si \<Longrightarrow> uvc_parse_vs_still_image_frame si block n = Some (r, si') \<Longrightarrow> stream_if_wf si'"
  unfolding uvc_parse_vs_still_image_frame_def
  by (auto simp: bind_eq_Some_conv intro!: wf_upd_still)

lemma uvc_parse_vs_wf:
  assumes "stream_if_wf si" and "uvc_parse_vs si block n = Some (r, si')"
  shows "stream_if_wf si'"
  using assms unfolding uvc_parse_vs_def
  by (auto simp: bind_eq_Some_conv split: if_splits
     intro: input_header_wf format_uncompressed_wf frame_format_wf format_mjpeg_wf
       frame_frame_wf frame_uncompressed_wf still_image_wf)



text \<open>The loops read exactly the bytes they cover.\<close>

lemma rd_intervals_bound: "rd_intervals block p n = Some ivs \<Longrightarrow> n = 0 \<or> p + 4 * n \<le> length block"
proof (induction n arbitrary: p ivs)
  case (Suc n)
  from Suc.prems obtain rest where r: "rd_intervals block (p + 4) n = Some rest"
    and "DW_TO_INT block p \<noteq> None" by (auto simp: bind_eq_Some_conv)
  then have "p + 4 \<le> length block" by (auto simp: DW_TO_INT_def rd_def split: if_splits)
  with Suc.IH [OF r] show ?case by auto
qed simp

lemma rd_size_patterns_bound:
  "rd_size_patterns block p i n = Some rs \<Longrightarrow> n = 0 \<or> p + 4 * n \<le> length block"
proof (induction n arbitrary: p i rs)
  case (Suc n)
  from Suc.prems obtain rest where r: "rd_size_patterns block (p + 4) (i + 1) n = Some rest"
    and "SW_TO_SHORT block (p + 2) \<noteq> None" by (auto simp: bind_eq_Some_conv)
  then have "p + 4 \<le> length block" by (auto simp: SW_TO_SHORT_def rd_def split: if_splits)
  with Suc.IH [OF r] show ?case by auto
qed simp

text \<open>
  What a VideoStreaming block must hold for the parser to stay inside \<^verbatim>\<open>extra\<close>.  The
  frame-based subtypes \<^verbatim>\<open>0x10\<close> and \<^verbatim>\<open>0x11\<close> need nothing: their parsers check first.
\<close>

definition vs_readable :: "bool \<Rightarrow> bytes \<Rightarrow> bool" where
  "vs_readable has_format block =
     (3 \<le> length block \<and>
      (block ! 2 = 0x01 \<longrightarrow> 10 \<le> length block) \<and>
      (block ! 2 = 0x03 \<longrightarrow> has_format \<and> 5 \<le> length block \<and>
         6 + 4 * unat (block ! 4) \<le> length block \<and>
         6 + 4 * unat (block ! 4) + unat (block ! (5 + 4 * unat (block ! 4))) \<le> length block) \<and>
      (block ! 2 = 0x04 \<longrightarrow> 27 \<le> length block) \<and>
      (block ! 2 = 0x05 \<or> block ! 2 = 0x07 \<longrightarrow> has_format \<and> 26 \<le> length block \<and>
         (if block ! 25 = 0 then 38 else 26 + 4 * unat (block ! 25)) \<le> length block) \<and>
      (block ! 2 = 0x06 \<longrightarrow> 11 \<le> length block))"

lemma set_intervals_defined:
  assumes "26 \<le> length block"
  shows "set_intervals block ty frame = None \<longleftrightarrow>
    length block < (if ty = 0 then 38 else 26 + 4 * unat ty)"
proof (cases "ty = 0")
  case True then show ?thesis by (auto simp: set_intervals_def uvc_mem)
next
  case False
  then have "unat ty \<noteq> 0" by (simp add: unat_eq_0)
  then have "rd_intervals block 26 (unat ty) = None \<longleftrightarrow> length block < 26 + 4 * unat ty"
    using rd_intervals_Some [of 26 "unat ty" block] rd_intervals_bound [of block 26 "unat ty"]
    by (metis not_le not_None_eq)
  with False show ?thesis by (cases "rd_intervals block 26 (unat ty)") (auto simp: set_intervals_def)
qed

lemma new_frame_defined:
  assumes "26 \<le> length block" and "fr_intervals frame = None" and "fr_bFrameIntervalType frame = ty"
  shows "Option.bind (set_intervals block ty frame)
          (\<lambda>fr. Option.bind (uvc_repair_frame_desc format fr) (\<lambda>fr. Some (g fr))) = None \<longleftrightarrow>
    length block < (if ty = 0 then 38 else 26 + 4 * unat ty)"
proof (cases "set_intervals block ty frame")
  case None with set_intervals_defined [OF assms(1), of ty frame] show ?thesis by simp
next
  case (Some fr)
  then obtain fr' where "uvc_repair_frame_desc format fr = Some fr'"
    using repair_Some set_intervals_wf assms by blast
  with Some set_intervals_defined [OF assms(1), of ty frame] show ?thesis by simp
qed

lemma frame_uncompressed_defined:
  "uvc_parse_vs_frame_uncompressed si block n = None \<longleftrightarrow>
    si_format_descs si = [] \<or> length block < 26 \<or>
    length block < (if block ! 25 = 0 then 38 else 26 + 4 * unat (block ! 25))"
proof (cases "26 \<le> length block")
  case True
  then show ?thesis
    unfolding uvc_parse_vs_frame_uncompressed_def
    by (simp add: uvc_mem new_frame_defined frame_desc0_def)
next
  case False
  then show ?thesis
    unfolding uvc_parse_vs_frame_uncompressed_def by (auto simp: uvc_mem)
qed

lemma frame_frame_defined:
  assumes "n \<le> length block"
  shows "uvc_parse_vs_frame_frame si block n \<noteq> None"
proof (cases "n < 26 \<or> si_format_descs si = [] \<or> block ! 21 = 0 \<and> n < 38 \<or>
    block ! 21 \<noteq> 0 \<and> n < 26 + 4 * unat (block ! 21)")
  case True
  with assms show ?thesis by (auto simp: uvc_parse_vs_frame_frame_def rd_Some)
next
  case False
  then have "26 \<le> n" "(if block ! 21 = 0 then 38 else 26 + 4 * unat (block ! 21)) \<le> n" by auto
  with False assms show ?thesis
    unfolding uvc_parse_vs_frame_frame_def
    by (simp add: uvc_mem new_frame_defined frame_desc0_def del: not_None_eq split: if_splits)
qed

lemma still_image_defined:
  "uvc_parse_vs_still_image_frame si block n = None \<longleftrightarrow>
    si_format_descs si = [] \<or> length block < 5 \<or> length block < 6 + 4 * unat (block ! 4) \<or>
    length block < 6 + 4 * unat (block ! 4) + unat (block ! (5 + 4 * unat (block ! 4)))"
  (is "_ \<longleftrightarrow> ?rhs")
proof (cases "rd_size_patterns block 5 1 (unat (block ! 4))")
  case None
  with rd_size_patterns_Some [of 5 "unat (block ! 4)" block 1]
  have "length block < 5 + 4 * unat (block ! 4)" by force
  with None show ?thesis by (auto simp: uvc_parse_vs_still_image_frame_def uvc_mem)
next
  case (Some rs)
  then show ?thesis
    by (auto simp: uvc_parse_vs_still_image_frame_def uvc_mem rd_bytes_def unat_gt_0
        split: if_splits)
qed

lemma vs_readable_iff:
  assumes "3 \<le> n" and "n \<le> length block"
  shows "uvc_parse_vs si block n = None \<longleftrightarrow> \<not> vs_readable (si_format_descs si \<noteq> []) block"
  using assms frame_frame_defined [OF assms(2), of si]
  unfolding uvc_parse_vs_def vs_readable_def
  by (auto simp: uvc_mem frame_uncompressed_defined still_image_defined
    uvc_parse_vs_input_header_def uvc_parse_vs_format_uncompressed_def
    uvc_parse_vs_format_mjpeg_def uvc_parse_vs_frame_format_def)

section \<open>The scan loop as an interface\<close>

text \<open>The blocks at the front of a buffer, and what is left from the first bad length byte on.\<close>

function (sequential) split_blocks :: "bytes \<Rightarrow> bytes list \<times> bytes" where
  "split_blocks [] = ([], [])"
| "split_blocks (b # buf) =
     (if unat b < 3 \<or> unat b > length (b # buf) then ([], b # buf)
      else let (bs, left) = split_blocks (drop (unat b) (b # buf))
           in (take (unat b) (b # buf) # bs, left))"
  by pat_completeness auto
termination
  by (relation "measure length") auto

text \<open>
  A sequence of blocks conforms when each one is readable in the state its predecessors lead
  to; \<open>ok\<close> and \<open>next\<close> follow only the abstraction \<open>a\<close> of the parser's state.
\<close>

fun conforms :: "('a \<Rightarrow> bytes \<Rightarrow> bool) \<Rightarrow> ('a \<Rightarrow> bytes \<Rightarrow> 'a) \<Rightarrow> 'a \<Rightarrow> bytes list \<Rightarrow> bool" where
  "conforms ok next a [] = True"
| "conforms ok next a (b # bs) = (ok a b \<and> conforms ok next (next a b) bs)"

lemma split_blocks_concat: "concat (fst (split_blocks buf)) @ snd (split_blocks buf) = buf"
  by (induction buf rule: split_blocks.induct) (auto simp: split_beta Let_def)

lemma split_blocks_sizes:
  "b \<in> set (fst (split_blocks buf)) \<Longrightarrow> 3 \<le> length b \<and> unat (hd b) = length b"
  by (induction buf rule: split_blocks.induct) (auto simp: split_beta Let_def split: if_splits)

locale block_parser =
  fixes parse :: "'s \<Rightarrow> bytes \<Rightarrow> nat \<Rightarrow> (int \<times> 's) option"
    and inv :: "'s \<Rightarrow> bool"
    and abs :: "'s \<Rightarrow> 'a"
    and ok :: "'a \<Rightarrow> bytes \<Rightarrow> bool"
    and nxt :: "'a \<Rightarrow> bytes \<Rightarrow> 'a"
  assumes parse_inv: "inv s \<Longrightarrow> 3 \<le> n \<Longrightarrow> n \<le> length block \<Longrightarrow>
      parse s block n = Some (r, s') \<Longrightarrow> inv s'"
    and parse_defined: "3 \<le> n \<Longrightarrow> n \<le> length block \<Longrightarrow> ok (abs s) (take n block) \<Longrightarrow>
      parse s block n \<noteq> None"
    and parse_abs: "3 \<le> n \<Longrightarrow> n \<le> length block \<Longrightarrow> parse s block n = Some (0, s') \<Longrightarrow>
      abs s' = nxt (abs s) (take n block)"
begin

lemma scan_inv: "inv s \<Longrightarrow> scan_blocks parse s buf = Some (r, s') \<Longrightarrow> inv s'"
proof (induction buf arbitrary: s rule: split_blocks.induct)
  case (2 b buf)
  show ?case
  proof (cases "unat b < 3 \<or> unat b > length (b # buf)")
    case False
    with 2 parse_inv [of s "unat b" "b # buf"] show ?thesis
      by (auto split: option.splits if_splits)
  qed (use 2 in auto)
qed simp

lemma scan_success_tiles:
  "scan_blocks parse s buf = Some (0, s') \<Longrightarrow> snd (split_blocks buf) = []"
proof (induction buf arbitrary: s rule: split_blocks.induct)
  case (2 b buf)
  then show ?case
    by (cases "unat b < 3 \<or> unat b > length (b # buf)")
       (auto simp: split_beta Let_def split: option.splits if_splits)
qed simp

lemma scan_abs:
  "scan_blocks parse s buf = Some (0, s') \<Longrightarrow> abs s' = foldl nxt (abs s) (fst (split_blocks buf))"
proof (induction buf arbitrary: s rule: split_blocks.induct)
  case (2 b buf)
  show ?case
  proof (cases "unat b < 3 \<or> unat b > length (b # buf)")
    case False
    with 2 parse_abs [of "unat b" "b # buf" s] show ?thesis
      by (auto simp: split_beta Let_def split: option.splits if_splits)
  qed (use 2 in auto)
qed simp

lemma scan_defined_step:
  assumes "3 \<le> n" and "n \<le> length block" and "conforms ok nxt (abs s) (take n block # bs)"
  obtains r s' where "parse s block n = Some (r, s')" and "r = 0 \<Longrightarrow> conforms ok nxt (abs s') bs"
  using assms parse_defined [of n block s] parse_abs [of n block s] by auto

lemma scan_defined:
  "conforms ok nxt (abs s) (fst (split_blocks buf)) \<Longrightarrow> scan_blocks parse s buf \<noteq> None"
proof (induction buf arbitrary: s rule: split_blocks.induct)
  case 1
  show ?case by simp
next
  case (2 b buf)
  show ?case
  proof (cases "unat b < 3 \<or> unat b > length (b # buf)")
    case True
    then show ?thesis by auto
  next
    case False
    then have "conforms ok nxt (abs s) (take (unat b) (b # buf) # fst (split_blocks (drop (unat b) (b # buf))))"
      using 2(2) by (auto simp: split_beta Let_def)
    then obtain r s' where "parse s (b # buf) (unat b) = Some (r, s')"
      and "r = 0 \<Longrightarrow> conforms ok nxt (abs s') (fst (split_blocks (drop (unat b) (b # buf))))"
      using scan_defined_step [of "unat b" "b # buf"] False by (metis not_less)
    with 2(1) [OF False, of s'] False show ?thesis by auto
  qed
qed

end

definition vs_next :: "bool \<Rightarrow> bytes \<Rightarrow> bool" where
  "vs_next has_format b = (has_format \<or> b ! 2 = 0x04 \<or> b ! 2 = 0x06 \<or> b ! 2 = 0x10)"

lemma vs_readable_take: "n \<le> length block \<Longrightarrow> vs_readable hf (take n block) \<Longrightarrow> vs_readable hf block"
proof -
  assume n: "n \<le> length block" and r: "vs_readable hf (take n block)"
  have len: "length (take n block) = n" using n by simp
  from r have "3 \<le> n" unfolding vs_readable_def len by blast
  then have sub: "take n block ! 2 = block ! 2" by simp
  consider (still) "block ! 2 = 0x03" | (frame) "block ! 2 = 0x05 \<or> block ! 2 = 0x07"
    | (other) "block ! 2 \<noteq> 0x03" "block ! 2 \<noteq> 0x05" "block ! 2 \<noteq> 0x07" by blast
  then show ?thesis
  proof cases
    case still
    let ?k = "4 * unat (block ! 4)"
    from r still have b: "hf" "5 \<le> n" "6 + 4 * unat (take n block ! 4) \<le> n"
      "6 + 4 * unat (take n block ! 4) + unat (take n block ! (5 + 4 * unat (take n block ! 4))) \<le> n"
      unfolding vs_readable_def len sub by auto
    from b(2) have k: "take n block ! 4 = block ! 4" by simp
    from b(3) have kk: "take n block ! (5 + ?k) = block ! (5 + ?k)" unfolding k by simp
    from b(4) have "6 + ?k + unat (block ! (5 + ?k)) \<le> n" unfolding k kk .
    with b n still show ?thesis unfolding vs_readable_def by auto
  next
    case frame
    with r have b: "hf" "26 \<le> n" "(if take n block ! 25 = 0 then 38 else 26 + 4 * unat (take n block ! 25)) \<le> n"
      unfolding vs_readable_def len sub by auto
    from b(2) have k: "take n block ! 25 = block ! 25" by simp
    from b(3) have "(if block ! 25 = 0 then 38 else 26 + 4 * unat (block ! 25)) \<le> n" unfolding k .
    with b n frame show ?thesis unfolding vs_readable_def by auto
  next
    case other
    with r n show ?thesis unfolding vs_readable_def len sub by auto
  qed
qed

lemma add_frame_formats [simp]: "si_format_descs (add_frame fr si) = [] \<longleftrightarrow> si_format_descs si = []"
  by (simp add: add_frame_def)

lemma add_format_formats [simp]: "si_format_descs (add_format f si) \<noteq> []"
  by (simp add: add_format_def)

lemma uvc_parse_vs_next:
  assumes "3 \<le> n" and "n \<le> length block" and "uvc_parse_vs si block n = Some (0, si')"
  shows "(si_format_descs si' \<noteq> []) = vs_next (si_format_descs si \<noteq> []) (take n block)"
proof -
  have sub: "take n block ! 2 = block ! 2" "rd block 2 = Some (block ! 2)"
    using assms by (simp_all add: rd_Some)
  show ?thesis
    using assms(3) unfolding uvc_parse_vs_def vs_next_def sub
    by (auto simp: bind_eq_Some_conv uvc_parse_vs_input_header_def uvc_parse_vs_format_uncompressed_def
      uvc_parse_vs_frame_format_def uvc_parse_vs_format_mjpeg_def uvc_parse_vs_frame_frame_def
      uvc_parse_vs_frame_uncompressed_def uvc_parse_vs_still_image_frame_def dl_prev_def
      split: if_splits)
qed

lemma uvc_parse_vs_number:
  assumes "uvc_parse_vs si block n = Some (r, si')"
  shows "si_bInterfaceNumber si' = si_bInterfaceNumber si"
  using assms unfolding uvc_parse_vs_def
  by (auto simp: bind_eq_Some_conv uvc_parse_vs_input_header_def uvc_parse_vs_format_uncompressed_def
      uvc_parse_vs_frame_format_def uvc_parse_vs_format_mjpeg_def uvc_parse_vs_frame_frame_def
      uvc_parse_vs_frame_uncompressed_def uvc_parse_vs_still_image_frame_def add_frame_def add_format_def
      split: if_splits)

interpretation vs: block_parser uvc_parse_vs "\<lambda>si. stream_if_wf si \<and> si_bInterfaceNumber si = k"
  "\<lambda>si. si_format_descs si \<noteq> []" vs_readable vs_next for k
proof unfold_locales
  fix n and block :: bytes and s :: uvc_streaming_interface assume "3 \<le> n" "n \<le> length block"
    "vs_readable (si_format_descs s \<noteq> []) (take n block)"
  then show "uvc_parse_vs s block n \<noteq> None" using vs_readable_iff vs_readable_take by blast
qed (use uvc_parse_vs_wf uvc_parse_vs_next uvc_parse_vs_number in blast)+

section \<open>The control interface\<close>

text \<open>A configuration whose interface \<open>i\<close>, if it exists, carries a conforming block sequence.\<close>

definition stream_if_ok :: "libusb_config \<Rightarrow> nat \<Rightarrow> bool" where
  "stream_if_ok cfg i = (i < length cfg \<longrightarrow> cfg ! i \<noteq> [] \<longrightarrow>
     conforms vs_readable vs_next False (fst (split_blocks (id_extra (hd (cfg ! i))))))"

definition bcd_supported :: "u16 \<Rightarrow> bool" where
  "bcd_supported bcd = (bcd = 0x0100 \<or> bcd = 0x010a \<or> bcd = 0x0110 \<or> bcd = 0x0150)"

definition vc_readable :: "libusb_config \<Rightarrow> bytes \<Rightarrow> bool" where
  "vc_readable cfg b =
     (3 \<le> length b \<and> (b ! 1 = 36 \<longrightarrow>
      (b ! 2 = 0x01 \<longrightarrow> 5 \<le> length b \<and> (bcd_supported (sw_of (b ! 3) (b ! 4)) \<longrightarrow>
         11 \<le> length b \<and> list_all (\<lambda>i. stream_if_ok cfg (unat i)) (drop 12 b))) \<and>
      (b ! 2 = 0x02 \<longrightarrow> 6 \<le> length b \<and> (sw_of (b ! 4) (b ! 5) = 0x0201 \<longrightarrow>
         15 \<le> length b \<and> 15 + unat (b ! 14) \<le> length b)) \<and>
      (b ! 2 = 0x04 \<longrightarrow> 4 \<le> length b) \<and>
      (b ! 2 = 0x05 \<longrightarrow> 8 \<le> length b \<and> 8 + unat (b ! 7) \<le> length b) \<and>
      (b ! 2 = 0x06 \<longrightarrow> 22 \<le> length b \<and> 23 + unat (b ! 21) \<le> length b \<and>
         23 + unat (b ! 21) + unat (b ! (22 + unat (b ! 21))) \<le> length b)))"

lemma scan_streaming_config: "uvc_scan_streaming info i = Some (r, info') \<Longrightarrow> in_config info' = in_config info"
  by (auto simp: uvc_scan_streaming_def bind_eq_Some_conv split: if_splits)

lemma scan_interfaces_config:
  "scan_interfaces info block i n = Some (r, info') \<Longrightarrow> in_config info' = in_config info"
  by (induction n arbitrary: i info)
     (auto simp: bind_eq_Some_conv split: if_splits dest: scan_streaming_config)

lemma scan_streaming_wf:
  assumes "device_info_wf info" and "uvc_scan_streaming info i = Some (r, info')"
  shows "device_info_wf info'"
proof (cases "info' = info")
  case False
  with assms obtain ifc d si where c: "rd (in_config info) i = Some ifc" "rd ifc 0 = Some d"
    and s: "scan_blocks uvc_parse_vs (stream_if0\<lparr> si_bInterfaceNumber := id_bInterfaceNumber d \<rparr>) (id_extra d) = Some (r, si)"
    and i: "info' = info\<lparr> in_stream_ifs := in_stream_ifs info @ [si] \<rparr>"
    by (auto simp: uvc_scan_streaming_def bind_eq_Some_conv split: if_splits)
  have "stream_if_wf (stream_if0\<lparr> si_bInterfaceNumber := id_bInterfaceNumber d \<rparr>) \<and>
      si_bInterfaceNumber (stream_if0\<lparr> si_bInterfaceNumber := id_bInterfaceNumber d \<rparr>) = id_bInterfaceNumber d"
    by (simp add: stream_if_wf_def stream_if0_def)
  then have "stream_if_wf si \<and> si_bInterfaceNumber si = id_bInterfaceNumber d"
    using s by (rule vs.scan_inv)
  moreover have "ifc \<in> set (in_config info)" "ifc \<noteq> []" "hd ifc = d"
    using c by (auto simp: rd_def hd_conv_nth split: if_splits)
  ultimately show ?thesis using assms(1) i by (auto simp: device_info_wf_def list_ex_iff)
qed (use assms in simp)

lemma scan_interfaces_wf:
  "device_info_wf info \<Longrightarrow> scan_interfaces info block i n = Some (r, info') \<Longrightarrow> device_info_wf info'"
proof (induction n arbitrary: i info)
  case (Suc n)
  then show ?case
    by (auto simp: bind_eq_Some_conv split: if_splits intro: scan_streaming_wf)
qed simp

text \<open>Every block parser but the header's only changes the control interface.\<close>

lemma device_info_wf_ctrl_if [simp]: "device_info_wf (info\<lparr> in_ctrl_if := c \<rparr>) = device_info_wf info"
  by (simp add: device_info_wf_def)

lemma vc_header_effect:
  assumes "uvc_parse_vc_header info block n = Some (r, info')"
  obtains c where "info' = info\<lparr> in_ctrl_if := c \<rparr>"
  | c where "scan_interfaces (info\<lparr> in_ctrl_if := c \<rparr>) block 12 (n - 12) = Some (r, info')"
  using assms by (auto simp: uvc_parse_vc_header_def bind_eq_Some_conv Let_def split: if_splits)

lemma vc_effect:
  assumes "uvc_parse_vc info block n = Some (r, info')"
  obtains c where "info' = info\<lparr> in_ctrl_if := c \<rparr>"
  | c where "scan_interfaces (info\<lparr> in_ctrl_if := c \<rparr>) block 12 (n - 12) = Some (r, info')"
proof -
  have same: "\<exists>c. info = info\<lparr> in_ctrl_if := c \<rparr>" by (metis uvc_device_info.surjective uvc_device_info.update_convs(2))
  consider "uvc_parse_vc_header info block n = Some (r, info')"
    | "uvc_parse_vc_input_terminal info block n = Some (r, info')"
    | "uvc_parse_vc_selector_unit info block n = Some (r, info')"
    | "uvc_parse_vc_processing_unit info block n = Some (r, info')"
    | "uvc_parse_vc_extension_unit info block n = Some (r, info')" | "info' = info"
    using assms by (auto simp: uvc_parse_vc_def bind_eq_Some_conv split: if_splits)
  then have "(\<exists>c. info' = info\<lparr> in_ctrl_if := c \<rparr>) \<or>
      (\<exists>c. scan_interfaces (info\<lparr> in_ctrl_if := c \<rparr>) block 12 (n - 12) = Some (r, info'))"
  proof cases
    case 1 then show ?thesis by (rule vc_header_effect) auto
  next
    case 2 with same show ?thesis
      by (auto simp: uvc_parse_vc_input_terminal_def bind_eq_Some_conv split: if_splits)
  qed (auto simp: same uvc_parse_vc_selector_unit_def uvc_parse_vc_processing_unit_def
        uvc_parse_vc_extension_unit_def bind_eq_Some_conv)
  then show thesis using that by blast
qed

lemma uvc_parse_vc_config:
  assumes "uvc_parse_vc info block n = Some (r, info')"
  shows "in_config info' = in_config info"
  using assms by (rule vc_effect) (auto dest: scan_interfaces_config)

lemma uvc_parse_vc_wf:
  assumes "device_info_wf info" and "uvc_parse_vc info block n = Some (r, info')"
  shows "device_info_wf info'"
  using assms(2) by (rule vc_effect) (use assms(1) in \<open>auto intro: scan_interfaces_wf [rotated]\<close>)

lemma scan_streaming_defined:
  assumes "stream_if_ok (in_config info) i"
  shows "uvc_scan_streaming info i \<noteq> None"
proof (cases "i < length (in_config info) \<and> in_config info ! i \<noteq> []")
  case True
  let ?d = "in_config info ! i ! 0"
  have "conforms vs_readable vs_next False (fst (split_blocks (id_extra ?d)))"
    using assms True by (simp add: stream_if_ok_def hd_conv_nth)
  then have "scan_blocks uvc_parse_vs (stream_if0\<lparr> si_bInterfaceNumber := id_bInterfaceNumber ?d \<rparr>)
      (id_extra ?d) \<noteq> None"
    by (intro vs.scan_defined) (simp add: stream_if0_def)
  with True show ?thesis by (auto simp: uvc_scan_streaming_def rd_Some)
qed (auto simp: uvc_scan_streaming_def rd_def)

lemma scan_interfaces_defined:
  assumes "n = 0 \<or> i + n \<le> length block"
    and "list_all (\<lambda>idx. stream_if_ok (in_config info) (unat idx)) (take n (drop i block))"
  shows "scan_interfaces info block i n \<noteq> None"
  using assms
proof (induction n arbitrary: i info)
  case (Suc n)
  have d: "drop i block = block ! i # drop (i + 1) block" using Suc.prems(1) by (simp add: Cons_nth_drop_Suc)
  with Suc.prems(2) have ok: "stream_if_ok (in_config info) (unat (block ! i))"
    and rest: "list_all (\<lambda>idx. stream_if_ok (in_config info) (unat idx)) (take n (drop (i + 1) block))"
    by auto
  obtain r info' where s: "uvc_scan_streaming info (unat (block ! i)) = Some (r, info')"
    using scan_streaming_defined [OF ok] by auto
  have "scan_interfaces info' block (i + 1) n \<noteq> None"
    using Suc.IH [of "i + 1" info'] rest Suc.prems(1) scan_streaming_config [OF s] by simp
  with s Suc.prems(1) show ?case by (simp add: rd_Some)
qed simp

lemma vc_header_defined:
  assumes "n \<le> length block" and "vc_readable (in_config info) (take n block)"
    and "block ! 1 = 36" and "block ! 2 = 1"
  shows "uvc_parse_vc_header info block n \<noteq> None"
proof -
  have len: "length (take n block) = n" using assms(1) by simp
  have "3 \<le> n" using assms(2) unfolding vc_readable_def len by blast
  then have "5 \<le> n" and "bcd_supported (sw_of (take n block ! 3) (take n block ! 4)) \<longrightarrow> 11 \<le> n \<and>
      list_all (\<lambda>i. stream_if_ok (in_config info) (unat i)) (drop 12 (take n block))"
    using assms(2,3,4) unfolding vc_readable_def len by auto
  then have ok: "11 \<le> n \<and> list_all (\<lambda>i. stream_if_ok (in_config info) (unat i)) (take (n - 12) (drop 12 block))"
    if "bcd_supported (sw_of (block ! 3) (block ! 4))"
    using that by (simp add: drop_take)
  then have "scan_interfaces (info\<lparr> in_ctrl_if := c \<rparr>) block 12 (n - 12) \<noteq> None"
    if "bcd_supported (sw_of (block ! 3) (block ! 4))" for c
    using that assms(1) by (intro scan_interfaces_defined) auto
  with ok \<open>5 \<le> n\<close> assms(1) show ?thesis
    unfolding uvc_parse_vc_header_def bcd_supported_def [symmetric]
    by (auto simp: SW_TO_SHORT_Some DW_TO_INT_Some Let_def iff del: not_None_eq)
qed

lemma bind_bm_controls_None [uvc_mem]:
  assumes "lo + n \<le> length block"
  shows "Option.bind (bm_controls block lo n acc) f = None \<longleftrightarrow> f (the (bm_controls block lo n acc)) = None"
  using bm_controls_Some [OF assms, of acc] by auto

lemma vc_unit_defined:
  assumes "n \<le> length block" and "vc_readable (in_config info) (take n block)" and "block ! 1 = 36"
  shows "block ! 2 = 2 \<Longrightarrow> uvc_parse_vc_input_terminal info block n \<noteq> None"
    and "block ! 2 = 4 \<Longrightarrow> uvc_parse_vc_selector_unit info block n \<noteq> None"
    and "block ! 2 = 5 \<Longrightarrow> uvc_parse_vc_processing_unit info block n \<noteq> None"
    and "block ! 2 = 6 \<Longrightarrow> uvc_parse_vc_extension_unit info block n \<noteq> None"
proof -
  have len: "length (take n block) = n" using assms(1) by simp
  have nth: "i < n \<Longrightarrow> take n block ! i = block ! i" for i by simp
  have n: "3 \<le> n" using assms(2) unfolding vc_readable_def len by blast
  then have sub: "take n block ! 1 = 36" "take n block ! 2 = block ! 2" using assms(3) by simp_all
  note ok = assms(2) [unfolded vc_readable_def len sub]
  show "uvc_parse_vc_input_terminal info block n \<noteq> None" if "block ! 2 = 2"
  proof -
    have b: "6 \<le> n" "sw_of (take n block ! 4) (take n block ! 5) = 0x0201 \<Longrightarrow> 15 \<le> n \<and> 15 + unat (take n block ! 14) \<le> n"
      using ok that by blast+
    have "15 \<le> n \<and> 15 + unat (block ! 14) \<le> n" if "sw_of (block ! 4) (block ! 5) = 0x0201"
    proof -
      have "sw_of (take n block ! 4) (take n block ! 5) = 0x0201" using b(1) that by simp
      then have c: "15 \<le> n" "15 + unat (take n block ! 14) \<le> n" using b(2) by blast+
      have k: "take n block ! 14 = block ! 14" using c(1) by simp
      from c show ?thesis unfolding k by blast
    qed
    with b(1) assms(1) show ?thesis
      by (cases "sw_of (block ! 4) (block ! 5) = 0x0201")
         (auto simp: uvc_parse_vc_input_terminal_def uvc_mem iff del: not_None_eq)
  qed
  show "uvc_parse_vc_selector_unit info block n \<noteq> None" if "block ! 2 = 4"
    using ok that assms(1) by (simp add: uvc_parse_vc_selector_unit_def rd_Some)
  show "uvc_parse_vc_processing_unit info block n \<noteq> None" if "block ! 2 = 5"
  proof -
    have b: "8 \<le> n" "8 + unat (take n block ! 7) \<le> n" using ok that by blast+
    have k: "take n block ! 7 = block ! 7" using b(1) by simp
    have "8 + unat (block ! 7) \<le> length block" using b(2) assms(1) unfolding k by simp
    with b(1) assms(1) show ?thesis
      by (auto simp: uvc_parse_vc_processing_unit_def uvc_mem iff del: not_None_eq)
  qed
  show "uvc_parse_vc_extension_unit info block n \<noteq> None" if "block ! 2 = 6"
  proof -
    have b: "22 \<le> n" "23 + unat (take n block ! 21) \<le> n"
      "23 + unat (take n block ! 21) + unat (take n block ! (22 + unat (take n block ! 21))) \<le> n"
      using ok that by blast+
    have k: "take n block ! 21 = block ! 21" using b(1) by simp
    have kk: "take n block ! (22 + unat (block ! 21)) = block ! (22 + unat (block ! 21))"
      using b(2) unfolding k by simp
    show ?thesis using b assms(1) unfolding k kk
      by (auto simp: uvc_parse_vc_extension_unit_def uvc_mem iff del: not_None_eq)
  qed
qed

lemma uvc_parse_vc_defined:
  assumes "3 \<le> n" and "n \<le> length block" and "vc_readable (in_config info) (take n block)"
  shows "uvc_parse_vc info block n \<noteq> None"
  using assms vc_unit_defined [OF assms(2,3)] vc_header_defined [OF assms(2,3)]
  unfolding uvc_parse_vc_def by (simp add: rd_Some del: not_None_eq)

interpretation vc: block_parser uvc_parse_vc device_info_wf in_config vc_readable "\<lambda>cfg b. cfg"
  by unfold_locales (use uvc_parse_vc_wf uvc_parse_vc_config uvc_parse_vc_defined in blast)+

lemma find_control_if_props:
  assumes "find_control_if tis i cfg = Some (Some (j, d))"
  shows "i \<le> j \<and> j < i + length cfg \<and> is_control_if tis d \<and> cfg ! (j - i) \<noteq> [] \<and> d = hd (cfg ! (j - i)) \<and>
    (\<forall>k < j - i. \<not> is_control_if tis (hd (cfg ! k)))"
  using assms
proof (induction tis i cfg rule: find_control_if.induct)
  case (2 tis i interface rest)
  then obtain d0 where d0: "rd interface 0 = Some d0" by (auto simp: bind_eq_Some_conv)
  then have h: "interface \<noteq> []" "hd interface = d0" by (auto simp: rd_def hd_conv_nth split: if_splits)
  show ?case
  proof (cases "is_control_if tis d0")
    case True with 2 d0 h show ?thesis by auto
  next
    case False
    with 2 d0 have p: "i + 1 \<le> j \<and> j < i + 1 + length rest \<and> is_control_if tis d \<and> rest ! (j - (i + 1)) \<noteq> [] \<and>
      d = hd (rest ! (j - (i + 1))) \<and> (\<forall>k < j - (i + 1). \<not> is_control_if tis (hd (rest ! k)))" by auto
    then have "j - i = Suc (j - (i + 1))" by linarith
    with p False h show ?thesis by (auto simp: nth_Cons split: nat.splits)
  qed
qed simp

lemma find_control_if_defined: "[] \<notin> set cfg \<Longrightarrow> find_control_if tis i cfg \<noteq> None"
  by (induction tis i cfg rule: find_control_if.induct) (auto simp: rd_def iff del: not_None_eq)

text \<open>What the repair leaves alone, and what it establishes.\<close>

definition interval_ok :: "uvc_frame_desc \<Rightarrow> bool" where
  "interval_ok fr = (case interval_range fr of None \<Rightarrow> False
     | Some (lo, hi) \<Rightarrow> lo \<noteq> 0 \<and> hi \<noteq> 0 \<and> lo \<le> hi \<longrightarrow>
         lo \<le> fr_dwDefaultFrameInterval fr \<and> fr_dwDefaultFrameInterval fr \<le> hi)"

definition buffer_size_ok :: "uvc_frame_desc \<Rightarrow> bool" where
  "buffer_size_ok fr = (fr_dwMaxVideoFrameBufferSize fr \<noteq> 0 \<or> fr_wWidth fr = 0 \<or> fr_wHeight fr = 0)"

lemma repair_interval_keeps:
  assumes "interval_range fr = Some (lo, hi)"
    and "\<not> (lo \<noteq> 0 \<and> hi \<noteq> 0 \<and> lo \<le> hi \<and> (fr_dwDefaultFrameInterval fr = 0 \<or>
           fr_dwDefaultFrameInterval fr < lo \<or> fr_dwDefaultFrameInterval fr > hi))"
  shows "repair_interval fr = Some fr"
  using assms by (simp only: repair_interval_def bind.bind_lunit prod.case if_False)

lemma repair_interval_ok:
  assumes "repair_interval fr = Some fr'"
  shows "interval_ok fr'"
proof -
  obtain lo hi where r: "interval_range fr = Some (lo, hi)"
    using assms by (auto simp: repair_interval_def bind_eq_Some_conv)
  let ?d = "fr_dwDefaultFrameInterval fr"
  show ?thesis
  proof (cases "lo \<noteq> 0 \<and> hi \<noteq> 0 \<and> lo \<le> hi \<and> (?d = 0 \<or> ?d < lo \<or> ?d > hi)")
    case True
    then have f: "fr' = fr\<lparr> fr_dwDefaultFrameInterval := min hi (max lo ?d) \<rparr>"
      using assms r by (simp add: repair_interval_def)
    from True have "lo \<le> min hi (max lo ?d)" "min hi (max lo ?d) \<le> hi" by simp_all
    then show ?thesis unfolding f by (simp add: interval_ok_def r)
  next
    case False
    then have f: "fr' = fr" using assms repair_interval_keeps [OF r] by simp
    from False show ?thesis unfolding f by (auto simp: interval_ok_def r)
  qed
qed

lemma repair_interval_id:
  assumes "interval_ok fr"
  shows "repair_interval fr = Some fr"
proof -
  obtain lo hi where r: "interval_range fr = Some (lo, hi)"
    using assms by (auto simp: interval_ok_def split: option.splits)
  let ?d = "fr_dwDefaultFrameInterval fr"
  have "\<not> (lo \<noteq> 0 \<and> hi \<noteq> 0 \<and> lo \<le> hi \<and> (?d = 0 \<or> ?d < lo \<or> ?d > hi))"
    using assms r by (auto simp: interval_ok_def)
  with r show ?thesis by (rule repair_interval_keeps)
qed

lemma repair_interval_shape:
  "repair_interval fr = Some fr' \<Longrightarrow> \<exists>def. fr' = fr\<lparr> fr_dwDefaultFrameInterval := def \<rparr>"
  by (cases fr) (fastforce simp: repair_interval_def bind_eq_Some_conv split: if_splits)

lemma repair_buffer_size_shape:
  "\<exists>size. repair_buffer_size format fr = fr\<lparr> fr_dwMaxVideoFrameBufferSize := size \<rparr>"
  by (cases fr) (auto simp: repair_buffer_size_def)

lemma repair_buffer_size_id: "buffer_size_ok fr \<Longrightarrow> repair_buffer_size format fr = fr"
  by (auto simp: repair_buffer_size_def buffer_size_ok_def)

lemma repair_buffer_size_idem:
  "repair_buffer_size format ((repair_buffer_size format fr)\<lparr> fr_dwDefaultFrameInterval := def \<rparr>) =
   (repair_buffer_size format fr)\<lparr> fr_dwDefaultFrameInterval := def \<rparr>"
  by (cases fr) (simp add: repair_buffer_size_def)

section \<open>Encoding a frame descriptor\<close>

lemma rd_intervals_enc:
  "0 \<notin> set ivs \<Longrightarrow> length pre = p \<Longrightarrow> length ivs = n \<Longrightarrow>
     rd_intervals (pre @ concat (map INT_TO_DW ivs) @ rest) p n = Some ivs"
proof (induction ivs arbitrary: pre p n)
  case (Cons v ivs)
  have "rd_intervals ((pre @ INT_TO_DW v) @ concat (map INT_TO_DW ivs) @ rest) (p + 4) (length ivs) = Some ivs"
    using Cons.prems by (intro Cons.IH) simp_all
  moreover have "DW_TO_INT (pre @ INT_TO_DW v @ concat (map INT_TO_DW ivs) @ rest) p = Some v"
    using Cons.prems(2) DW_TO_INT_at by blast
  ultimately show ?case using Cons.prems by auto
qed simp

lemma length_concat_DW: "length (concat (map INT_TO_DW ivs)) = 4 * length ivs"
  by (induction ivs) auto

definition enc_intervals :: "uvc_frame_desc \<Rightarrow> bytes" where
  "enc_intervals fr = (case fr_intervals fr of
       None \<Rightarrow> INT_TO_DW (fr_dwMinFrameInterval fr) @ INT_TO_DW (fr_dwMaxFrameInterval fr) @
         INT_TO_DW (fr_dwFrameIntervalStep fr)
     | Some ivs \<Rightarrow> concat (map INT_TO_DW (butlast ivs)))"

lemma set_intervals_enc:
  assumes "frame_desc_wf fr" and "length pre = 26"
    and "fr_intervals fr \<noteq> None \<Longrightarrow> fr_dwMinFrameInterval fr = 0 \<and> fr_dwMaxFrameInterval fr = 0 \<and>
           fr_dwFrameIntervalStep fr = 0"
  shows "set_intervals (pre @ enc_intervals fr @ rest) (fr_bFrameIntervalType fr) (fr\<lparr> fr_dwMinFrameInterval := 0,
    fr_dwMaxFrameInterval := 0, fr_dwFrameIntervalStep := 0, fr_intervals := None \<rparr>) = Some fr"
proof (cases "fr_intervals fr")
  case None
  then show ?thesis using assms(1,2)
    by (cases fr) (simp add: enc_intervals_def set_intervals_def frame_desc_wf_def uvc_codec)
next
  case (Some ivs)
  then have "rd_intervals (pre @ enc_intervals fr @ rest) 26 (unat (fr_bFrameIntervalType fr)) = Some (butlast ivs)"
    unfolding enc_intervals_def using assms(1,2) by (auto intro!: rd_intervals_enc simp: frame_desc_wf_def)
  moreover have "butlast ivs @ [0] = ivs" using assms(1) Some
    by (auto simp: frame_desc_wf_def) (metis append_butlast_last_id list.size(3) nat.distinct(1))
  ultimately show ?thesis using Some assms(1,3) by (cases fr) (auto simp: set_intervals_def frame_desc_wf_def)
qed

definition enc_frame_head :: "uvc_frame_desc \<Rightarrow> bytes" where
  "enc_frame_head fr = [36, fr_bDescriptorSubtype fr, fr_bFrameIndex fr, fr_bmCapabilities fr] @
          SHORT_TO_SW (fr_wWidth fr) @ SHORT_TO_SW (fr_wHeight fr) @
          INT_TO_DW (fr_dwMinBitRate fr) @ INT_TO_DW (fr_dwMaxBitRate fr) @
          INT_TO_DW (fr_dwMaxVideoFrameBufferSize fr) @ INT_TO_DW (fr_dwDefaultFrameInterval fr) @
          [fr_bFrameIntervalType fr]"

definition enc_frame :: "uvc_frame_desc \<Rightarrow> bytes" where
  "enc_frame fr = of_nat (26 + length (enc_intervals fr)) # enc_frame_head fr @ enc_intervals fr"

lemma length_enc_frame_head: "length (enc_frame_head fr) = 25"
  by (simp add: enc_frame_head_def)

lemma bm_controls_value:
  "bm_controls block lo n acc = Some v \<Longrightarrow>
    v = push_bit (8 * n) acc + (\<Sum>i<n. push_bit (8 * i) (ucast (block ! (lo + i))))"
proof (induction n arbitrary: acc)
  case (Suc n)
  then obtain b where b: "rd block (lo + n) = Some b"
    and v: "v = push_bit (8 * n) (ucast b + push_bit 8 acc) + (\<Sum>i<n. push_bit (8 * i) (ucast (block ! (lo + i))))"
    by (auto simp: bind_eq_Some_conv)
  have "b = block ! (lo + n)" using b by (simp add: rd_eq_Some_iff)
  then show ?case unfolding v by (simp add: push_bit_add push_bit_push_bit algebra_simps)
qed simp

text \<open>A camera with one control and one streaming interface, used by the concrete instances below.\<close>

definition sample_frame :: uvc_frame_desc where
  "sample_frame = frame_desc0\<lparr> fr_bDescriptorSubtype := 5, fr_bFrameIndex := 1, fr_wWidth := 4,
     fr_wHeight := 2, fr_dwMaxVideoFrameBufferSize := 16, fr_dwDefaultFrameInterval := 333333,
     fr_bFrameIntervalType := 2, fr_intervals := Some [333333, 666666, 0] \<rparr>"

definition sample_vs_extra :: bytes where
  "sample_vs_extra =
     [14, 36, 1, 1, 0, 0, 0x81, 0, 2, 0, 0, 0, 0, 0] @
     [27, 36, 4, 1, 1] @ [0x59, 0x55, 0x59, 0x32, 0, 0, 0x10, 0, 0x80, 0, 0, 0xaa, 0, 0x38, 0x9b, 0x71] @
     [16, 1, 0, 0, 0, 0] @ enc_frame sample_frame"

definition sample_vc_extra :: bytes where
  "sample_vc_extra =
     [13, 36, 1, 0x00, 0x01, 0, 0, 0x80, 0x8d, 0x5b, 0, 1, 1] @
     [18, 36, 2, 1, 0x01, 0x02, 0, 0, 0, 0, 0, 0, 0, 0, 3, 0x0e, 0, 0] @
     [11, 36, 5, 2, 1, 0, 0, 2, 0x7f, 0x17, 0]"

definition sample_config :: libusb_config where
  "sample_config =
     [[\<lparr> id_bInterfaceNumber = 0, id_bAlternateSetting = 0, id_bInterfaceClass = 14,
         id_bInterfaceSubClass = 1, id_endpoint = [\<lparr> ep_bEndpointAddress = 0x83, ep_wMaxPacketSize = 16,
         ep_ss_wBytesPerInterval = None \<rparr>], id_extra = sample_vc_extra \<rparr>],
      [\<lparr> id_bInterfaceNumber = 1, id_bAlternateSetting = 0, id_bInterfaceClass = 14,
         id_bInterfaceSubClass = 2, id_endpoint = [], id_extra = sample_vs_extra \<rparr>]]"

definition sample_info :: uvc_device_info where
  "sample_info = (case uvc_get_device_info True (Some sample_config) None of
     Some (_, Some info) \<Rightarrow> info | _ \<Rightarrow> device_info0 [])"


section \<open>Properties\<close>

definition config_conforms :: "(u16 \<times> u16) option \<Rightarrow> libusb_config \<Rightarrow> bool" where
  "config_conforms ids cfg = ([] \<notin> set cfg \<and>
     (case find_control_if (have_TIS_camera ids) 0 cfg of
        Some (Some (_, d)) \<Rightarrow> conforms vc_readable (\<lambda>c b. c) cfg (fst (split_blocks (id_extra d)))
      | _ \<Rightarrow> True))"

lemma scan_control_starts:
  assumes "find_control_if (have_TIS_camera ids) 0 (in_config info) = Some (Some (j, d))"
  shows "\<exists>c. uvc_scan_control ids info = scan_blocks uvc_parse_vc (info\<lparr> in_ctrl_if := c \<rparr>) (id_extra d)"
  using assms by (cases "id_endpoint d") (auto simp: uvc_scan_control_def Let_def)

text \<open>
  C8: whatever bytes the device sends, the description \<^verbatim>\<open>uvc_get_device_info\<close> hands out on
  success is well formed: every frame's interval array is zero-terminated, as long as its type
  says and free of zeros, every format's GUID has 16 bytes, and every streaming interface carries
  the number of an interface of the parsed configuration.  The first VideoControl interface was
  the one parsed, and its blocks tile its extra bytes exactly.
\<close>

theorem device_info_invariant:
  assumes "uvc_get_device_info alloc cfg ids = Some (r, Some info)"
  shows "r = UVC_SUCCESS \<and> cfg = Some (in_config info) \<and> device_info_wf info \<and>
    (\<exists>j d. find_control_if (have_TIS_camera ids) 0 (in_config info) = Some (Some (j, d)) \<and>
       snd (split_blocks (id_extra d)) = [])"
proof -
  obtain c where c: "cfg = Some c" and s: "uvc_scan_control ids (device_info0 c) = Some (0, info)" and r: "r = 0"
    using assms by (auto simp: uvc_get_device_info_def bind_eq_Some_conv split: if_splits option.splits)
  from s obtain j d where f: "find_control_if (have_TIS_camera ids) 0 c = Some (Some (j, d))"
    by (auto simp: uvc_scan_control_def bind_eq_Some_conv device_info0_def split: option.splits)
  obtain ci where b: "scan_blocks uvc_parse_vc ((device_info0 c)\<lparr> in_ctrl_if := ci \<rparr>) (id_extra d) = Some (0, info)"
    using scan_control_starts [of ids "device_info0 c"] f s by (auto simp: device_info0_def)
  have "device_info_wf ((device_info0 c)\<lparr> in_ctrl_if := ci \<rparr>)" by (simp add: device_info_wf_def device_info0_def)
  from vc.scan_inv [OF this b] have "device_info_wf info" .
  moreover have "foldl (\<lambda>cfg b. cfg) c bs = c" for bs :: "bytes list" by (induction bs) auto
  then have "in_config info = c" using vc.scan_abs [OF b] by (simp add: device_info0_def)
  ultimately show ?thesis using c r f vc.scan_success_tiles [OF b] by auto
qed

theorem device_info_invariant_witness:
  "uvc_get_device_info True (Some sample_config) None = Some (0, Some sample_info) \<and>
   device_info_wf sample_info"
proof -
  have e: "uvc_get_device_info True (Some sample_config) None = Some (0, Some sample_info)" by code_simp
  from device_info_invariant [OF e] e show ?thesis by simp
qed

text \<open>
  C15: parsing a conforming configuration never leaves defined behaviour, whatever it returns.
  Conforming is a condition on single blocks, checked block by block with the block's own bytes.
\<close>

theorem device_info_no_fault:
  assumes "config_conforms ids cfg"
  shows "\<exists>r info. uvc_get_device_info alloc (Some cfg) ids = Some (r, info)"
proof -
  have "uvc_scan_control ids (device_info0 cfg) \<noteq> None"
  proof (cases "find_control_if (have_TIS_camera ids) 0 cfg = Some None")
    case False
    then obtain j d where f: "find_control_if (have_TIS_camera ids) 0 cfg = Some (Some (j, d))"
      using find_control_if_defined [of cfg "have_TIS_camera ids" 0] assms
      by (auto simp: config_conforms_def)
    then obtain ci where "uvc_scan_control ids (device_info0 cfg) =
        scan_blocks uvc_parse_vc ((device_info0 cfg)\<lparr> in_ctrl_if := ci \<rparr>) (id_extra d)"
      using scan_control_starts [of ids "device_info0 cfg"] by (auto simp: device_info0_def)
    then show ?thesis using assms f vc.scan_defined by (simp add: config_conforms_def device_info0_def)
  qed (simp add: uvc_scan_control_def device_info0_def)
  then obtain r info where "uvc_scan_control ids (device_info0 cfg) = Some (r, info)" by auto
  then show ?thesis by (auto simp: uvc_get_device_info_def)
qed

theorem device_info_no_fault_witness:
  "config_conforms None sample_config \<and>
   (\<exists>r info. uvc_get_device_info True (Some sample_config) None = Some (r, info))"
proof -
  have c: "config_conforms None sample_config" by code_simp
  with device_info_no_fault [OF c, of True] show ?thesis by simp
qed

text \<open>
  C31: on any block the scan loop can pass, the VideoStreaming parser is undefined exactly when
  the block is not readable: a frame or still block before any format, or a fixed field, an
  interval or a pattern past the end of the extra bytes.
\<close>

theorem vs_fault_iff:
  assumes "3 \<le> block_size" and "block_size \<le> length block"
  shows "uvc_parse_vs si block block_size = None \<longleftrightarrow> \<not> vs_readable (si_format_descs si \<noteq> []) block"
  using assms by (rule vs_readable_iff)

theorem vs_fault_iff_witness:
  "uvc_parse_vs stream_if0 [10, 36, 5, 1, 0, 0, 0, 0, 0, 0] 10 = None \<and>
   \<not> vs_readable False [10, 36, 5, 1, 0, 0, 0, 0, 0, 0]"
  using vs_fault_iff [of 10 "[10, 36, 5, 1, 0, 0, 0, 0, 0, 0]" stream_if0]
  by (simp add: stream_if0_def vs_readable_def)

text \<open>
  The frame-based parsers never read outside a block that fits the buffer, with any bytes
  and in any state; they either append to the interface or reject it unchanged with
  \<^verbatim>\<open>UVC_ERROR_INVALID_DEVICE\<close>, and a frame is accepted exactly when a format precedes it and the
  block is as long as its interval table needs.
\<close>

lemma frame_based_guarded:
  assumes "block_size \<le> length block"
  shows "(\<exists>si'. uvc_parse_vs_frame_format si block block_size =
            (if block_size < 28 then Some (UVC_ERROR_INVALID_DEVICE, si) else Some (UVC_SUCCESS, si'))) \<and>
    (\<exists>fr. uvc_parse_vs_frame_frame si block block_size =
       (if 26 \<le> block_size \<and> si_format_descs si \<noteq> [] \<and>
           (if block ! 21 = 0 then 38 else 26 + 4 * unat (block ! 21)) \<le> block_size
        then Some (UVC_SUCCESS, add_frame fr si) else Some (UVC_ERROR_INVALID_DEVICE, si)))"
proof
  show "\<exists>si'. uvc_parse_vs_frame_format si block block_size =
            (if block_size < 28 then Some (UVC_ERROR_INVALID_DEVICE, si) else Some (UVC_SUCCESS, si'))"
    using assms by (simp add: uvc_parse_vs_frame_format_def rd_Some rd_bytes_Some)
next
  let ?need = "if block ! 21 = 0 then 38 else 26 + 4 * unat (block ! 21)"
  show "\<exists>fr. uvc_parse_vs_frame_frame si block block_size =
       (if 26 \<le> block_size \<and> si_format_descs si \<noteq> [] \<and> ?need \<le> block_size
        then Some (UVC_SUCCESS, add_frame fr si) else Some (UVC_ERROR_INVALID_DEVICE, si))"
  proof (cases "26 \<le> block_size \<and> si_format_descs si \<noteq> [] \<and> ?need \<le> block_size")
    case True
    obtain r si' where p: "uvc_parse_vs_frame_frame si block block_size = Some (r, si')"
      using frame_frame_defined [OF assms, of si] by auto
    from True have "\<not> (block ! 21 = 0 \<and> block_size < 38 \<or> block ! 21 \<noteq> 0 \<and> block_size < 26 + 4 * unat (block ! 21))"
      by (auto split: if_splits)
    then have "\<exists>fr. r = 0 \<and> si' = add_frame fr si"
      using True p assms unfolding uvc_parse_vs_frame_frame_def
      by (auto simp: bind_eq_Some_conv rd_Some split: if_splits)
    with p True show ?thesis by auto
  next
    case False
    with assms show ?thesis by (auto simp: uvc_parse_vs_frame_frame_def rd_Some split: if_splits)
  qed
qed

lemma frame_based_guarded_witness:
  "uvc_parse_vs_frame_frame stream_if0 (replicate 26 0) 26 = Some (UVC_ERROR_INVALID_DEVICE, stream_if0)"
  using frame_based_guarded [of 26 "replicate 26 0" stream_if0] by (simp add: stream_if0_def)

text \<open>
  \<^verbatim>\<open>uvc_scan_streaming\<close> rejects an interface index past the configuration, and an interface
  with no alternate setting, before it touches either, and then leaves the description as it was;
  on every other index the new streaming interface is appended, whatever the parser returns, and
  success means its blocks tile the extra bytes.
\<close>

lemma scan_streaming_guard:
  "uvc_scan_streaming info idx =
     (if length (in_config info) \<le> idx \<or> in_config info ! idx = []
      then Some (UVC_ERROR_INVALID_DEVICE, info)
      else map_option (\<lambda>(r, si). (r, info\<lparr> in_stream_ifs := in_stream_ifs info @ [si] \<rparr>))
        (scan_blocks uvc_parse_vs
          (stream_if0\<lparr> si_bInterfaceNumber := id_bInterfaceNumber (hd (in_config info ! idx)) \<rparr>)
          (id_extra (hd (in_config info ! idx))))) \<and>
   (\<forall>si si' buf. scan_blocks uvc_parse_vs si buf = Some (UVC_SUCCESS, si') \<longrightarrow> snd (split_blocks buf) = [])"
proof
  show "\<forall>si si' buf. scan_blocks uvc_parse_vs si buf = Some (UVC_SUCCESS, si') \<longrightarrow> snd (split_blocks buf) = []"
    using vs.scan_success_tiles by blast
qed (auto simp: uvc_scan_streaming_def rd_def hd_conv_nth Suc_le_eq bind_Some_pair)

lemma scan_streaming_guard_witness:
  "uvc_scan_streaming (device_info0 sample_config) 2 = Some (UVC_ERROR_INVALID_DEVICE, device_info0 sample_config)"
  using scan_streaming_guard [of "device_info0 sample_config" 2]
  by (simp add: device_info0_def sample_config_def)

text \<open>
  C38: the frame repair is defined on every well-formed frame, touches nothing but the buffer size
  and the default interval, leaves a default interval inside the advertised range (when there is
  one), does nothing a second time, and leaves a valid frame byte-identical.
\<close>

theorem repair_correct:
  assumes "frame_desc_wf fr"
  shows "\<exists>fr'. uvc_repair_frame_desc format fr = Some fr' \<and> interval_ok fr' \<and>
    (\<exists>size def. fr' = fr\<lparr> fr_dwMaxVideoFrameBufferSize := size, fr_dwDefaultFrameInterval := def \<rparr>) \<and>
    uvc_repair_frame_desc format fr' = Some fr' \<and>
    (interval_ok fr \<and> buffer_size_ok fr \<longrightarrow> fr' = fr)"
proof -
  obtain fr' where r: "repair_interval (repair_buffer_size format fr) = Some fr'"
    using repair_Some [OF assms] unfolding uvc_repair_frame_desc_def by blast
  then obtain def where d: "fr' = (repair_buffer_size format fr)\<lparr> fr_dwDefaultFrameInterval := def \<rparr>"
    using repair_interval_shape by blast
  have ok: "interval_ok fr'" using r by (rule repair_interval_ok)
  moreover have "repair_interval (repair_buffer_size format fr') = Some fr'"
    using repair_interval_id [OF ok] d repair_buffer_size_idem by simp
  moreover have "fr' = fr" if "interval_ok fr" "buffer_size_ok fr"
    using r that by (simp add: repair_buffer_size_id repair_interval_id)
  moreover have "\<exists>size def. fr' = fr\<lparr> fr_dwMaxVideoFrameBufferSize := size, fr_dwDefaultFrameInterval := def \<rparr>"
    using d repair_buffer_size_shape [of format fr] by metis
  ultimately show ?thesis using r unfolding uvc_repair_frame_desc_def by blast
qed


theorem repair_correct_witness:
  "frame_desc_wf sample_frame \<and> interval_ok sample_frame \<and>
   uvc_repair_frame_desc format_desc0 sample_frame = Some sample_frame"
proof -
  have w: "frame_desc_wf sample_frame" "interval_ok sample_frame" "buffer_size_ok sample_frame" by code_simp+
  from repair_correct [OF w(1), of format_desc0] w show ?thesis by auto
qed

text \<open>
  C39: round trip.  A well-formed frame whose values need no repair, written in the UVC layout of an
  uncompressed or MJPEG frame descriptor, is parsed back to the same frame and appended to the
  latest format, whatever bytes follow it.
\<close>

theorem frame_uncompressed_roundtrip:
  assumes "frame_desc_wf fr" and "interval_ok fr" and "buffer_size_ok fr"
    and "fr_dwBytesPerLine fr = 0"
    and "fr_intervals fr \<noteq> None \<longrightarrow> fr_dwMinFrameInterval fr = 0 \<and> fr_dwMaxFrameInterval fr = 0 \<and>
           fr_dwFrameIntervalStep fr = 0"
    and "si_format_descs si \<noteq> []"
  shows "uvc_parse_vs_frame_uncompressed si (enc_frame fr @ rest) n = Some (UVC_SUCCESS, add_frame fr si)"
proof -
  let ?b = "enc_frame fr @ rest"
  obtain format where f: "dl_prev (si_format_descs si) = Some format" using assms(6) by (simp add: dl_prev_def)
  have fields: "rd ?b 2 = Some (fr_bDescriptorSubtype fr)" "rd ?b 3 = Some (fr_bFrameIndex fr)"
    "rd ?b 4 = Some (fr_bmCapabilities fr)" "SW_TO_SHORT ?b 5 = Some (fr_wWidth fr)"
    "SW_TO_SHORT ?b 7 = Some (fr_wHeight fr)" "DW_TO_INT ?b 9 = Some (fr_dwMinBitRate fr)"
    "DW_TO_INT ?b 13 = Some (fr_dwMaxBitRate fr)" "DW_TO_INT ?b 17 = Some (fr_dwMaxVideoFrameBufferSize fr)"
    "DW_TO_INT ?b 21 = Some (fr_dwDefaultFrameInterval fr)" "rd ?b 25 = Some (fr_bFrameIntervalType fr)"
    by (simp_all add: enc_frame_def enc_frame_head_def uvc_codec)
  have "frame_desc0\<lparr> fr_bDescriptorSubtype := fr_bDescriptorSubtype fr,
       fr_bFrameIndex := fr_bFrameIndex fr, fr_bmCapabilities := fr_bmCapabilities fr,
       fr_wWidth := fr_wWidth fr, fr_wHeight := fr_wHeight fr,
       fr_dwMinBitRate := fr_dwMinBitRate fr, fr_dwMaxBitRate := fr_dwMaxBitRate fr,
       fr_dwMaxVideoFrameBufferSize := fr_dwMaxVideoFrameBufferSize fr,
       fr_dwDefaultFrameInterval := fr_dwDefaultFrameInterval fr,
       fr_bFrameIntervalType := fr_bFrameIntervalType fr \<rparr> =
     fr\<lparr> fr_dwMinFrameInterval := 0, fr_dwMaxFrameInterval := 0, fr_dwFrameIntervalStep := 0,
       fr_intervals := None \<rparr>"
    using assms(4) by (cases fr) (simp add: frame_desc0_def)
  moreover have "set_intervals ?b (fr_bFrameIntervalType fr) (fr\<lparr> fr_dwMinFrameInterval := 0,
      fr_dwMaxFrameInterval := 0, fr_dwFrameIntervalStep := 0, fr_intervals := None \<rparr>) = Some fr"
    using set_intervals_enc [OF assms(1), of "of_nat (26 + length (enc_intervals fr)) # enc_frame_head fr" rest]
      assms(5) by (simp add: enc_frame_def length_enc_frame_head)
  ultimately show ?thesis
    unfolding uvc_parse_vs_frame_uncompressed_def
    using assms(2,3) by (simp add: f fields uvc_repair_frame_desc_def repair_buffer_size_id repair_interval_id)
qed

theorem frame_uncompressed_roundtrip_witness:
  "uvc_parse_vs_frame_uncompressed (stream_if0\<lparr> si_format_descs := [format_desc0] \<rparr>) (enc_frame sample_frame) 34 =
   Some (UVC_SUCCESS, add_frame sample_frame (stream_if0\<lparr> si_format_descs := [format_desc0] \<rparr>))"
proof -
  have w: "frame_desc_wf sample_frame" "interval_ok sample_frame" "buffer_size_ok sample_frame" by code_simp+
  show ?thesis
    using frame_uncompressed_roundtrip [OF w, of "stream_if0\<lparr> si_format_descs := [format_desc0] \<rparr>" "[]" 34]
    by (simp add: sample_frame_def frame_desc0_def)
qed

text \<open>
  The bmControls loops of the terminal and unit parsers compute the little-endian value of the
  bytes they cover, cut to 64 bits, and are defined exactly on readable bytes.
\<close>

lemma bm_controls_little_endian:
  "bm_controls block lo n 0 =
     (if n = 0 \<or> lo + n \<le> length block
      then Some (\<Sum>i<n. push_bit (8 * i) (ucast (block ! (lo + i)))) else None)"
proof (cases "n = 0 \<or> lo + n \<le> length block")
  case True
  then obtain v where "bm_controls block lo n 0 = Some v" using bm_controls_Some [of lo n block 0] by auto
  with bm_controls_value [OF this] True show ?thesis by simp
next
  case False
  then obtain k where "n = Suc k" by (cases n) auto
  with False show ?thesis by (simp add: rd_None)
qed

end
