(* ===== verification/Reattach_Guard.thy ===== *)
theory Reattach_Guard
  imports Uvc_Prelude
begin

text \<open>
  reattach_guard.c: the helper process that gives detached interfaces back to the kernel when the
  process that took them dies.  The record shared with the helper and the guard handle are
  records; the operating system is a parameter: the results of calloc, mmap, pipe2 and clone for
  \<^verbatim>\<open>uvc_reattach_guard_create\<close>, a record of system calls on an abstract world for the helper's
  device operations, and the sequence of results of read on the pipe for its waiting loop.
\<close>

section \<open>Data\<close>

abbreviation UVC_REATTACH_MAGIC :: u32 where "UVC_REATTACH_MAGIC \<equiv> 0x55564347"
abbreviation UVC_REATTACH_MAX_ATTEMPTS :: nat where "UVC_REATTACH_MAX_ATTEMPTS \<equiv> 80"
abbreviation UVC_REATTACH_RETRY_MS :: nat where "UVC_REATTACH_RETRY_MS \<equiv> 25"
abbreviation UVC_REATTACH_FD_SCAN_CAP :: int where "UVC_REATTACH_FD_SCAN_CAP \<equiv> 65536"
abbreviation UVC_REATTACH_MAX_INTERFACES :: nat where "UVC_REATTACH_MAX_INTERFACES \<equiv> 32"
abbreviation EBUSY :: int where "EBUSY \<equiv> 16"
abbreviation EINTR :: int where "EINTR \<equiv> 4"

record uvc_reattach_record =
  rr_magic :: u32
  rr_armed :: u32
  rr_busnum :: u8
  rr_devnum :: u8
  rr_id_vendor :: u16
  rr_id_product :: u16
  rr_bcd_device :: u16

text \<open>The handle holds the shared record itself: nobody else writes the mapping.\<close>

record uvc_reattach_guard =
  gu_record :: uvc_reattach_record
  gu_notify_fd :: int

text \<open>The swappable device operations, on a world \<open>'w\<close> they change.\<close>

record 'w uvc_reattach_backend =
  be_open_device :: "uvc_reattach_record \<Rightarrow> 'w \<Rightarrow> int \<times> 'w"
  be_rebind :: "int \<Rightarrow> u8 \<Rightarrow> 'w \<Rightarrow> int \<times> 'w"
  be_close_device :: "int \<Rightarrow> 'w \<Rightarrow> 'w"

text \<open>
  The system calls behind the default backend: open of a path, a read that yields the bytes it
  got, close, the USBDEVFS_CONNECT ioctl that yields 0 or an errno, and poll used as a sleep.
\<close>

record 'w sys_ops =
  sys_open :: "string \<Rightarrow> 'w \<Rightarrow> int \<times> 'w"
  sys_read :: "int \<Rightarrow> nat \<Rightarrow> 'w \<Rightarrow> bytes \<times> 'w"
  sys_close :: "int \<Rightarrow> 'w \<Rightarrow> 'w"
  sys_connect :: "int \<Rightarrow> int \<Rightarrow> 'w \<Rightarrow> int \<times> 'w"
  sys_poll :: "nat \<Rightarrow> 'w \<Rightarrow> 'w"

section \<open>The helper's device operations\<close>

definition read_le16 :: "bytes \<Rightarrow> nat \<Rightarrow> u16 option" where
  "read_le16 p i = do { b0 \<leftarrow> rd p i; b1 \<leftarrow> rd p (i + 1); Some (ucast b0 OR push_bit 8 (ucast b1)) }"

definition write_three_digits :: "string \<Rightarrow> nat \<Rightarrow> nat \<Rightarrow> string option" where
  "write_three_digits out i v = mem_put out i
     [char_of (48 + (v div 100) mod 10), char_of (48 + (v div 10) mod 10), char_of (48 + v mod 10 :: nat)]"

text \<open>
  \<^verbatim>\<open>default_open_device\<close>.  A short read makes the first disjunct of the C condition true and
  the descriptor is not looked at.
\<close>

definition default_open_device ::
  "'w sys_ops \<Rightarrow> uvc_reattach_record \<Rightarrow> 'w \<Rightarrow> (int \<times> 'w) option" where
  "default_open_device sys record w = do {
     path \<leftarrow> write_three_digits ''/dev/bus/usb/000/000'' 13 (unat (rr_busnum record));
     path \<leftarrow> write_three_digits path 17 (unat (rr_devnum record));
     let (fd, w) = sys_open sys path w;
     if fd < 0 then Some (-1, w)
     else do {
       let (descriptor, w) = sys_read sys fd 18 w;
       mismatch \<leftarrow> (if length descriptor \<noteq> 18 then Some True
         else do {
           v \<leftarrow> read_le16 descriptor 8; p \<leftarrow> read_le16 descriptor 10; d \<leftarrow> read_le16 descriptor 12;
           Some (v \<noteq> rr_id_vendor record \<or> p \<noteq> rr_id_product record \<or> d \<noteq> rr_bcd_device record) });
       if mismatch then Some (-1, sys_close sys fd w) else Some (fd, w) } }"

definition default_rebind :: "'w sys_ops \<Rightarrow> int \<Rightarrow> u8 \<Rightarrow> 'w \<Rightarrow> int \<times> 'w" where
  "default_rebind sys fd interface_number w =
     (let (errno, w) = sys_connect sys fd (uint interface_number) w
      in if errno \<noteq> 0 then (- errno, w) else (0, w))"

definition default_close_device :: "'w sys_ops \<Rightarrow> int \<Rightarrow> 'w \<Rightarrow> 'w" where
  "default_close_device sys fd w = sys_close sys fd w"

text \<open>
  \<^verbatim>\<open>default_backend\<close>.  The path buffer always has room for the digits (proved below), so the
  function that opens the device is total.
\<close>

definition default_backend :: "'w sys_ops \<Rightarrow> 'w uvc_reattach_backend" where
  "default_backend sys = \<lparr>
     be_open_device = (\<lambda>record w. case default_open_device sys record w of Some r \<Rightarrow> r | None \<Rightarrow> (-1, w)),
     be_rebind = default_rebind sys, be_close_device = default_close_device sys \<rparr>"

definition uvc_reattach_guard_set_backend ::
  "'w sys_ops \<Rightarrow> 'w uvc_reattach_backend option \<Rightarrow> 'w uvc_reattach_backend" where
  "uvc_reattach_guard_set_backend sys backend =
     (case backend of Some b \<Rightarrow> b | None \<Rightarrow> default_backend sys)"

text \<open>The retry loop for one interface; \<open>n\<close> attempts are left.\<close>

fun rebind_attempts ::
  "'w uvc_reattach_backend \<Rightarrow> (nat \<Rightarrow> 'w \<Rightarrow> 'w) \<Rightarrow> int \<Rightarrow> u8 \<Rightarrow> nat \<Rightarrow> 'w \<Rightarrow> 'w" where
  "rebind_attempts be poll fd i 0 w = w"
| "rebind_attempts be poll fd i (Suc n) w =
     (let (r, w) = be_rebind be fd i w
      in if r \<noteq> - EBUSY then w
         else rebind_attempts be poll fd i n (poll UVC_REATTACH_RETRY_MS w))"

text \<open>The loop over the interface numbers, \<open>n\<close> of them left up to the maximum.\<close>

fun rebind_interfaces ::
  "'w uvc_reattach_backend \<Rightarrow> (nat \<Rightarrow> 'w \<Rightarrow> 'w) \<Rightarrow> int \<Rightarrow> u32 \<Rightarrow> nat \<Rightarrow> 'w \<Rightarrow> 'w" where
  "rebind_interfaces be poll fd armed 0 w = w"
| "rebind_interfaces be poll fd armed (Suc n) w =
     (let i = UVC_REATTACH_MAX_INTERFACES - Suc n;
          w = (if armed AND push_bit i 1 = 0 then w
               else rebind_attempts be poll fd (of_nat i) UVC_REATTACH_MAX_ATTEMPTS w)
      in rebind_interfaces be poll fd armed n w)"

definition reattach_armed_interfaces ::
  "'w uvc_reattach_backend \<Rightarrow> (nat \<Rightarrow> 'w \<Rightarrow> 'w) \<Rightarrow> uvc_reattach_record \<Rightarrow> 'w \<Rightarrow> 'w" where
  "reattach_armed_interfaces be poll record w =
     (if rr_magic record \<noteq> UVC_REATTACH_MAGIC then w
      else let armed = rr_armed record
           in if armed = 0 then w
              else let (fd, w) = be_open_device be record w
                   in if fd < 0 then w
                      else be_close_device be fd
                        (rebind_interfaces be poll fd armed UVC_REATTACH_MAX_INTERFACES w))"

section \<open>The helper process\<close>

definition fd_scan_limit :: "int \<Rightarrow> int" where
  "fd_scan_limit open_max =
     (if open_max < 3 then 3 else if open_max > UVC_REATTACH_FD_SCAN_CAP then UVC_REATTACH_FD_SCAN_CAP
      else open_max)"

text \<open>The descriptors left open; \<open>fds\<close> are those the fork copied.\<close>

definition close_inherited_fds :: "int \<Rightarrow> int \<Rightarrow> int list \<Rightarrow> int list" where
  "close_inherited_fds keep_fd scan_limit fds =
     filter (\<lambda>fd. \<not> (0 \<le> fd \<and> fd < scan_limit \<and> fd \<noteq> keep_fd)) fds"

text \<open>
  The results of successive reads on the pipe: \<open>Got n\<close> bytes (0 is end of file) or an errno.
  The loop consumes results until one of them breaks it; \<^term>\<open>None\<close> is a helper still blocked
  in read after the given results.
\<close>

datatype read_result = Got nat | Failed int

fun helper_wait :: "read_result list \<Rightarrow> read_result list option" where
  "helper_wait [] = None"
| "helper_wait (Got n # rs) = (if n = 0 then Some rs else helper_wait rs)"
| "helper_wait (Failed e # rs) = (if e = EINTR then helper_wait rs else Some rs)"

text \<open>\<^verbatim>\<open>helper_main\<close>: the world is left alone until the wait ends.\<close>

definition helper_main ::
  "'w uvc_reattach_backend \<Rightarrow> (nat \<Rightarrow> 'w \<Rightarrow> 'w) \<Rightarrow> int \<Rightarrow> int \<Rightarrow> int list \<Rightarrow> read_result list
   \<Rightarrow> uvc_reattach_record \<Rightarrow> 'w \<Rightarrow> (int list \<times> 'w) option" where
  "helper_main be poll notify_fd scan_limit fds reads record w =
     (let fds = close_inherited_fds notify_fd scan_limit fds
      in case helper_wait reads of
           None \<Rightarrow> None
         | Some _ \<Rightarrow> Some (fds, reattach_armed_interfaces be poll record w))"

section \<open>The guard in the host process\<close>

text \<open>
  What the operating system answers during one creation, and what the host process holds: live
  guard blocks, live mappings, open descriptors, and helpers started.
\<close>

record guard_env =
  ge_calloc :: bool
  ge_mmap :: bool
  ge_pipe2 :: "(int \<times> int) option" \<comment> \<open>read end, write end\<close>
  ge_fork :: int \<comment> \<open>raw_fork in the host: negative on failure\<close>
  ge_fork2 :: int \<comment> \<open>raw_fork in the intermediate process, whose result nobody sees\<close>

record guard_res =
  gr_blocks :: nat
  gr_maps :: nat
  gr_fds :: "int list"
  gr_helpers :: nat

definition uvc_reattach_guard_create ::
  "guard_env \<Rightarrow> u8 \<Rightarrow> u8 \<Rightarrow> u16 \<Rightarrow> u16 \<Rightarrow> u16 \<Rightarrow> guard_res \<Rightarrow> uvc_reattach_guard option \<times> guard_res" where
  "uvc_reattach_guard_create env busnum devnum id_vendor id_product bcd_device res =
     (if \<not> ge_calloc env then (None, res)
      else let res = res\<lparr> gr_blocks := gr_blocks res + 1 \<rparr>
      in if \<not> ge_mmap env then (None, res\<lparr> gr_blocks := gr_blocks res - 1 \<rparr>)
      else let res = res\<lparr> gr_maps := gr_maps res + 1 \<rparr>;
               record = \<lparr> rr_magic = UVC_REATTACH_MAGIC, rr_armed = 0, rr_busnum = busnum,
                 rr_devnum = devnum, rr_id_vendor = id_vendor, rr_id_product = id_product,
                 rr_bcd_device = bcd_device \<rparr>
      in case ge_pipe2 env of
           None \<Rightarrow> (None, res\<lparr> gr_maps := gr_maps res - 1, gr_blocks := gr_blocks res - 1 \<rparr>)
         | Some (notify0, notify1) \<Rightarrow>
             let res = res\<lparr> gr_fds := notify1 # notify0 # gr_fds res \<rparr>;
                 res = res\<lparr> gr_fds := remove1 notify0 (gr_fds res) \<rparr>
             in if ge_fork env < 0
                then (None, res\<lparr> gr_fds := remove1 notify1 (gr_fds res), gr_maps := gr_maps res - 1,
                        gr_blocks := gr_blocks res - 1 \<rparr>)
                else (Some \<lparr> gu_record = record, gu_notify_fd = notify1 \<rparr>,
                      if ge_fork2 env < 0 then res else res\<lparr> gr_helpers := gr_helpers res + 1 \<rparr>))"

definition uvc_reattach_guard_arm :: "uvc_reattach_guard option \<Rightarrow> int \<Rightarrow> uvc_reattach_guard option" where
  "uvc_reattach_guard_arm guard interface_number =
     (case guard of None \<Rightarrow> None
      | Some g \<Rightarrow>
          if interface_number < 0 \<or> interface_number \<ge> int UVC_REATTACH_MAX_INTERFACES then Some g
          else Some (g\<lparr> gu_record := (gu_record g)\<lparr> rr_armed :=
            rr_armed (gu_record g) OR push_bit (nat interface_number) 1 \<rparr> \<rparr>))"

definition uvc_reattach_guard_disarm :: "uvc_reattach_guard option \<Rightarrow> int \<Rightarrow> uvc_reattach_guard option" where
  "uvc_reattach_guard_disarm guard interface_number =
     (case guard of None \<Rightarrow> None
      | Some g \<Rightarrow>
          if interface_number < 0 \<or> interface_number \<ge> int UVC_REATTACH_MAX_INTERFACES then Some g
          else Some (g\<lparr> gu_record := (gu_record g)\<lparr> rr_armed :=
            rr_armed (gu_record g) AND NOT (push_bit (nat interface_number) 1) \<rparr> \<rparr>))"

definition uvc_reattach_guard_armed_mask :: "uvc_reattach_guard option \<Rightarrow> u32" where
  "uvc_reattach_guard_armed_mask guard =
     (case guard of None \<Rightarrow> 0 | Some g \<Rightarrow> rr_armed (gu_record g))"

definition uvc_reattach_guard_destroy :: "uvc_reattach_guard option \<Rightarrow> guard_res \<Rightarrow> guard_res" where
  "uvc_reattach_guard_destroy guard res =
     (case guard of None \<Rightarrow> res
      | Some g \<Rightarrow> res\<lparr> gr_fds := remove1 (gu_notify_fd g) (gr_fds res),
          gr_maps := gr_maps res - 1, gr_blocks := gr_blocks res - 1 \<rparr>)"

section \<open>Lemmas\<close>

text \<open>The armed set of a guard, as a predicate on interface numbers.\<close>

abbreviation is_armed :: "uvc_reattach_guard option \<Rightarrow> nat \<Rightarrow> bool" where
  "is_armed g i \<equiv> bit (uvc_reattach_guard_armed_mask g) i"

lemma arm_None [simp]: "uvc_reattach_guard_arm None i = None"
  and disarm_None [simp]: "uvc_reattach_guard_disarm None i = None"
  by (simp_all add: uvc_reattach_guard_arm_def uvc_reattach_guard_disarm_def)

lemma arm_eq_None [simp]: "uvc_reattach_guard_arm g i = None \<longleftrightarrow> g = None"
  and disarm_eq_None [simp]: "uvc_reattach_guard_disarm g i = None \<longleftrightarrow> g = None"
  by (auto simp: uvc_reattach_guard_arm_def uvc_reattach_guard_disarm_def split: option.splits)

lemma armed_arm [simp]:
  "i < 32 \<Longrightarrow> is_armed (uvc_reattach_guard_arm g (int i)) j \<longleftrightarrow> is_armed g j \<or> g \<noteq> None \<and> j = i"
  by (cases g) (auto simp: uvc_reattach_guard_arm_def uvc_reattach_guard_armed_mask_def uvc_bits)

lemma armed_disarm [simp]:
  "i < 32 \<Longrightarrow> is_armed (uvc_reattach_guard_disarm g (int i)) j \<longleftrightarrow> is_armed g j \<and> j \<noteq> i"
  by (cases g) (auto simp: uvc_reattach_guard_disarm_def uvc_reattach_guard_armed_mask_def uvc_bits)

lemma armed_bound: "is_armed g j \<Longrightarrow> j < 32"
  by (auto dest: bit_imp_le_length)

section \<open>Observing the helper\<close>

text \<open>
  Any backend can be observed: the wrapper records the calls, latest first, beside the world.
\<close>

datatype guard_event = Ev_open | Ev_rebind int u8 int | Ev_close int

definition observed :: "'w uvc_reattach_backend \<Rightarrow> ('w \<times> guard_event list) uvc_reattach_backend" where
  "observed be = \<lparr>
     be_open_device = (\<lambda>r (w, log). let (fd, w') = be_open_device be r w in (fd, (w', Ev_open # log))),
     be_rebind = (\<lambda>fd i (w, log). let (x, w') = be_rebind be fd i w in (x, (w', Ev_rebind fd i x # log))),
     be_close_device = (\<lambda>fd (w, log). (be_close_device be fd w, Ev_close fd # log)) \<rparr>"

fun observed_poll :: "(nat \<Rightarrow> 'w \<Rightarrow> 'w) \<Rightarrow> nat \<Rightarrow> 'w \<times> 'l \<Rightarrow> 'w \<times> 'l" where
  "observed_poll poll ms (w, log) = (poll ms w, log)"

text \<open>
  The calls for one interface: at most 80, none after the first answer that is not -EBUSY, and
  fewer than 80 only when such an answer came.
\<close>

definition attempts_ok :: "int \<Rightarrow> u8 \<Rightarrow> nat \<Rightarrow> guard_event list \<Rightarrow> bool" where
  "attempts_ok fd i n es = (\<exists>rs. es = map (Ev_rebind fd i) rs \<and> length rs \<le> n \<and> (0 < n \<longrightarrow> rs \<noteq> []) \<and>
     (\<forall>r \<in> set (butlast rs). r = - EBUSY) \<and> (length rs < n \<longrightarrow> last rs \<noteq> - EBUSY))"

lemma rebind_attempts_events:
  "\<exists>es w'. rebind_attempts (observed be) (observed_poll poll) fd i n (w, log) = (w', rev es @ log) \<and>
     attempts_ok fd i n es"
proof (induction n arbitrary: w log)
  case 0
  show ?case by (auto simp: attempts_ok_def)
next
  case (Suc n)
  obtain r w1 where r: "be_rebind be fd i w = (r, w1)" by fastforce
  show ?case
  proof (cases "r = - EBUSY")
    case False
    then have "rebind_attempts (observed be) (observed_poll poll) fd i (Suc n) (w, log) =
        (w1, rev [Ev_rebind fd i r] @ log)" using r by (simp add: observed_def)
    moreover have "attempts_ok fd i (Suc n) [Ev_rebind fd i r]"
      unfolding attempts_ok_def using False by (intro exI [of _ "[r]"]) auto
    ultimately show ?thesis by blast
  next
    case True
    obtain es w' where e: "rebind_attempts (observed be) (observed_poll poll) fd i n
        (poll UVC_REATTACH_RETRY_MS w1, Ev_rebind fd i r # log) = (w', rev es @ Ev_rebind fd i r # log)"
      and ok: "attempts_ok fd i n es" using Suc.IH by blast
    from ok obtain rs where rs: "es = map (Ev_rebind fd i) rs" "length rs \<le> n" "0 < n \<longrightarrow> rs \<noteq> []"
      "\<forall>r \<in> set (butlast rs). r = - EBUSY" "length rs < n \<longrightarrow> last rs \<noteq> - EBUSY"
      unfolding attempts_ok_def by blast
    have "attempts_ok fd i (Suc n) (Ev_rebind fd i r # es)"
      unfolding attempts_ok_def using rs True by (intro exI [of _ "r # rs"]) auto
    moreover have "rebind_attempts (observed be) (observed_poll poll) fd i (Suc n) (w, log) =
        (w', rev (Ev_rebind fd i r # es) @ log)" using r True e by (simp add: observed_def)
    ultimately show ?thesis by blast
  qed
qed

text \<open>The interfaces served, in ascending order, each with its calls.\<close>

definition armed_from :: "u32 \<Rightarrow> nat \<Rightarrow> nat list" where
  "armed_from armed n = filter (bit armed) [32 - n..<32]"

lemma rebind_interfaces_events:
  "n \<le> 32 \<Longrightarrow> \<exists>ess w'. rebind_interfaces (observed be) (observed_poll poll) fd armed n (w, log) =
       (w', rev (concat ess) @ log) \<and>
     list_all2 (\<lambda>i es. attempts_ok fd (of_nat i) UVC_REATTACH_MAX_ATTEMPTS es) (armed_from armed n) ess"
proof (induction n arbitrary: w log)
  case 0
  show ?case by (auto simp: armed_from_def)
next
  case (Suc n)
  let ?i = "32 - Suc n"
  have split: "armed_from armed (Suc n) = (if bit armed ?i then ?i # armed_from armed n else armed_from armed n)"
  proof -
    have "Suc ?i = 32 - n" "?i < 32" using Suc.prems by simp_all
    then have "[?i..<32] = ?i # [32 - n..<32]" by (metis upt_conv_Cons)
    then show ?thesis unfolding armed_from_def by (simp del: upt_rec_numeral)
  qed
  have i: "?i < 32" using Suc.prems by simp
  show ?case
  proof (cases "bit armed ?i")
    case False
    obtain ess w' where "rebind_interfaces (observed be) (observed_poll poll) fd armed n (w, log) =
        (w', rev (concat ess) @ log)"
      "list_all2 (\<lambda>i es. attempts_ok fd (of_nat i) UVC_REATTACH_MAX_ATTEMPTS es) (armed_from armed n) ess"
      using Suc.IH [of w log] Suc.prems by (meson Suc_leD)
    with False split i show ?thesis by (auto simp: mask_test)
  next
    case True
    obtain es w1 where a: "rebind_attempts (observed be) (observed_poll poll) fd (of_nat ?i)
        UVC_REATTACH_MAX_ATTEMPTS (w, log) = (w1, rev es @ log)"
      and ok: "attempts_ok fd (of_nat ?i) UVC_REATTACH_MAX_ATTEMPTS es"
      using rebind_attempts_events [of be poll fd "of_nat ?i" UVC_REATTACH_MAX_ATTEMPTS w log] by blast
    obtain ess w' where "rebind_interfaces (observed be) (observed_poll poll) fd armed n (w1, rev es @ log) =
        (w', rev (concat ess) @ rev es @ log)"
      "list_all2 (\<lambda>i es. attempts_ok fd (of_nat i) UVC_REATTACH_MAX_ATTEMPTS es) (armed_from armed n) ess"
      using Suc.IH [of w1 "rev es @ log"] Suc.prems by (meson Suc_leD)
    with True split i a ok show ?thesis
      by (intro exI [of _ "es # ess"]) (auto simp: mask_test)
  qed
qed

subsection \<open>The usbfs path\<close>

definition three_digits :: "nat \<Rightarrow> string" where
  "three_digits v = [char_of (48 + (v div 100) mod 10), char_of (48 + (v div 10) mod 10), char_of (48 + v mod 10)]"

definition digits_value :: "string \<Rightarrow> nat" where
  "digits_value s = foldl (\<lambda>acc c. 10 * acc + (of_char c - 48)) 0 s"

lemma digits_value_three_digits:
  assumes "v < 1000"
  shows "digits_value (three_digits v) = v"
proof -
  have m: "d < 10 \<Longrightarrow> (48 + d) mod 256 - 48 = d" for d :: nat by simp
  have "digits_value (three_digits v) = 100 * (v div 100 mod 10) + 10 * (v div 10 mod 10) + v mod 10"
    by (simp add: digits_value_def three_digits_def of_char_of m)
  moreover have "v = 10 * (v div 10) + v mod 10" "v div 10 = 10 * (v div 100) + v div 10 mod 10"
    using div_mult2_eq [of v 10 10] by simp_all
  moreover have "v div 100 mod 10 = v div 100" using assms by simp
  ultimately show ?thesis by linarith
qed

definition usbfs_path :: "nat \<Rightarrow> nat \<Rightarrow> string" where
  "usbfs_path bus dev = ''/dev/bus/usb/'' @ three_digits bus @ ''/'' @ three_digits dev"

lemma usbfs_path_built:
  "Option.bind (write_three_digits ''/dev/bus/usb/000/000'' 13 bus) (\<lambda>p. write_three_digits p 17 dev) =
   Some (usbfs_path bus dev)"
  by (simp add: write_three_digits_def mem_put_def usbfs_path_def three_digits_def take_Cons' drop_Cons')

lemma usbfs_path_inj:
  assumes "bus < 1000" "dev < 1000" "bus' < 1000" "dev' < 1000" "usbfs_path bus dev = usbfs_path bus' dev'"
  shows "bus = bus' \<and> dev = dev'"
proof -
  have len: "length (three_digits bus) = length (three_digits bus')" by (simp add: three_digits_def)
  from assms(5) have "three_digits bus = three_digits bus'" "three_digits dev = three_digits dev'"
    using len by (auto simp: usbfs_path_def)
  then show ?thesis using digits_value_three_digits assms(1-4) by metis
qed

lemma usbfs_path_record:
  assumes "usbfs_path (unat (rr_busnum r)) (unat (rr_devnum r)) = usbfs_path (unat (rr_busnum r')) (unat (rr_devnum r'))"
  shows "rr_busnum r' = rr_busnum r \<and> rr_devnum r' = rr_devnum r"
proof -
  have "unat b < 1000" for b :: u8 using unat_lt2p_u8 [of b] by simp
  from usbfs_path_inj [OF this this this this assms] show ?thesis by (simp add: word_unat_eq_iff)
qed

lemma read_le16_eq: "read_le16 = SW_TO_SHORT"
  by (intro ext) (simp add: read_le16_def SW_TO_SHORT_def sw_of_def)

section \<open>Properties\<close>

text \<open>
  C36: for any device operations, the helper does nothing on a foreign or disarmed record, opens
  the device once, and then asks the kernel to re-probe exactly the armed interfaces in ascending
  order.  Each is asked at least once and at most 80 times, again only while the answer is -EBUSY;
  the device is closed exactly once, last.
\<close>

theorem helper_rebinds_armed:
  "\<exists>es. snd (reattach_armed_interfaces (observed be) (observed_poll poll) record (w, [])) = rev es \<and>
     (let fd = fst (be_open_device be record w) in
      if rr_magic record = UVC_REATTACH_MAGIC \<and> 0 < rr_armed record
      then if fd < 0 then es = [Ev_open]
        else \<exists>ess. es = Ev_open # concat ess @ [Ev_close fd] \<and>
          list_all2 (\<lambda>i es. attempts_ok fd (of_nat i) UVC_REATTACH_MAX_ATTEMPTS es)
            (filter (bit (rr_armed record)) [0..<UVC_REATTACH_MAX_INTERFACES]) ess
      else es = [])"
proof -
  obtain fd w1 where o: "be_open_device be record w = (fd, w1)" by fastforce
  have open_ob: "be_open_device (observed be) record (w, []) = (fd, (w1, [Ev_open]))"
    using o by (simp add: observed_def)
  obtain ess w' where r: "rebind_interfaces (observed be) (observed_poll poll) fd (rr_armed record) 32
      (w1, [Ev_open]) = (w', rev (concat ess) @ [Ev_open])"
    and ok: "list_all2 (\<lambda>i es. attempts_ok fd (of_nat i) UVC_REATTACH_MAX_ATTEMPTS es)
      (armed_from (rr_armed record) 32) ess"
    using rebind_interfaces_events [of 32 be poll fd "rr_armed record" w1 "[Ev_open]"] by auto
  show ?thesis
  proof (cases "rr_magic record \<noteq> UVC_REATTACH_MAGIC \<or> rr_armed record = 0 \<or> fd < 0")
    case True
    then show ?thesis using o open_ob by (auto simp: reattach_armed_interfaces_def Let_def word_gt_0)
  next
    case False
    then have "snd (reattach_armed_interfaces (observed be) (observed_poll poll) record (w, [])) =
        rev (Ev_open # concat ess @ [Ev_close fd])"
      using open_ob r by (simp add: reattach_armed_interfaces_def observed_def)
    then show ?thesis using False o ok
      by (intro exI [of _ "Ev_open # concat ess @ [Ev_close fd]"]) (auto simp: armed_from_def Let_def word_gt_0)
  qed
qed

text \<open>
  \<^verbatim>\<open>default_open_device\<close> opens the usbfs node of the recorded bus and device number (distinct
  coordinates have distinct paths), and hands out a descriptor only if the 18-byte device
  descriptor read from it has the recorded vendor, product and release numbers; a node that fails
  the check is closed again.
\<close>

lemma default_open_checks_identity:
  "default_open_device sys record w =
     Some (let (fd, w1) = sys_open sys (usbfs_path (unat (rr_busnum record)) (unat (rr_devnum record))) w in
       if fd < 0 then (-1, w1)
       else let (d, w2) = sys_read sys fd 18 w1 in
         if length d = 18 \<and> sw_of (d ! 8) (d ! 9) = rr_id_vendor record \<and>
            sw_of (d ! 10) (d ! 11) = rr_id_product record \<and> sw_of (d ! 12) (d ! 13) = rr_bcd_device record
         then (fd, w2) else (-1, sys_close sys fd w2)) \<and>
   (\<forall>r'. usbfs_path (unat (rr_busnum record)) (unat (rr_devnum record)) =
      usbfs_path (unat (rr_busnum r')) (unat (rr_devnum r')) \<longrightarrow>
      rr_busnum r' = rr_busnum record \<and> rr_devnum r' = rr_devnum record)"
proof (intro conjI allI impI)
  let ?path = "usbfs_path (unat (rr_busnum record)) (unat (rr_devnum record))"
  obtain p where p: "write_three_digits ''/dev/bus/usb/000/000'' 13 (unat (rr_busnum record)) = Some p"
    "write_three_digits p 17 (unat (rr_devnum record)) = Some ?path"
    using usbfs_path_built [of "unat (rr_busnum record)" "unat (rr_devnum record)"]
    by (auto simp: bind_eq_Some_conv)
  show "default_open_device sys record w =
     Some (let (fd, w1) = sys_open sys ?path w in
       if fd < 0 then (-1, w1)
       else let (d, w2) = sys_read sys fd 18 w1 in
         if length d = 18 \<and> sw_of (d ! 8) (d ! 9) = rr_id_vendor record \<and>
            sw_of (d ! 10) (d ! 11) = rr_id_product record \<and> sw_of (d ! 12) (d ! 13) = rr_bcd_device record
         then (fd, w2) else (-1, sys_close sys fd w2))"
    unfolding default_open_device_def read_le16_eq p
    by (auto simp: p SW_TO_SHORT_Some split: prod.splits)
qed (use usbfs_path_record in blast)+

lemma default_open_checks_identity_witness:
  "usbfs_path 1 7 = ''/dev/bus/usb/001/007'' \<and> usbfs_path 1 7 \<noteq> usbfs_path 1 8"
proof -
  let ?r = "\<lambda>d. \<lparr> rr_magic = 0, rr_armed = 0, rr_busnum = 1, rr_devnum = d, rr_id_vendor = 0,
    rr_id_product = 0, rr_bcd_device = 0 \<rparr>"
  let ?sys = "\<lparr> sys_open = (\<lambda>_ w. (0, w)), sys_read = (\<lambda>_ _ w. ([], w)), sys_close = (\<lambda>_ w. w),
    sys_connect = (\<lambda>_ _ w. (0, w)), sys_poll = (\<lambda>_ w. w) \<rparr>"
  have "usbfs_path 1 7 = ''/dev/bus/usb/001/007''" by code_simp
  moreover have "usbfs_path 1 7 \<noteq> usbfs_path 1 8"
    using conjunct2 [OF default_open_checks_identity [of ?sys "?r 7" "()"], THEN spec, of "?r 8"] by auto
  ultimately show ?thesis by blast
qed

text \<open>
  Creating the guard leaks nothing: every failure leaves the process with exactly the blocks,
  mappings and descriptors it had; success adds one block, one mapping and the write end of the pipe,
  with nothing armed and the given identity, and a helper unless the second fork failed, which the
  caller is not told; destroying the guard gives all three back.
\<close>

lemma guard_create_destroy:
  "case uvc_reattach_guard_create env bus dev vid pid bcd res of
     (None, res') \<Rightarrow> res' = res
   | (Some g, res') \<Rightarrow>
       (\<exists>n0 n1. ge_pipe2 env = Some (n0, n1) \<and> gu_notify_fd g = n1 \<and>
          res' = res\<lparr> gr_blocks := gr_blocks res + 1, gr_maps := gr_maps res + 1,
            gr_fds := n1 # gr_fds res, gr_helpers := gr_helpers res + (if ge_fork2 env < 0 then 0 else 1) \<rparr>) \<and>
       gu_record g = \<lparr> rr_magic = UVC_REATTACH_MAGIC, rr_armed = 0, rr_busnum = bus, rr_devnum = dev,
         rr_id_vendor = vid, rr_id_product = pid, rr_bcd_device = bcd \<rparr> \<and>
       uvc_reattach_guard_destroy (Some g) res' = res\<lparr> gr_helpers := gr_helpers res + (if ge_fork2 env < 0 then 0 else 1) \<rparr>"
  by (auto simp: uvc_reattach_guard_create_def uvc_reattach_guard_destroy_def Let_def split: option.splits)

text \<open>
  The helper leaves the world alone until its pipe reports end of file or a hard error:
  interrupted reads and stray bytes do not wake it.  Once it acts it holds no inherited descriptor
  below the scan limit but its own pipe end, so it keeps nothing of the host alive.
\<close>

lemma helper_wakes_on_eof:
  "helper_main be poll nfd lim fds reads record w =
     (if list_ex (\<lambda>r. r = Got 0 \<or> (\<exists>e. r = Failed e \<and> e \<noteq> EINTR)) reads
      then Some (close_inherited_fds nfd lim fds, reattach_armed_interfaces be poll record w)
      else None) \<and>
   (\<forall>fd \<in> set (close_inherited_fds nfd lim fds). fd = nfd \<or> fd < 0 \<or> lim \<le> fd)"
proof -
  have "(helper_wait reads = None) = (\<not> list_ex (\<lambda>r. r = Got 0 \<or> (\<exists>e. r = Failed e \<and> e \<noteq> EINTR)) reads)"
    by (induction reads rule: helper_wait.induct) auto
  then show ?thesis
    by (auto simp: helper_main_def close_inherited_fds_def split: option.splits)
qed

lemma helper_wakes_on_eof_witness:
  "helper_main \<lparr> be_open_device = (\<lambda>_ w. (3, w @ ''o'')), be_rebind = (\<lambda>_ _ w. (0, w @ ''r'')),
       be_close_device = (\<lambda>_ w. w @ ''c'') \<rparr> (\<lambda>_ w. w) 5 1024 [0, 3, 5, 2000] [Failed EINTR, Got 1, Got 0]
     \<lparr> rr_magic = UVC_REATTACH_MAGIC, rr_armed = 2, rr_busnum = 1, rr_devnum = 7, rr_id_vendor = 0,
       rr_id_product = 0, rr_bcd_device = 0 \<rparr> [] = Some ([5, 2000], ''orc'')"
proof -
  let ?be = "\<lparr> be_open_device = (\<lambda>_ w. (3, w @ ''o'')), be_rebind = (\<lambda>_ _ w. (0, w @ ''r'')),
    be_close_device = (\<lambda>_ w. w @ ''c'') \<rparr>"
  let ?r = "\<lparr> rr_magic = UVC_REATTACH_MAGIC, rr_armed = 2, rr_busnum = 1, rr_devnum = 7, rr_id_vendor = 0,
    rr_id_product = 0, rr_bcd_device = 0 \<rparr>"
  have "reattach_armed_interfaces ?be (\<lambda>_ w. w) ?r [] = ''orc''" by code_simp
  moreover have "close_inherited_fds 5 1024 [0, 3, 5, 2000] = [5, 2000]" by code_simp
  ultimately show ?thesis
    using conjunct1 [OF helper_wakes_on_eof [of ?be "\<lambda>_ w. w" 5 1024 "[0, 3, 5, 2000]"
      "[Failed EINTR, Got 1, Got 0]" ?r "[]"]] by simp
qed

end
