(* ===== verification/Claim.thy ===== *)
theory Claim
  imports Reattach_Guard
begin

text \<open>
  Claiming and releasing interfaces (device.c).  libusb is a parameter: a record of the five
  operations the code calls on an interface number, each a function on an abstract USB state
  \<open>'u\<close> that returns a libusb code.  The handle's part of the state is the claimed mask, the
  reattach guard and the USB state; \<open>dc_past\<close> is a history variable the code does not have: the
  guard and the USB state after every libusb call and every store to the armed mask, the instants
  at which the process can die.
\<close>

section \<open>State\<close>

record 'u libusb_if_ops =
  op_detach_kernel_driver :: "nat \<Rightarrow> 'u \<Rightarrow> int \<times> 'u"
  op_claim_interface :: "nat \<Rightarrow> 'u \<Rightarrow> int \<times> 'u"
  op_attach_kernel_driver :: "nat \<Rightarrow> 'u \<Rightarrow> int \<times> 'u"
  op_set_interface_alt_setting :: "nat \<Rightarrow> nat \<Rightarrow> 'u \<Rightarrow> int \<times> 'u"
  op_release_interface :: "nat \<Rightarrow> 'u \<Rightarrow> int \<times> 'u"

record 'u devh_claims =
  dc_claimed :: u32
  dc_reattach_guard :: "uvc_reattach_guard option"
  dc_usb :: 'u
  dc_guard_res :: guard_res
  dc_past :: "(uvc_reattach_guard option \<times> 'u) list"

text \<open>
  What creating the guard meets: the device's bus number, address, vendor, product and release
  numbers (\<^term>\<open>None\<close> when libusb cannot read the descriptor), and the operating system's answers.
\<close>

record guard_source =
  gs_ident :: "(u8 \<times> u8 \<times> u16 \<times> u16 \<times> u16) option"
  gs_env :: guard_env

text \<open>The outcomes of a detach or an attach that leave nothing to do for this process.\<close>

definition soft_code :: "int \<Rightarrow> bool" where
  "soft_code r = (r = UVC_SUCCESS \<or> r = UVC_ERROR_NOT_FOUND \<or> r = UVC_ERROR_NOT_SUPPORTED)"

definition snap :: "'u devh_claims \<Rightarrow> 'u devh_claims" where
  "snap d = d\<lparr> dc_past := (dc_reattach_guard d, dc_usb d) # dc_past d \<rparr>"

definition usb_call :: "(nat \<Rightarrow> 'u \<Rightarrow> int \<times> 'u) \<Rightarrow> nat \<Rightarrow> 'u devh_claims \<Rightarrow> int \<times> 'u devh_claims" where
  "usb_call f idx d = (let (r, u) = f idx (dc_usb d) in (r, snap (d\<lparr> dc_usb := u \<rparr>)))"

definition disarm :: "nat \<Rightarrow> 'u devh_claims \<Rightarrow> 'u devh_claims" where
  "disarm idx d = snap (d\<lparr> dc_reattach_guard := uvc_reattach_guard_disarm (dc_reattach_guard d) (int idx) \<rparr>)"

section \<open>Operations\<close>

definition uvc_arm_reattach_guard :: "guard_source \<Rightarrow> nat \<Rightarrow> 'u devh_claims \<Rightarrow> 'u devh_claims" where
  "uvc_arm_reattach_guard gs idx d =
     (let d = (if dc_reattach_guard d = None
               then case gs_ident gs of
                      None \<Rightarrow> d
                    | Some (bus, dev, vid, pid, bcd) \<Rightarrow>
                        let (g, res) = uvc_reattach_guard_create (gs_env gs) bus dev vid pid bcd (dc_guard_res d)
                        in d\<lparr> dc_reattach_guard := g, dc_guard_res := res \<rparr>
               else d)
      in if dc_reattach_guard d = None then d
         else snap (d\<lparr> dc_reattach_guard := uvc_reattach_guard_arm (dc_reattach_guard d) (int idx) \<rparr>))"

definition uvc_claim_if ::
  "'u libusb_if_ops \<Rightarrow> guard_source \<Rightarrow> nat \<Rightarrow> 'u devh_claims \<Rightarrow> (int \<times> 'u devh_claims) option" where
  "uvc_claim_if ops gs idx d = do {
     m \<leftarrow> shl1 idx;
     if dc_claimed d AND m \<noteq> 0 then Some (UVC_SUCCESS, d)
     else do {
       let d = uvc_arm_reattach_guard gs idx d;
       let (ret, d) = usb_call (op_detach_kernel_driver ops) idx d;
       if \<not> soft_code ret then Some (ret, disarm idx d)
       else do {
         let (ret, d) = usb_call (op_claim_interface ops) idx d;
         if ret = UVC_SUCCESS then Some (ret, d\<lparr> dc_claimed := dc_claimed d OR m \<rparr>)
         else do {
           let (reattach, d) = usb_call (op_attach_kernel_driver ops) idx d;
           Some (ret, if soft_code reattach then disarm idx d else d) } } } }"

definition uvc_release_if ::
  "'u libusb_if_ops \<Rightarrow> nat \<Rightarrow> 'u devh_claims \<Rightarrow> (int \<times> 'u devh_claims) option" where
  "uvc_release_if ops idx d = do {
     m \<leftarrow> shl1 idx;
     if dc_claimed d AND m = 0 then Some (UVC_SUCCESS, d)
     else do {
       let (_, d) = usb_call (\<lambda>i. op_set_interface_alt_setting ops i 0) idx d;
       let (ret, d) = usb_call (op_release_interface ops) idx d;
       if ret = UVC_SUCCESS then do {
         let d = d\<lparr> dc_claimed := dc_claimed d AND NOT m \<rparr>;
         let (ret, d) = usb_call (op_attach_kernel_driver ops) idx d;
         let ret = (if soft_code ret then UVC_SUCCESS else ret);
         Some (ret, if ret = UVC_SUCCESS then disarm idx d else d) }
       else Some (ret, d) } }"

text \<open>The loop of \<^verbatim>\<open>uvc_release_claimed_ifs\<close> over the interface numbers, \<open>n\<close> left.\<close>

fun release_others ::
  "'u libusb_if_ops \<Rightarrow> nat option \<Rightarrow> nat \<Rightarrow> 'u devh_claims \<Rightarrow> 'u devh_claims option" where
  "release_others ops ctrl 0 d = Some d"
| "release_others ops ctrl (Suc n) d = do {
     let idx = 32 - Suc n;
     d \<leftarrow> (if ctrl \<noteq> Some idx \<and> dc_claimed d AND push_bit idx 1 \<noteq> 0
           then map_option snd (uvc_release_if ops idx d) else Some d);
     release_others ops ctrl n d }"

text \<open>\<open>ctrl\<close> is the VideoControl interface number, \<^term>\<open>None\<close> when the handle has no info.\<close>

definition uvc_release_claimed_ifs ::
  "'u libusb_if_ops \<Rightarrow> nat option \<Rightarrow> 'u devh_claims \<Rightarrow> 'u devh_claims option" where
  "uvc_release_claimed_ifs ops ctrl d = do {
     d \<leftarrow> release_others ops ctrl 32 d;
     case ctrl of None \<Rightarrow> Some d | Some idx \<Rightarrow> map_option snd (uvc_release_if ops idx d) }"

section \<open>Lemmas\<close>

lemma snap_simps [simp]:
  "dc_claimed (snap d) = dc_claimed d" "dc_reattach_guard (snap d) = dc_reattach_guard d"
  "dc_usb (snap d) = dc_usb d" "dc_past (snap d) = (dc_reattach_guard d, dc_usb d) # dc_past d"
  by (simp_all add: snap_def)

lemma disarm_simps [simp]:
  "dc_claimed (disarm i d) = dc_claimed d"
  "dc_reattach_guard (disarm i d) = uvc_reattach_guard_disarm (dc_reattach_guard d) (int i)"
  "dc_usb (disarm i d) = dc_usb d"
  "dc_past (disarm i d) = (uvc_reattach_guard_disarm (dc_reattach_guard d) (int i), dc_usb d) # dc_past d"
  by (simp_all add: disarm_def)

lemma usb_call_simps:
  assumes "usb_call f i d = (r, d')"
  shows "dc_claimed d' = dc_claimed d" "dc_reattach_guard d' = dc_reattach_guard d"
    "f i (dc_usb d) = (r, dc_usb d')" "dc_past d' = (dc_reattach_guard d, dc_usb d') # dc_past d"
  using assms by (auto simp: usb_call_def split: prod.splits)

lemma arm_guard_simps [simp]:
  "dc_claimed (uvc_arm_reattach_guard gs i d) = dc_claimed d"
  "dc_usb (uvc_arm_reattach_guard gs i d) = dc_usb d"
  by (auto simp: uvc_arm_reattach_guard_def Let_def split: option.splits prod.splits)

text \<open>The paths through a claim and a release, the rules every proof below starts from.\<close>

lemma claim_if_cases:
  assumes "uvc_claim_if ops gs idx d = Some (ret, d')"
  obtains (already) "idx < 32" "bit (dc_claimed d) idx" "ret = UVC_SUCCESS" "d' = d"
  | (not_detached) d2 where "idx < 32" "\<not> bit (dc_claimed d) idx"
      "usb_call (op_detach_kernel_driver ops) idx (uvc_arm_reattach_guard gs idx d) = (ret, d2)"
      "\<not> soft_code ret" "d' = disarm idx d2"
  | (claimed) r2 d2 d3 where "idx < 32" "\<not> bit (dc_claimed d) idx"
      "usb_call (op_detach_kernel_driver ops) idx (uvc_arm_reattach_guard gs idx d) = (r2, d2)"
      "soft_code r2" "usb_call (op_claim_interface ops) idx d2 = (ret, d3)" "ret = UVC_SUCCESS"
      "d' = d3\<lparr> dc_claimed := dc_claimed d3 OR push_bit idx 1 \<rparr>"
  | (not_claimed) r2 d2 d3 r4 d4 where "idx < 32" "\<not> bit (dc_claimed d) idx"
      "usb_call (op_detach_kernel_driver ops) idx (uvc_arm_reattach_guard gs idx d) = (r2, d2)"
      "soft_code r2" "usb_call (op_claim_interface ops) idx d2 = (ret, d3)" "ret \<noteq> UVC_SUCCESS"
      "usb_call (op_attach_kernel_driver ops) idx d3 = (r4, d4)"
      "d' = (if soft_code r4 then disarm idx d4 else d4)"
proof -
  have i: "idx < 32" using assms by (auto simp: uvc_claim_if_def shl1_def split: if_splits)
  show thesis
  proof (cases "bit (dc_claimed d) idx")
    case True
    with i assms show ?thesis by (intro already) (simp_all add: uvc_claim_if_def uvc_bits)
  next
    case False
    with i assms that(2-4) show ?thesis
      by (auto simp: uvc_claim_if_def uvc_bits split: prod.splits if_splits)
  qed
qed

lemma release_if_cases:
  assumes "uvc_release_if ops idx d = Some (ret, d')"
  obtains (unclaimed) "idx < 32" "\<not> bit (dc_claimed d) idx" "ret = UVC_SUCCESS" "d' = d"
  | (kept) r1 d1 where "idx < 32" "bit (dc_claimed d) idx"
      "usb_call (\<lambda>i. op_set_interface_alt_setting ops i 0) idx d = (r1, d1)"
      "usb_call (op_release_interface ops) idx d1 = (ret, d')" "ret \<noteq> UVC_SUCCESS"
  | (released) r1 d1 d2 r3 d3 where "idx < 32" "bit (dc_claimed d) idx"
      "usb_call (\<lambda>i. op_set_interface_alt_setting ops i 0) idx d = (r1, d1)"
      "usb_call (op_release_interface ops) idx d1 = (UVC_SUCCESS, d2)"
      "usb_call (op_attach_kernel_driver ops) idx (d2\<lparr> dc_claimed := dc_claimed d2 AND NOT (push_bit idx 1) \<rparr>) = (r3, d3)"
      "ret = (if soft_code r3 then UVC_SUCCESS else r3)"
      "d' = (if soft_code r3 then disarm idx d3 else d3)"
proof -
  have i: "idx < 32" using assms by (auto simp: uvc_release_if_def shl1_def split: if_splits)
  show thesis
  proof (cases "bit (dc_claimed d) idx")
    case False
    with i assms show ?thesis by (intro unclaimed) (simp_all add: uvc_release_if_def uvc_bits)
  next
    case True
    obtain r1 d1 where 1: "usb_call (\<lambda>i. op_set_interface_alt_setting ops i 0) idx d = (r1, d1)" by fastforce
    obtain r2 d2 where 2: "usb_call (op_release_interface ops) idx d1 = (r2, d2)" by fastforce
    show ?thesis
    proof (cases "r2 = UVC_SUCCESS")
      case False
      with 1 2 True i assms show ?thesis by (intro kept) (auto simp: uvc_release_if_def uvc_bits)
    next
      case suc: True
      obtain r3 d3 where 3: "usb_call (op_attach_kernel_driver ops) idx
          (d2\<lparr> dc_claimed := dc_claimed d2 AND NOT (push_bit idx 1) \<rparr>) = (r3, d3)" by fastforce
      have "ret = (if soft_code r3 then UVC_SUCCESS else r3)"
        "d' = (if soft_code r3 then disarm idx d3 else d3)"
        using 1 2 3 suc True i assms
        by (auto simp: uvc_release_if_def uvc_bits soft_code_def split: if_splits)
      with 1 2 3 suc True i show ?thesis by (intro released) auto
    qed
  qed
qed

lemma claim_if_Some: "idx < 32 \<Longrightarrow> \<exists>ret d'. uvc_claim_if ops gs idx d = Some (ret, d')"
  by (auto simp: uvc_claim_if_def split: prod.splits)

lemma release_if_Some: "idx < 32 \<Longrightarrow> \<exists>ret d'. uvc_release_if ops idx d = Some (ret, d')"
  by (auto simp: uvc_release_if_def split: prod.splits)

text \<open>The claimed mask follows the return codes.\<close>

lemma claim_if_claimed:
  assumes "uvc_claim_if ops gs idx d = Some (ret, d')"
  shows "bit (dc_claimed d') j \<longleftrightarrow> bit (dc_claimed d) j \<or> j = idx \<and> ret = UVC_SUCCESS"
  using assms
  by (cases rule: claim_if_cases) (auto dest!: usb_call_simps(1) simp: uvc_bits soft_code_def)

lemma release_if_claimed:
  assumes "uvc_release_if ops idx d = Some (ret, d')"
  shows "bit (dc_claimed d') j \<longleftrightarrow> bit (dc_claimed d) j \<and> (j = idx \<longrightarrow> bit (dc_claimed d') idx)"
    and "ret = UVC_SUCCESS \<Longrightarrow> \<not> bit (dc_claimed d') idx"
proof -
  have "(\<forall>j. bit (dc_claimed d') j \<longleftrightarrow> bit (dc_claimed d) j \<and> (j = idx \<longrightarrow> bit (dc_claimed d') idx)) \<and>
      (ret = UVC_SUCCESS \<longrightarrow> \<not> bit (dc_claimed d') idx)"
    using assms
  proof (cases rule: release_if_cases)
    case (kept r1 d1)
    then show ?thesis using usb_call_simps(1) [OF kept(3)] usb_call_simps(1) [OF kept(4)] by auto
  next
    case (released r1 d1 d2 r3 d3)
    then have "dc_claimed d' = dc_claimed d AND NOT (push_bit idx 1)"
      using usb_call_simps(1) [OF released(3)] usb_call_simps(1) [OF released(4)] usb_call_simps(1) [OF released(5)]
      by simp
    with released(1) show ?thesis by (simp add: uvc_bits)
  qed auto
  then show "bit (dc_claimed d') j \<longleftrightarrow> bit (dc_claimed d) j \<and> (j = idx \<longrightarrow> bit (dc_claimed d') idx)"
    and "ret = UVC_SUCCESS \<Longrightarrow> \<not> bit (dc_claimed d') idx" by blast+
qed

text \<open>What a release preserves, releasing everything preserves.\<close>

lemma release_others_step:
  assumes "release_others ops ctrl (Suc n) d = Some d'"
  obtains (skip) "\<not> (ctrl \<noteq> Some (31 - n) \<and> bit (dc_claimed d) (31 - n))" "release_others ops ctrl n d = Some d'"
  | (release) ret d1 where "ctrl \<noteq> Some (31 - n)" "bit (dc_claimed d) (31 - n)"
      "uvc_release_if ops (31 - n) d = Some (ret, d1)" "release_others ops ctrl n d1 = Some d'"
proof (cases "ctrl \<noteq> Some (31 - n) \<and> bit (dc_claimed d) (31 - n)")
  case True
  then show ?thesis using assms release by (auto simp: bind_eq_Some_conv Let_def uvc_bits)
next
  case False
  then show ?thesis using assms skip by (auto simp: bind_eq_Some_conv Let_def uvc_bits)
qed

lemma release_others_induct:
  assumes "release_others ops ctrl n d = Some d'" and "P d"
    and "\<And>idx d1 ret d2. P d1 \<Longrightarrow> uvc_release_if ops idx d1 = Some (ret, d2) \<Longrightarrow> P d2"
  shows "P d'"
  using assms(1,2)
proof (induction n arbitrary: d)
  case (Suc n)
  from Suc.prems(1) show ?case
    by (cases rule: release_others_step) (use Suc.IH Suc.prems(2) assms(3) in blast)+
qed simp

lemma release_claimed_induct:
  assumes "uvc_release_claimed_ifs ops ctrl d = Some d'" and "P d"
    and "\<And>idx d1 ret d2. P d1 \<Longrightarrow> uvc_release_if ops idx d1 = Some (ret, d2) \<Longrightarrow> P d2"
  shows "P d'"
proof -
  from assms(1) obtain d1 where "release_others ops ctrl 32 d = Some d1"
    and l: "(case ctrl of None \<Rightarrow> Some d1 | Some idx \<Rightarrow> map_option snd (uvc_release_if ops idx d1)) = Some d'"
    by (auto simp: uvc_release_claimed_ifs_def bind_eq_Some_conv)
  then have "P d1" using release_others_induct [of ops ctrl 32 d d1 P] assms(2,3) by blast
  with l assms(3) show ?thesis by (auto split: option.splits)
qed

section \<open>The backstop covers every instant\<close>

text \<open>
  A guard and a USB state are covered when the helper would rebind all that is taken; a handle is
  covered when its state is covered now and was at every recorded instant.
\<close>

definition covered :: "('u \<Rightarrow> nat \<Rightarrow> bool) \<Rightarrow> uvc_reattach_guard option \<times> 'u \<Rightarrow> bool" where
  "covered taken s = (\<forall>i. taken (snd s) i \<longrightarrow> is_armed (fst s) i)"

definition all_covered :: "('u \<Rightarrow> nat \<Rightarrow> bool) \<Rightarrow> 'u devh_claims \<Rightarrow> bool" where
  "all_covered taken d = (covered taken (dc_reattach_guard d, dc_usb d) \<and>
     list_all (covered taken) (dc_past d))"

text \<open>
  What the code relies on of libusb and the kernel: \<open>taken u i\<close> says that interface \<open>i\<close> has lost
  its kernel driver to this process.  Only a successful detach takes an interface and no call takes
  another one.  An attach gives the interface back when it reports success; when it reports that the
  kernel has no driver for the interface, there is none to miss; and where it reports that the platform
  cannot attach, neither can it detach.
\<close>

locale usb_binding =
  fixes ops :: "'u libusb_if_ops"
    and taken :: "'u \<Rightarrow> nat \<Rightarrow> bool"
  assumes detach_takes: "op_detach_kernel_driver ops i u = (r, u') \<Longrightarrow> taken u' j \<Longrightarrow>
      taken u j \<or> j = i \<and> r = UVC_SUCCESS"
    and claim_takes: "op_claim_interface ops i u = (r, u') \<Longrightarrow> taken u' j \<Longrightarrow> taken u j"
    and alt_takes: "op_set_interface_alt_setting ops i a u = (r, u') \<Longrightarrow> taken u' j \<Longrightarrow> taken u j"
    and release_takes: "op_release_interface ops i u = (r, u') \<Longrightarrow> taken u' j \<Longrightarrow> taken u j"
    and attach_gives: "op_attach_kernel_driver ops i u = (r, u') \<Longrightarrow> taken u' j \<Longrightarrow>
      taken u j \<and> (j = i \<longrightarrow> r \<notin> {UVC_SUCCESS, UVC_ERROR_NOT_FOUND, UVC_ERROR_NOT_SUPPORTED})"
begin

lemma covered_mono: "covered taken (g, u) \<Longrightarrow> (\<And>j. taken u' j \<Longrightarrow> taken u j) \<Longrightarrow> covered taken (g, u')"
  by (auto simp: covered_def)

lemma covered_disarm: "i < 32 \<Longrightarrow> covered taken (g, u) \<Longrightarrow> \<not> taken u i \<Longrightarrow> covered taken (uvc_reattach_guard_disarm g (int i), u)"
  by (auto simp: covered_def)

lemma all_covered_arm:
  assumes "all_covered taken d" and "idx < 32"
    and "dc_reattach_guard (uvc_arm_reattach_guard gs idx d) \<noteq> None"
  shows "all_covered taken (uvc_arm_reattach_guard gs idx d) \<and> is_armed (dc_reattach_guard (uvc_arm_reattach_guard gs idx d)) idx"
proof (cases "dc_reattach_guard d")
  case None
  then have "\<not> taken (dc_usb d) i" for i
    using assms(1) by (auto simp: all_covered_def covered_def uvc_reattach_guard_armed_mask_def)
  then show ?thesis using assms None
    by (auto simp: uvc_arm_reattach_guard_def all_covered_def covered_def Let_def list_all_iff
        split: option.splits prod.splits)
next
  case (Some g)
  then show ?thesis using assms
    by (auto simp: uvc_arm_reattach_guard_def all_covered_def list_all_iff covered_def Let_def iff del: not_None_eq)
qed

lemma all_covered_call:
  assumes "all_covered taken d" and "usb_call f i d = (r, d')"
    and "\<And>u u'. f i u = (r, u') \<Longrightarrow> (\<And>j. taken u' j \<Longrightarrow> taken u j \<or> is_armed (dc_reattach_guard d) j)"
  shows "all_covered taken d'"
proof -
  note s = usb_call_simps [OF assms(2)]
  have "covered taken (dc_reattach_guard d', dc_usb d')"
    using assms(1) assms(3) [OF s(3)] by (auto simp: all_covered_def list_all_iff covered_def s(2))
  with assms(1) show ?thesis by (auto simp: all_covered_def list_all_iff s(2,4))
qed

lemma all_covered_disarm:
  "all_covered taken d \<Longrightarrow> i < 32 \<Longrightarrow> \<not> taken (dc_usb d) i \<Longrightarrow> all_covered taken (disarm i d)"
  by (auto simp: all_covered_def list_all_iff intro!: covered_disarm)

text \<open>An arming is lost in one case: an interface taken before, and a detach that fails hard.\<close>

lemma claim_all_covered:
  assumes "uvc_claim_if ops gs idx d = Some (ret, d')" and "all_covered taken d"
    and "dc_reattach_guard (uvc_arm_reattach_guard gs idx d) \<noteq> None"
  shows "all_covered taken d' \<or>
    taken (dc_usb d) idx \<and> ret \<notin> {UVC_SUCCESS, UVC_ERROR_NOT_FOUND, UVC_ERROR_NOT_SUPPORTED} \<and>
    list_all (covered taken) (tl (dc_past d')) \<and> (\<forall>i. taken (dc_usb d') i \<and> i \<noteq> idx \<longrightarrow> is_armed (dc_reattach_guard d') i)"
  using assms(1)
proof (cases rule: claim_if_cases)
  case already
  with assms show ?thesis by simp
next
  case (not_detached d2)
  from all_covered_arm [OF assms(2) not_detached(1) assms(3)]
  have a: "all_covered taken (uvc_arm_reattach_guard gs idx d)" by blast
  have d2: "all_covered taken d2" by (rule all_covered_call [OF a not_detached(3)]) (use not_detached(4) in \<open>auto simp: soft_code_def dest: detach_takes\<close>)
  show ?thesis
  proof (cases "taken (dc_usb d) idx")
    case False
    then have "\<not> taken (dc_usb d2) idx"
      using detach_takes [OF usb_call_simps(3) [OF not_detached(3)]] not_detached(4) by (auto simp: soft_code_def)
    with d2 show ?thesis using not_detached all_covered_disarm by simp
  next
    case True
    have "list_all (covered taken) (dc_past d2)" "\<forall>i. taken (dc_usb d2) i \<longrightarrow> is_armed (dc_reattach_guard d2) i"
      using d2 by (simp_all add: all_covered_def covered_def)
    with True not_detached(1,4,5) show ?thesis by (auto simp: soft_code_def)
  qed
next
  case (claimed r2 d2 d3)
  from all_covered_arm [OF assms(2) claimed(1) assms(3)]
  have a: "all_covered taken (uvc_arm_reattach_guard gs idx d)" "is_armed (dc_reattach_guard (uvc_arm_reattach_guard gs idx d)) idx" by blast+
  have "all_covered taken d2" by (rule all_covered_call [OF a(1) claimed(3)]) (use detach_takes a(2) in blast)
  then have "all_covered taken d3" by (rule all_covered_call [OF _ claimed(5)]) (use claim_takes in blast)
  with claimed show ?thesis by (simp add: all_covered_def list_all_iff)
next
  case (not_claimed r2 d2 d3 r4 d4)
  from all_covered_arm [OF assms(2) not_claimed(1) assms(3)]
  have a: "all_covered taken (uvc_arm_reattach_guard gs idx d)" "is_armed (dc_reattach_guard (uvc_arm_reattach_guard gs idx d)) idx" by blast+
  have "all_covered taken d2" by (rule all_covered_call [OF a(1) not_claimed(3)]) (use detach_takes a(2) in blast)
  then have "all_covered taken d3" by (rule all_covered_call [OF _ not_claimed(5)]) (use claim_takes in blast)
  then have "all_covered taken d4" by (rule all_covered_call [OF _ not_claimed(7)]) (use attach_gives in blast)
  moreover have "soft_code r4 \<Longrightarrow> \<not> taken (dc_usb d4) idx"
    using attach_gives [OF usb_call_simps(3) [OF not_claimed(7)]] by (auto simp: soft_code_def)
  ultimately show ?thesis using not_claimed all_covered_disarm by simp
qed

lemma release_all_covered:
  assumes "uvc_release_if ops idx d = Some (ret, d')" and "all_covered taken d"
  shows "all_covered taken d'"
  using assms(1)
proof (cases rule: release_if_cases)
  case unclaimed
  with assms show ?thesis by simp
next
  case (kept r1 d1)
  have "all_covered taken d1" by (rule all_covered_call [OF assms(2) kept(3)]) (use alt_takes in blast)
  then show ?thesis by (rule all_covered_call [OF _ kept(4)]) (use release_takes in blast)
next
  case (released r1 d1 d2 r3 d3)
  have "all_covered taken d1" by (rule all_covered_call [OF assms(2) released(3)]) (use alt_takes in blast)
  then have "all_covered taken d2" by (rule all_covered_call [OF _ released(4)]) (use release_takes in blast)
  then have "all_covered taken (d2\<lparr> dc_claimed := dc_claimed d2 AND NOT (push_bit idx 1) \<rparr>)" by (simp add: all_covered_def list_all_iff)
  then have "all_covered taken d3" by (rule all_covered_call [OF _ released(5)]) (use attach_gives in blast)
  moreover have "soft_code r3 \<Longrightarrow> \<not> taken (dc_usb d3) idx"
    using attach_gives [OF usb_call_simps(3) [OF released(5)]] by (auto simp: soft_code_def)
  ultimately show ?thesis using released all_covered_disarm by simp
qed

lemma release_claimed_covered:
  assumes "all_covered taken d" and "uvc_release_claimed_ifs ops ctrl d = Some d'"
  shows "all_covered taken d'"
  using assms(2) by (rule release_claimed_induct) (use assms(1) release_all_covered in blast)+

end

section \<open>The usbfs kernel as an instance\<close>

text \<open>
  What usbfs does with these calls, with failures chosen by a script: each call takes the next
  code of \<open>k_script\<close> (0 when it is used up) and has its effect only when the code is 0.  An
  interface starts with a driver bound or not; detaching an unbound one and attaching where no
  driver fits answer LIBUSB_ERROR_NOT_FOUND.
\<close>

record kernel_state =
  k_bound :: "nat list" \<comment> \<open>interfaces with a kernel driver\<close>
  k_usbfs :: "nat list" \<comment> \<open>interfaces usbfs has claimed for this process\<close>
  k_taken :: "nat list" \<comment> \<open>interfaces whose driver this process removed\<close>
  k_script :: "int list"

definition k_next :: "kernel_state \<Rightarrow> int \<times> kernel_state" where
  "k_next k = (case k_script k of [] \<Rightarrow> (0, k) | c # cs \<Rightarrow> (c, k\<lparr> k_script := cs \<rparr>))"

definition k_detach :: "nat \<Rightarrow> kernel_state \<Rightarrow> int \<times> kernel_state" where
  "k_detach i k = (let (c, k) = k_next k in
     if c \<noteq> 0 then (c, k)
     else if i \<in> set (k_bound k)
     then (0, k\<lparr> k_bound := removeAll i (k_bound k), k_taken := List.insert i (k_taken k) \<rparr>)
     else (UVC_ERROR_NOT_FOUND, k))"

definition k_claim :: "nat \<Rightarrow> kernel_state \<Rightarrow> int \<times> kernel_state" where
  "k_claim i k = (let (c, k) = k_next k in
     if c \<noteq> 0 then (c, k) else if i \<in> set (k_bound k) then (UVC_ERROR_BUSY, k)
     else (0, k\<lparr> k_usbfs := List.insert i (k_usbfs k) \<rparr>))"

definition k_release :: "nat \<Rightarrow> kernel_state \<Rightarrow> int \<times> kernel_state" where
  "k_release i k = (let (c, k) = k_next k in
     if c \<noteq> 0 then (c, k) else (0, k\<lparr> k_usbfs := removeAll i (k_usbfs k) \<rparr>))"

definition k_attach :: "nat \<Rightarrow> kernel_state \<Rightarrow> int \<times> kernel_state" where
  "k_attach i k = (let (c, k) = k_next k in
     if \<not> soft_code c then (c, k)
     else if i \<in> set (k_usbfs k) then (UVC_ERROR_BUSY, k)
     else if i \<in> set (k_taken k)
     then (0, k\<lparr> k_bound := List.insert i (k_bound k), k_taken := removeAll i (k_taken k) \<rparr>)
     else (UVC_ERROR_NOT_FOUND, k))"

definition kernel_ops :: "kernel_state libusb_if_ops" where
  "kernel_ops = \<lparr> op_detach_kernel_driver = k_detach, op_claim_interface = k_claim,
     op_attach_kernel_driver = k_attach, op_set_interface_alt_setting = (\<lambda>i a. k_next),
     op_release_interface = k_release \<rparr>"

abbreviation kernel_taken :: "kernel_state \<Rightarrow> nat \<Rightarrow> bool" where
  "kernel_taken k i \<equiv> i \<in> set (k_taken k)"

lemma k_next_taken [simp]: "k_next k = (c, k') \<Longrightarrow> k_taken k' = k_taken k"
  by (auto simp: k_next_def split: list.splits)

interpretation kernel: usb_binding kernel_ops kernel_taken
proof unfold_locales
  fix i u r u' j
  show "op_detach_kernel_driver kernel_ops i u = (r, u') \<Longrightarrow> kernel_taken u' j \<Longrightarrow>
      kernel_taken u j \<or> j = i \<and> r = UVC_SUCCESS"
    by (auto simp: kernel_ops_def k_detach_def split: prod.splits if_splits)
  show "op_attach_kernel_driver kernel_ops i u = (r, u') \<Longrightarrow> kernel_taken u' j \<Longrightarrow>
      kernel_taken u j \<and> (j = i \<longrightarrow> r \<notin> {UVC_SUCCESS, UVC_ERROR_NOT_FOUND, UVC_ERROR_NOT_SUPPORTED})"
    by (auto simp: kernel_ops_def k_attach_def soft_code_def split: prod.splits if_splits)
qed (auto simp: kernel_ops_def k_claim_def k_release_def split: prod.splits if_splits)

section \<open>Observing the order of releases\<close>

text \<open>Any libusb can be observed: the wrapper records which interfaces are released, latest first.\<close>

definition release_log :: "'u libusb_if_ops \<Rightarrow> ('u \<times> nat list) libusb_if_ops" where
  "release_log ops = \<lparr>
     op_detach_kernel_driver = (\<lambda>i (u, l). map_prod id (\<lambda>u. (u, l)) (op_detach_kernel_driver ops i u)),
     op_claim_interface = (\<lambda>i (u, l). map_prod id (\<lambda>u. (u, l)) (op_claim_interface ops i u)),
     op_attach_kernel_driver = (\<lambda>i (u, l). map_prod id (\<lambda>u. (u, l)) (op_attach_kernel_driver ops i u)),
     op_set_interface_alt_setting =
       (\<lambda>i a (u, l). map_prod id (\<lambda>u. (u, l)) (op_set_interface_alt_setting ops i a u)),
     op_release_interface = (\<lambda>i (u, l). map_prod id (\<lambda>u. (u, i # l)) (op_release_interface ops i u)) \<rparr>"

lemma release_if_logged:
  assumes "uvc_release_if (release_log ops) idx d = Some (ret, d')"
  shows "snd (dc_usb d') = (if bit (dc_claimed d) idx then [idx] else []) @ snd (dc_usb d)"
proof -
  have step: "snd (dc_usb d2) = l @ snd (dc_usb d1)"
    if "usb_call f i d1 = (r, d2)" "\<And>u u' r. f i u = (r, u') \<Longrightarrow> snd u' = l @ snd u" for f i d1 r d2 and l :: "nat list"
    using usb_call_simps(3) [OF that(1)] that(2) by blast
  have alt: "(\<lambda>i. op_set_interface_alt_setting (release_log ops) i 0) i u = (r, u') \<Longrightarrow> snd u' = [] @ snd u"
    and att: "op_attach_kernel_driver (release_log ops) i u = (r, u') \<Longrightarrow> snd u' = [] @ snd u"
    and rel: "op_release_interface (release_log ops) i u = (r, u') \<Longrightarrow> snd u' = [i] @ snd u" for i u r u'
    by (cases u; auto simp: release_log_def map_prod_def split: prod.splits)+
  from assms show ?thesis
  proof (cases rule: release_if_cases)
    case (kept r1 d1)
    with step [OF kept(3) alt] step [OF kept(4) rel] show ?thesis by simp
  next
    case (released r1 d1 d2 r3 d3)
    with step [OF released(3) alt] step [OF released(4) rel] step [OF released(5) att] show ?thesis by simp
  qed simp
qed

lemma release_others_logged:
  assumes "release_others (release_log ops) ctrl n d = Some d'" and "n \<le> 32"
  shows "snd (dc_usb d') = rev (filter (\<lambda>i. ctrl \<noteq> Some i \<and> bit (dc_claimed d) i) [32 - n..<32]) @ snd (dc_usb d) \<and>
    (\<forall>j. ctrl = Some j \<longrightarrow> bit (dc_claimed d') j = bit (dc_claimed d) j)"
  using assms
proof (induction n arbitrary: d)
  case (Suc n)
  have i: "[32 - Suc n..<32] = (31 - n) # [32 - n..<32]"
    using Suc.prems(2) by (simp add: upt_conv_Cons Suc_diff_le [symmetric])
  from Suc.prems(1) show ?case
  proof (cases rule: release_others_step)
    case skip
    with Suc.IH [OF skip(2)] Suc.prems(2) show ?thesis unfolding i by auto
  next
    case (release ret d1)
    have same: "bit (dc_claimed d1) j = bit (dc_claimed d) j" if "j \<noteq> 31 - n" for j
      using release_if_claimed(1) [OF release(3), of j] that by simp
    then have "filter (\<lambda>i. ctrl \<noteq> Some i \<and> bit (dc_claimed d1) i) [32 - n..<32] =
        filter (\<lambda>i. ctrl \<noteq> Some i \<and> bit (dc_claimed d) i) [32 - n..<32]"
      using Suc.prems(2) by (intro filter_cong refl) auto
    with Suc.IH [OF release(4)] Suc.prems(2) release(1,2) same release_if_logged [OF release(3)]
    show ?thesis unfolding i by auto
  qed
qed simp

section \<open>Properties\<close>


definition sample_source :: guard_source where
  "sample_source = \<lparr> gs_ident = Some (1, 7, 0x199e, 0x8101, 0x100),
     gs_env = \<lparr> ge_calloc = True, ge_mmap = True, ge_pipe2 = Some (3, 4), ge_fork = 99, ge_fork2 = 100 \<rparr> \<rparr>"

definition sample_claims :: "int list \<Rightarrow> kernel_state devh_claims" where
  "sample_claims script = \<lparr> dc_claimed = 0, dc_reattach_guard = None,
     dc_usb = \<lparr> k_bound = [0, 1], k_usbfs = [], k_taken = [], k_script = script \<rparr>,
     dc_guard_res = \<lparr> gr_blocks = 0, gr_maps = 0, gr_fds = [], gr_helpers = 0 \<rparr>, dc_past = [] \<rparr>"


text \<open>
  C17: releasing, of one interface or of all on close, keeps the same promise at every instant,
  without a side condition: an interface is disarmed only after an attach that gave it back.
\<close>

theorem release_always_covered:
  assumes "usb_binding ops taken" and "all_covered taken d"
  shows "(\<forall>idx ret d'. uvc_release_if ops idx d = Some (ret, d') \<longrightarrow> all_covered taken d') \<and>
    (\<forall>ctrl d'. uvc_release_claimed_ifs ops ctrl d = Some d' \<longrightarrow> all_covered taken d')"
  using usb_binding.release_all_covered usb_binding.release_claimed_covered assms by metis

text \<open>The release succeeds and the reattach fails with -4: interface 1 stays taken, and armed.\<close>

theorem release_always_covered_witness:
  "\<exists>d'. uvc_release_claimed_ifs kernel_ops (Some 1)
      \<lparr> dc_claimed = 0b10, dc_reattach_guard = Some \<lparr> gu_record = \<lparr> rr_magic = UVC_REATTACH_MAGIC, rr_armed = 0b10,
          rr_busnum = 1, rr_devnum = 7, rr_id_vendor = 0, rr_id_product = 0, rr_bcd_device = 0 \<rparr>, gu_notify_fd = 4 \<rparr>,
        dc_usb = \<lparr> k_bound = [], k_usbfs = [1], k_taken = [1], k_script = [0, 0, -4] \<rparr>,
        dc_guard_res = \<lparr> gr_blocks = 1, gr_maps = 1, gr_fds = [4], gr_helpers = 1 \<rparr>, dc_past = [] \<rparr> = Some d' \<and>
     k_taken (dc_usb d') = [1] \<and> all_covered kernel_taken d'"
proof -
  let ?d = "\<lparr> dc_claimed = 0b10, dc_reattach_guard = Some \<lparr> gu_record = \<lparr> rr_magic = UVC_REATTACH_MAGIC, rr_armed = 0b10,
          rr_busnum = 1, rr_devnum = 7, rr_id_vendor = 0, rr_id_product = 0, rr_bcd_device = 0 \<rparr>, gu_notify_fd = 4 \<rparr>,
        dc_usb = \<lparr> k_bound = [], k_usbfs = [1], k_taken = [1], k_script = [0, 0, -4] \<rparr>,
        dc_guard_res = \<lparr> gr_blocks = 1, gr_maps = 1, gr_fds = [4], gr_helpers = 1 \<rparr>, dc_past = [] \<rparr>"
  have "map_option (\<lambda>d. k_taken (dc_usb d)) (uvc_release_claimed_ifs kernel_ops (Some 1) ?d) = Some [1]" by code_simp
  then obtain d' where d': "uvc_release_claimed_ifs kernel_ops (Some 1) ?d = Some d'" "k_taken (dc_usb d') = [1]" by auto
  have "all_covered kernel_taken ?d"
    by (simp add: all_covered_def covered_def uvc_reattach_guard_armed_mask_def)
  with release_always_covered [OF kernel.usb_binding_axioms, of ?d] d' show ?thesis by blast
qed

text \<open>
  A claim succeeds exactly when the interface ends up in the claimed mask, no other bit of the
  mask changes, a second claim changes nothing, and a release that reports success removes the
  interface from the mask.
\<close>

lemma claim_release_mask:
  assumes "idx < 32"
  shows "\<exists>ret d'. uvc_claim_if ops gs idx d = Some (ret, d') \<and>
    (\<forall>j. bit (dc_claimed d') j \<longleftrightarrow> bit (dc_claimed d) j \<or> j = idx \<and> ret = UVC_SUCCESS) \<and>
    (ret = UVC_SUCCESS \<longrightarrow> uvc_claim_if ops gs idx d' = Some (UVC_SUCCESS, d')) \<and>
    (\<exists>ret2 d2. uvc_release_if ops idx d' = Some (ret2, d2) \<and>
       (ret2 = UVC_SUCCESS \<longrightarrow> \<not> bit (dc_claimed d2) idx) \<and>
       (\<forall>j. j \<noteq> idx \<longrightarrow> bit (dc_claimed d2) j = bit (dc_claimed d) j))"
proof -
  obtain ret d' where c: "uvc_claim_if ops gs idx d = Some (ret, d')" using claim_if_Some [OF assms] by blast
  obtain ret2 d2 where r: "uvc_release_if ops idx d' = Some (ret2, d2)" using release_if_Some [OF assms] by blast
  have "ret = UVC_SUCCESS \<longrightarrow> uvc_claim_if ops gs idx d' = Some (UVC_SUCCESS, d')"
  proof
    assume "ret = UVC_SUCCESS"
    then have "bit (dc_claimed d') idx" using claim_if_claimed [OF c, of idx] by simp
    then show "uvc_claim_if ops gs idx d' = Some (UVC_SUCCESS, d')" using assms by (simp add: uvc_claim_if_def uvc_bits)
  qed
  moreover have "\<forall>j. j \<noteq> idx \<longrightarrow> bit (dc_claimed d2) j = bit (dc_claimed d) j"
  proof (intro allI impI)
    fix j assume "j \<noteq> idx"
    then show "bit (dc_claimed d2) j = bit (dc_claimed d) j"
      using release_if_claimed(1) [OF r, of j] claim_if_claimed [OF c, of j] by simp
  qed
  moreover have "\<forall>j. bit (dc_claimed d') j \<longleftrightarrow> bit (dc_claimed d) j \<or> j = idx \<and> ret = UVC_SUCCESS"
    using claim_if_claimed [OF c] by blast
  ultimately show ?thesis using c r release_if_claimed(2) [OF r] by blast
qed

lemma claim_release_mask_witness:
  "\<exists>ret d'. uvc_claim_if kernel_ops sample_source 1 (sample_claims []) = Some (ret, d') \<and>
     (bit (dc_claimed d') 1 \<longleftrightarrow> ret = UVC_SUCCESS)"
  using claim_release_mask [of 1 kernel_ops sample_source "sample_claims []"] by (auto simp: sample_claims_def)

text \<open>
  C37: closing asks libusb to release every claimed interface exactly once, in ascending order, except
  that the VideoControl interface comes last, and asks for no other; whatever libusb answers.
\<close>

theorem release_claimed_order:
  assumes "uvc_release_claimed_ifs (release_log ops) ctrl d = Some d'"
  shows "rev (snd (dc_usb d')) = rev (snd (dc_usb d)) @
    filter (\<lambda>i. ctrl \<noteq> Some i \<and> bit (dc_claimed d) i) [0..<32] @
    (case ctrl of None \<Rightarrow> [] | Some c \<Rightarrow> if bit (dc_claimed d) c then [c] else [])"
proof -
  from assms obtain d1 where o: "release_others (release_log ops) ctrl 32 d = Some d1"
    and l: "(case ctrl of None \<Rightarrow> Some d1 | Some idx \<Rightarrow> map_option snd (uvc_release_if (release_log ops) idx d1)) = Some d'"
    by (auto simp: uvc_release_claimed_ifs_def bind_eq_Some_conv)
  have u: "snd (dc_usb d1) = rev (filter (\<lambda>i. ctrl \<noteq> Some i \<and> bit (dc_claimed d) i) [0..<32]) @ snd (dc_usb d)"
    and c: "\<forall>j. ctrl = Some j \<longrightarrow> bit (dc_claimed d1) j = bit (dc_claimed d) j"
    using release_others_logged [OF o] by simp_all
  show ?thesis
  proof (cases ctrl)
    case None
    with l u show ?thesis by simp
  next
    case (Some k)
    with l obtain ret where "uvc_release_if (release_log ops) k d1 = Some (ret, d')" by auto
    from release_if_logged [OF this] u c Some show ?thesis by simp
  qed
qed

theorem release_claimed_order_witness:
  "\<exists>d'. uvc_release_claimed_ifs (release_log kernel_ops) (Some 0)
      \<lparr> dc_claimed = 0b1011, dc_reattach_guard = None,
        dc_usb = (\<lparr> k_bound = [], k_usbfs = [0, 1, 3], k_taken = [0, 1, 3], k_script = [] \<rparr>, []),
        dc_guard_res = \<lparr> gr_blocks = 0, gr_maps = 0, gr_fds = [], gr_helpers = 0 \<rparr>, dc_past = [] \<rparr> = Some d' \<and>
     rev (snd (dc_usb d')) = [1, 3, 0]"
proof -
  let ?d = "\<lparr> dc_claimed = 0b1011, dc_reattach_guard = None,
        dc_usb = (\<lparr> k_bound = [], k_usbfs = [0, 1, 3], k_taken = [0, 1, 3], k_script = [] \<rparr>, [] :: nat list),
        dc_guard_res = \<lparr> gr_blocks = 0, gr_maps = 0, gr_fds = [], gr_helpers = 0 \<rparr>, dc_past = [] \<rparr>"
  have "uvc_release_claimed_ifs (release_log kernel_ops) (Some 0) ?d \<noteq> None" by code_simp
  then obtain d' where d': "uvc_release_claimed_ifs (release_log kernel_ops) (Some 0) ?d = Some d'" by auto
  have "rev (snd (dc_usb ?d)) @ filter (\<lambda>i. Some (0 :: nat) \<noteq> Some i \<and> bit (dc_claimed ?d) i) [0..<32] @
      (if bit (dc_claimed ?d) 0 then [0] else []) = [1, 3, 0]" by code_simp
  with release_claimed_order [OF d'] d' show ?thesis by auto
qed

end
