(* ===== verification/Status_Xfer.thy ===== *)
theory Status_Xfer
  imports Uvc_Prelude
begin

text \<open>
  The life of the VideoControl status transfer (device.c): the opening and closing thread, the
  event thread in \<^verbatim>\<open>_uvc_status_callback\<close>, and libusb interleave, one access to shared memory or
  one libusb call per step.  Both threads take \<^verbatim>\<open>status_mutex\<close>; the model has no other
  synchronization, so whatever is proved holds for every schedule.

  libusb is the environment: it may accept or refuse a submit, and complete a transfer it holds
  with any status, cancelled or not.  Callbacks are delivered by one event thread, as
  \<^verbatim>\<open>uvc_start_handler_thread\<close> sets it up, from inside \<^verbatim>\<open>libusb_handle_events_completed\<close>; that call may
  return whenever no callback runs.  The two calls of \<^verbatim>\<open>uvc_close\<close> that block are points of the closing
  thread: it leaves \<^verbatim>\<open>uvc_stop_streaming\<close> when the waits of the streams have ended (how they do is theory
  \<open>Stream_Threads\<close>) and \<^verbatim>\<open>pthread_join\<close> when the event thread has left its loop.
\<close>

section \<open>State\<close>

datatype xfer_status = Completed | Error | Timed_out | Cancelled | Stall | No_device | Overflow

datatype owner = Main | Event

text \<open>
  Where the opening and closing thread stands.  \<open>M_poll n\<close> is the head of the polling loop of
  \<^verbatim>\<open>uvc_stop_status_xfer\<close> after \<open>n\<close> milliseconds.
\<close>

datatype main_pc =
    M_open_lock | M_open_mark | M_open_submit | M_open_clear | M_open_unlock bool
  | M_start_thread | M_running | M_stop_streams
  | M_stop_enter | M_stop_lock | M_stop_flag | M_stop_read | M_stop_cancel | M_stop_unlock
  | M_poll nat | M_poll_lock nat | M_poll_read nat | M_poll_unlock nat
  | M_stopped | M_quarantined
  | M_fail_release | M_release | M_close_usb | M_kill | M_close_last | M_join
  | M_free_lock | M_free_read | M_free_unlock | M_free_xfer | M_free_handle | M_gone

text \<open>Where the event thread stands: outside the callback, or at a point of it.\<close>

datatype event_pc =
    E_idle | E_callback xfer_status
  | E_clear_lock | E_clear
  | E_check_lock | E_check | E_stop_clear | E_submit | E_fail_clear
  | E_unlock

text \<open>
  Where the event thread stands in \<^verbatim>\<open>_uvc_handle_events\<close>: not started, inside the libusb call, at the
  test of the loop, or ended.
\<close>

datatype handler_pc = H_none | H_events | H_test | H_ended

text \<open>
  The first group are fields of the device handle, \<open>s_streams\<close> what \<^verbatim>\<open>uvc_stop_streaming\<close> came to, with
  \<^term>\<open>None\<close> while it waits, \<open>s_own\<close> and \<open>s_kill\<close> the fields \<^verbatim>\<open>own_usb_ctx\<close> and \<^verbatim>\<open>kill_handler_thread\<close> of
  the context, \<open>s_local\<close> is the variable \<^verbatim>\<open>submitted\<close> of
  \<^verbatim>\<open>uvc_stop_status_xfer\<close> and \<^verbatim>\<open>uvc_free_devh\<close>, the last group is the outside: whether libusb
  holds the transfer, whether the VideoControl interface is claimed and the USB handle open, and
  what has been freed.
\<close>

record status_sys =
  s_status_xfer :: bool \<comment> \<open>status_xfer is not NULL\<close>
  s_submitted :: bool
  s_stopping :: bool
  s_quarantined_stream :: bool
  s_quarantined_xfer :: bool
  s_streams :: "bool option"
  s_own :: bool
  s_kill :: bool
  s_mutex :: "owner option"
  s_main :: main_pc
  s_event :: event_pc
  s_handler :: handler_pc
  s_local :: bool
  s_in_flight :: bool
  s_claimed :: bool
  s_usb_open :: bool
  s_xfer_freed :: bool
  s_freed :: bool

abbreviation LIBUVC_STATUS_STOP_TIMEOUT_MS :: nat where "LIBUVC_STATUS_STOP_TIMEOUT_MS \<equiv> 500"
abbreviation LIBUVC_STATUS_STOP_POLL_MS :: nat where "LIBUVC_STATUS_STOP_POLL_MS \<equiv> 2"

section \<open>Steps\<close>

text \<open>
  \<^verbatim>\<open>uvc_open_internal\<close>, from the lock around the first submit on; \<open>ok\<close> is libusb's answer.  The first
  device of a context that owns its libusb context starts the event thread.
\<close>

inductive open_step :: "status_sys \<Rightarrow> status_sys \<Rightarrow> bool" where
  "s_main s = M_open_lock \<Longrightarrow> s_mutex s = None \<Longrightarrow>
     open_step s (s\<lparr> s_mutex := Some Main, s_main := M_open_mark \<rparr>)"
| "s_main s = M_open_mark \<Longrightarrow> open_step s (s\<lparr> s_submitted := True, s_main := M_open_submit \<rparr>)"
| "s_main s = M_open_submit \<Longrightarrow> open_step s (s\<lparr> s_in_flight := True, s_main := M_open_unlock True \<rparr>)"
| "s_main s = M_open_submit \<Longrightarrow> open_step s (s\<lparr> s_main := M_open_clear \<rparr>)"
| "s_main s = M_open_clear \<Longrightarrow> open_step s (s\<lparr> s_submitted := False, s_main := M_open_unlock False \<rparr>)"
| "s_main s = M_open_unlock ok \<Longrightarrow>
     open_step s (s\<lparr> s_mutex := None, s_main := (if ok then M_start_thread else M_fail_release) \<rparr>)"
| "s_main s = M_start_thread \<Longrightarrow>
     open_step s (s\<lparr> s_handler := (if s_handler s = H_none then H_test else s_handler s), s_main := M_running \<rparr>)"
| "s_main s = M_fail_release \<Longrightarrow> open_step s (s\<lparr> s_claimed := False, s_main := M_close_usb \<rparr>)"

text \<open>\<^verbatim>\<open>uvc_stop_status_xfer\<close>.  The cancel only asks: libusb answers with a later completion.\<close>

inductive stop_step :: "status_sys \<Rightarrow> status_sys \<Rightarrow> bool" where
  "s_main s = M_stop_enter \<Longrightarrow> \<not> s_status_xfer s \<Longrightarrow>
     stop_step s (s\<lparr> s_local := False, s_main := M_stopped \<rparr>)"
| "s_main s = M_stop_enter \<Longrightarrow> s_status_xfer s \<Longrightarrow> stop_step s (s\<lparr> s_main := M_stop_lock \<rparr>)"
| "s_main s = M_stop_lock \<Longrightarrow> s_mutex s = None \<Longrightarrow>
     stop_step s (s\<lparr> s_mutex := Some Main, s_main := M_stop_flag \<rparr>)"
| "s_main s = M_stop_flag \<Longrightarrow> stop_step s (s\<lparr> s_stopping := True, s_main := M_stop_read \<rparr>)"
| "s_main s = M_stop_read \<Longrightarrow>
     stop_step s (s\<lparr> s_local := s_submitted s, s_main := (if s_submitted s then M_stop_cancel else M_stop_unlock) \<rparr>)"
| "s_main s = M_stop_cancel \<Longrightarrow> stop_step s (s\<lparr> s_main := M_stop_unlock \<rparr>)"
| "s_main s = M_stop_unlock \<Longrightarrow> stop_step s (s\<lparr> s_mutex := None, s_main := M_poll 0 \<rparr>)"
| "s_main s = M_poll n \<Longrightarrow> \<not> (s_local s \<and> n < LIBUVC_STATUS_STOP_TIMEOUT_MS) \<Longrightarrow>
     stop_step s (s\<lparr> s_main := M_stopped \<rparr>)"
| "s_main s = M_poll n \<Longrightarrow> s_local s \<and> n < LIBUVC_STATUS_STOP_TIMEOUT_MS \<Longrightarrow>
     stop_step s (s\<lparr> s_main := M_poll_lock n \<rparr>)"
| "s_main s = M_poll_lock n \<Longrightarrow> s_mutex s = None \<Longrightarrow>
     stop_step s (s\<lparr> s_mutex := Some Main, s_main := M_poll_read n \<rparr>)"
| "s_main s = M_poll_read n \<Longrightarrow> stop_step s (s\<lparr> s_local := s_submitted s, s_main := M_poll_unlock n \<rparr>)"
| "s_main s = M_poll_unlock n \<Longrightarrow>
     stop_step s (s\<lparr> s_mutex := None, s_main := M_poll (n + LIBUVC_STATUS_STOP_POLL_MS) \<rparr>)"

text \<open>
  \<^verbatim>\<open>uvc_close\<close>, with or without streams.  The quarantine branch keeps everything; the other releases
  the interfaces, closes the USB handle and frees.  Whether this is the last open device of a context
  that owns its libusb context and has nothing quarantined is decided at the release; then the thread
  is told to end before the USB handle is closed, and joined after it.
\<close>

inductive close_step :: "status_sys \<Rightarrow> status_sys \<Rightarrow> bool" where
  "s_main s = M_running \<Longrightarrow> close_step s (s\<lparr> s_main := M_stop_streams \<rparr>)"
| "s_main s = M_running \<Longrightarrow> close_step s (s\<lparr> s_main := M_stop_enter \<rparr>)"
| "s_main s = M_stop_streams \<Longrightarrow> s_streams s = Some q \<Longrightarrow>
     close_step s (s\<lparr> s_quarantined_stream := q, s_main := M_stop_enter \<rparr>)"
| "s_main s = M_stopped \<Longrightarrow> s_quarantined_stream s \<or> s_local s \<Longrightarrow>
     close_step s (s\<lparr> s_quarantined_xfer := s_local s, s_main := M_quarantined \<rparr>)"
| "s_main s = M_stopped \<Longrightarrow> \<not> s_quarantined_stream s \<Longrightarrow> \<not> s_local s \<Longrightarrow>
     close_step s (s\<lparr> s_main := M_release \<rparr>)"
| "s_main s = M_release \<Longrightarrow> is_last \<longrightarrow> s_own s \<Longrightarrow>
     close_step s (s\<lparr> s_claimed := False, s_main := (if is_last then M_kill else M_close_usb) \<rparr>)"
| "s_main s = M_kill \<Longrightarrow> close_step s (s\<lparr> s_kill := True, s_main := M_close_last \<rparr>)"
| "s_main s = M_close_last \<Longrightarrow> close_step s (s\<lparr> s_usb_open := False, s_main := M_join \<rparr>)"
| "s_main s = M_join \<Longrightarrow> s_handler s = H_ended \<Longrightarrow> close_step s (s\<lparr> s_main := M_free_lock \<rparr>)"
| "s_main s = M_close_usb \<Longrightarrow> close_step s (s\<lparr> s_usb_open := False, s_main := M_free_lock \<rparr>)"

text \<open>The waits of the streams end, with a stream quarantined or not.\<close>

inductive streams_step :: "status_sys \<Rightarrow> status_sys \<Rightarrow> bool" where
  "s_main s = M_stop_streams \<Longrightarrow> s_streams s = None \<Longrightarrow> streams_step s (s\<lparr> s_streams := Some q \<rparr>)"

text \<open>\<^verbatim>\<open>uvc_free_devh\<close>.\<close>

inductive free_step :: "status_sys \<Rightarrow> status_sys \<Rightarrow> bool" where
  "s_main s = M_free_lock \<Longrightarrow> s_mutex s = None \<Longrightarrow>
     free_step s (s\<lparr> s_mutex := Some Main, s_main := M_free_read \<rparr>)"
| "s_main s = M_free_read \<Longrightarrow> free_step s (s\<lparr> s_local := s_submitted s, s_main := M_free_unlock \<rparr>)"
| "s_main s = M_free_unlock \<Longrightarrow> free_step s (s\<lparr> s_mutex := None, s_main := M_free_xfer \<rparr>)"
| "s_main s = M_free_xfer \<Longrightarrow>
     free_step s (s\<lparr> s_xfer_freed := s_status_xfer s \<and> \<not> s_local s, s_main := M_free_handle \<rparr>)"
| "s_main s = M_free_handle \<Longrightarrow> free_step s (s\<lparr> s_freed := True, s_main := M_gone \<rparr>)"

text \<open>\<^verbatim>\<open>_uvc_status_callback\<close>; a completed transfer is processed before the check.\<close>

inductive callback_step :: "status_sys \<Rightarrow> status_sys \<Rightarrow> bool" where
  "s_event s = E_callback st \<Longrightarrow> st = Error \<or> st = Cancelled \<or> st = No_device \<Longrightarrow>
     callback_step s (s\<lparr> s_event := E_clear_lock \<rparr>)"
| "s_event s = E_callback st \<Longrightarrow> st = Completed \<or> st = Timed_out \<or> st = Stall \<or> st = Overflow \<Longrightarrow>
     callback_step s (s\<lparr> s_event := E_check_lock \<rparr>)"
| "s_event s = E_clear_lock \<Longrightarrow> s_mutex s = None \<Longrightarrow>
     callback_step s (s\<lparr> s_mutex := Some Event, s_event := E_clear \<rparr>)"
| "s_event s = E_clear \<Longrightarrow> callback_step s (s\<lparr> s_submitted := False, s_event := E_unlock \<rparr>)"
| "s_event s = E_check_lock \<Longrightarrow> s_mutex s = None \<Longrightarrow>
     callback_step s (s\<lparr> s_mutex := Some Event, s_event := E_check \<rparr>)"
| "s_event s = E_check \<Longrightarrow>
     callback_step s (s\<lparr> s_event := (if s_stopping s then E_stop_clear else E_submit) \<rparr>)"
| "s_event s = E_stop_clear \<Longrightarrow> callback_step s (s\<lparr> s_submitted := False, s_event := E_unlock \<rparr>)"
| "s_event s = E_submit \<Longrightarrow> callback_step s (s\<lparr> s_in_flight := True, s_event := E_unlock \<rparr>)"
| "s_event s = E_submit \<Longrightarrow> callback_step s (s\<lparr> s_event := E_fail_clear \<rparr>)"
| "s_event s = E_fail_clear \<Longrightarrow> callback_step s (s\<lparr> s_submitted := False, s_event := E_unlock \<rparr>)"
| "s_event s = E_unlock \<Longrightarrow> callback_step s (s\<lparr> s_mutex := None, s_event := E_idle \<rparr>)"

text \<open>libusb completes a transfer it holds and calls the callback on the event thread.\<close>

inductive libusb_step :: "status_sys \<Rightarrow> status_sys \<Rightarrow> bool" where
  "s_in_flight s \<Longrightarrow> s_event s = E_idle \<Longrightarrow> s_handler s = H_events \<Longrightarrow>
     libusb_step s (s\<lparr> s_in_flight := False, s_event := E_callback st \<rparr>)"

text \<open>\<^verbatim>\<open>_uvc_handle_events\<close>: the libusb call returns, and the test of the loop.\<close>

inductive handler_step :: "status_sys \<Rightarrow> status_sys \<Rightarrow> bool" where
  "s_handler s = H_events \<Longrightarrow> s_event s = E_idle \<Longrightarrow> handler_step s (s\<lparr> s_handler := H_test \<rparr>)"
| "s_handler s = H_test \<Longrightarrow> handler_step s (s\<lparr> s_handler := (if s_kill s then H_ended else H_events) \<rparr>)"

inductive main_step :: "status_sys \<Rightarrow> status_sys \<Rightarrow> bool" where
  "open_step s t \<Longrightarrow> main_step s t"
| "stop_step s t \<Longrightarrow> main_step s t"
| "close_step s t \<Longrightarrow> main_step s t"
| "free_step s t \<Longrightarrow> main_step s t"

inductive status_step :: "status_sys \<Rightarrow> status_sys \<Rightarrow> bool" where
  "main_step s t \<Longrightarrow> status_step s t"
| "callback_step s t \<Longrightarrow> status_step s t"
| "libusb_step s t \<Longrightarrow> status_step s t"
| "handler_step s t \<Longrightarrow> status_step s t"
| "streams_step s t \<Longrightarrow> status_step s t"

text \<open>
  After the claim of the control interface: with a status endpoint the open goes on to the first
  submit, without one it is done.  \<open>served\<close> is whether another device of the context has started the
  event thread before, \<open>killed\<close> whether an earlier close has set the flag of the context; without a
  libusb context of its own the events are the caller's to handle.
\<close>

definition status_init :: "bool \<Rightarrow> bool \<Rightarrow> bool \<Rightarrow> bool \<Rightarrow> status_sys" where
  "status_init has_endpoint own served killed = \<lparr> s_status_xfer = has_endpoint, s_submitted = False, s_stopping = False,
     s_quarantined_stream = False, s_quarantined_xfer = False, s_streams = None, s_own = own, s_kill = (own \<and> killed), s_mutex = None,
     s_main = (if has_endpoint then M_open_lock else M_start_thread), s_event = E_idle,
     s_handler = (if own \<and> \<not> served then H_none else H_events), s_local = False,
     s_in_flight = False, s_claimed = True, s_usb_open = True, s_xfer_freed = False, s_freed = False \<rparr>"

inductive reachable :: "status_sys \<Rightarrow> bool" where
  init: "reachable (status_init has_endpoint own served killed)"
| step: "reachable s \<Longrightarrow> status_step s t \<Longrightarrow> reachable t"

section \<open>The invariant\<close>

text \<open>The points at which each thread holds the mutex.\<close>

fun main_holds :: "main_pc \<Rightarrow> bool" where
  "main_holds M_open_mark = True"
| "main_holds M_open_submit = True"
| "main_holds M_open_clear = True"
| "main_holds (M_open_unlock ok) = True"
| "main_holds M_stop_flag = True"
| "main_holds M_stop_read = True"
| "main_holds M_stop_cancel = True"
| "main_holds M_stop_unlock = True"
| "main_holds (M_poll_read n) = True"
| "main_holds (M_poll_unlock n) = True"
| "main_holds M_free_read = True"
| "main_holds M_free_unlock = True"
| "main_holds _ = False"

definition event_holds :: "event_pc \<Rightarrow> bool" where
  "event_holds pc = (case pc of E_clear \<Rightarrow> True | E_check \<Rightarrow> True | E_stop_clear \<Rightarrow> True
     | E_submit \<Rightarrow> True | E_fail_clear \<Rightarrow> True | E_unlock \<Rightarrow> True | _ \<Rightarrow> False)"

text \<open>The event thread is inside the callback and has not yet given the transfer up.\<close>

definition event_owns :: "event_pc \<Rightarrow> bool" where
  "event_owns pc = (pc \<noteq> E_idle \<and> pc \<noteq> E_unlock)"

text \<open>The closing thread goes on only after it saw the flag clear: from here on nothing is pending.\<close>

fun past_stop :: "main_pc \<Rightarrow> bool" where
  "past_stop M_fail_release = True"
| "past_stop M_release = True"
| "past_stop M_close_usb = True"
| "past_stop M_kill = True"
| "past_stop M_close_last = True"
| "past_stop M_join = True"
| "past_stop M_free_lock = True"
| "past_stop M_free_read = True"
| "past_stop M_free_unlock = True"
| "past_stop M_free_xfer = True"
| "past_stop M_free_handle = True"
| "past_stop M_gone = True"
| "past_stop _ = False"

text \<open>The points at which a clear \<open>s_local\<close> means what the closing thread takes it to mean.\<close>

fun local_valid :: "main_pc \<Rightarrow> bool" where
  "local_valid M_stop_cancel = True"
| "local_valid M_stop_unlock = True"
| "local_valid (M_poll n) = True"
| "local_valid (M_poll_lock n) = True"
| "local_valid (M_poll_read n) = True"
| "local_valid (M_poll_unlock n) = True"
| "local_valid M_stopped = True"
| "local_valid _ = False"

text \<open>The opening thread has not handed the transfer to libusb yet, or libusb refused it.\<close>

fun before_flight :: "main_pc \<Rightarrow> bool" where
  "before_flight M_open_lock = True"
| "before_flight M_open_mark = True"
| "before_flight M_open_submit = True"
| "before_flight M_open_clear = True"
| "before_flight (M_open_unlock ok) = (\<not> ok)"
| "before_flight _ = False"

definition quiet :: "status_sys \<Rightarrow> bool" where
  "quiet s = (\<not> s_in_flight s \<and> s_event s = E_idle \<and> \<not> s_submitted s)"

definition status_inv :: "status_sys \<Rightarrow> bool" where
  "status_inv s =
     ((s_mutex s = Some Main \<longleftrightarrow> main_holds (s_main s)) \<and>
      (s_mutex s = Some Event \<longleftrightarrow> event_holds (s_event s)) \<and>
      (s_in_flight s \<or> event_owns (s_event s) \<longrightarrow> s_submitted s \<and> s_status_xfer s) \<and>
      (s_in_flight s \<longrightarrow> \<not> event_owns (s_event s)) \<and>
      (before_flight (s_main s) \<longrightarrow> s_status_xfer s \<and> \<not> s_in_flight s \<and> s_event s = E_idle \<and>
         (s_submitted s \<longleftrightarrow> s_main s = M_open_submit \<or> s_main s = M_open_clear)) \<and>
      (s_status_xfer s \<or> quiet s) \<and>
      (local_valid (s_main s) \<and> \<not> s_local s \<longrightarrow> quiet s) \<and>
      (past_stop (s_main s) \<longrightarrow> quiet s) \<and>
      (s_event s = E_submit \<longrightarrow> \<not> s_stopping s) \<and>
      (\<not> s_claimed s \<or> \<not> s_usb_open s \<or> s_xfer_freed s \<or> s_freed s \<longrightarrow> past_stop (s_main s)))"

lemmas event_pc_defs = event_holds_def event_owns_def

lemma init_inv: "status_inv (status_init e own sv k)"
  by (simp add: status_init_def status_inv_def quiet_def event_pc_defs)

lemma event_between: "\<not> event_owns pc \<Longrightarrow> \<not> event_holds pc \<Longrightarrow> pc = E_idle"
  by (cases pc) (simp_all add: event_pc_defs)

lemma event_pc_simps [simp]: "event_holds E_submit" "\<not> event_holds E_idle" "\<not> event_owns E_idle" "\<not> event_owns E_unlock"
  by (simp_all add: event_pc_defs)

lemma open_step_inv: "open_step s t \<Longrightarrow> status_inv s \<Longrightarrow> status_inv t"
  by (induction rule: open_step.induct) (auto simp: status_inv_def quiet_def dest: event_between)

lemma stop_step_inv: "stop_step s t \<Longrightarrow> status_inv s \<Longrightarrow> status_inv t"
  by (induction rule: stop_step.induct) (auto simp: status_inv_def quiet_def dest: event_between)

lemma close_step_inv: "close_step s t \<Longrightarrow> status_inv s \<Longrightarrow> status_inv t"
  by (induction rule: close_step.induct) (auto simp: status_inv_def quiet_def dest: event_between)

lemma free_step_inv: "free_step s t \<Longrightarrow> status_inv s \<Longrightarrow> status_inv t"
  by (induction rule: free_step.induct) (auto simp: status_inv_def quiet_def dest: event_between)

lemma callback_step_inv: "callback_step s t \<Longrightarrow> status_inv s \<Longrightarrow> status_inv t"
  by (induction rule: callback_step.induct) (auto simp: status_inv_def quiet_def event_pc_defs)

lemma libusb_step_inv: "libusb_step s t \<Longrightarrow> status_inv s \<Longrightarrow> status_inv t"
  by (induction rule: libusb_step.induct) (auto simp: status_inv_def quiet_def event_pc_defs)

lemma handler_step_inv: "handler_step s t \<or> streams_step s t \<Longrightarrow> status_inv s \<Longrightarrow> status_inv t"
  by (elim disjE handler_step.cases streams_step.cases) (auto simp: status_inv_def quiet_def)

lemma main_step_inv: "main_step s t \<Longrightarrow> status_inv s \<Longrightarrow> status_inv t"
  by (erule main_step.cases) (simp_all add: open_step_inv stop_step_inv close_step_inv free_step_inv)

lemma reachable_inv: "reachable s \<Longrightarrow> status_inv s"
proof (induction rule: reachable.induct)
  case (step s t)
  from step(2,3) show ?case
    by cases (blast intro: main_step_inv callback_step_inv libusb_step_inv handler_step_inv)+
qed (rule init_inv)

subsection \<open>What the outcomes leave behind\<close>

text \<open>The polling loop stays within its bound, and the last reads agree with what is freed.\<close>

fun poll_bound :: "main_pc \<Rightarrow> bool" where
  "poll_bound (M_poll_lock n) = (n < LIBUVC_STATUS_STOP_TIMEOUT_MS)"
| "poll_bound (M_poll_read n) = (n < LIBUVC_STATUS_STOP_TIMEOUT_MS)"
| "poll_bound (M_poll_unlock n) = (n < LIBUVC_STATUS_STOP_TIMEOUT_MS)"
| "poll_bound _ = True"

definition outcome_inv :: "status_sys \<Rightarrow> bool" where
  "outcome_inv s =
     (poll_bound (s_main s) \<and>
      (s_main s = M_free_unlock \<or> s_main s = M_free_xfer \<longrightarrow> \<not> s_local s) \<and>
      (s_main s = M_free_handle \<or> s_main s = M_gone \<longrightarrow> s_xfer_freed s = s_status_xfer s) \<and>
      (s_main s = M_gone \<longrightarrow> s_freed s) \<and>
      (s_main s = M_free_lock \<or> s_main s = M_gone \<longrightarrow> \<not> s_claimed s \<and> \<not> s_usb_open s) \<and>
      (s_main s \<in> {M_close_usb, M_kill, M_close_last} \<longrightarrow> \<not> s_claimed s) \<and>
      (s_main s \<in> {M_join, M_free_read, M_free_unlock, M_free_xfer, M_free_handle} \<longrightarrow> \<not> s_claimed s \<and> \<not> s_usb_open s) \<and>
      (s_main s = M_quarantined \<longrightarrow> s_quarantined_stream s \<or> s_quarantined_xfer s))"

lemma main_step_outcome: "main_step s t \<Longrightarrow> status_inv s \<Longrightarrow> outcome_inv s \<Longrightarrow> outcome_inv t"
  by (elim main_step.cases open_step.cases stop_step.cases close_step.cases free_step.cases)
     (simp_all add: outcome_inv_def status_inv_def quiet_def)

lemma event_step_outcome:
  "callback_step s t \<or> libusb_step s t \<or> handler_step s t \<or> streams_step s t \<Longrightarrow> outcome_inv s \<Longrightarrow> outcome_inv t"
  by (elim disjE callback_step.cases libusb_step.cases handler_step.cases streams_step.cases) (simp_all add: outcome_inv_def)

lemma reachable_outcome: "reachable s \<Longrightarrow> outcome_inv s"
proof (induction rule: reachable.induct)
  case (init e own sv k)
  show ?case by (simp add: outcome_inv_def status_init_def)
next
  case (step s t)
  from step(2) show ?case
    by cases (use main_step_outcome event_step_outcome reachable_inv step in blast)+
qed

subsection \<open>The event thread\<close>

text \<open>
  A callback runs inside the libusb call; only before the end of the open, or after it failed, may there
  be no thread; and the closing thread joins it only after it was told to end.
\<close>

fun threadless :: "main_pc \<Rightarrow> bool" where
  "threadless M_open_lock = True"
| "threadless M_open_mark = True"
| "threadless M_open_submit = True"
| "threadless M_open_clear = True"
| "threadless (M_open_unlock ok) = True"
| "threadless M_start_thread = True"
| "threadless M_fail_release = True"
| "threadless M_close_usb = True"
| "threadless M_free_lock = True"
| "threadless M_free_read = True"
| "threadless M_free_unlock = True"
| "threadless M_free_xfer = True"
| "threadless M_free_handle = True"
| "threadless M_gone = True"
| "threadless _ = False"

definition handler_inv :: "status_sys \<Rightarrow> bool" where
  "handler_inv s =
     ((s_event s \<noteq> E_idle \<longrightarrow> s_handler s = H_events) \<and>
      (\<not> threadless (s_main s) \<longrightarrow> s_handler s \<noteq> H_none) \<and>
      (s_main s = M_close_last \<or> s_main s = M_join \<longrightarrow> s_kill s))"

lemma main_step_handler: "main_step s t \<Longrightarrow> handler_inv s \<Longrightarrow> handler_inv t"
  by (elim main_step.cases open_step.cases stop_step.cases close_step.cases free_step.cases)
     (auto simp: handler_inv_def)

lemma event_step_handler:
  "callback_step s t \<or> libusb_step s t \<or> handler_step s t \<or> streams_step s t \<Longrightarrow> handler_inv s \<Longrightarrow> handler_inv t"
  by (elim disjE callback_step.cases libusb_step.cases handler_step.cases streams_step.cases) (auto simp: handler_inv_def)

lemma reachable_handler: "reachable s \<Longrightarrow> handler_inv s"
proof (induction rule: reachable.induct)
  case (init e own sv k)
  show ?case by (simp add: handler_inv_def status_init_def)
next
  case (step s t)
  from step(2) show ?case
    by cases (use main_step_handler event_step_handler step in blast)+
qed

subsection \<open>Progress\<close>

text \<open>A rank that every step of the closing thread lowers; a poll of 2 ms costs four steps.\<close>

fun main_rank :: "main_pc \<Rightarrow> nat" where
  "main_rank M_open_lock = 3000"
| "main_rank M_open_mark = 2999"
| "main_rank M_open_submit = 2998"
| "main_rank M_open_clear = 2997"
| "main_rank (M_open_unlock ok) = 2996"
| "main_rank M_start_thread = 2995"
| "main_rank M_running = 2994"
| "main_rank M_stop_streams = 2993"
| "main_rank M_stop_enter = 2992"
| "main_rank M_stop_lock = 2991"
| "main_rank M_stop_flag = 2990"
| "main_rank M_stop_read = 2989"
| "main_rank M_stop_cancel = 2988"
| "main_rank M_stop_unlock = 2987"
| "main_rank (M_poll n) = 100 + 4 * (502 - n) + 3"
| "main_rank (M_poll_lock n) = 100 + 4 * (502 - n) + 2"
| "main_rank (M_poll_read n) = 100 + 4 * (502 - n) + 1"
| "main_rank (M_poll_unlock n) = 100 + 4 * (502 - n)"
| "main_rank M_stopped = 50"
| "main_rank M_quarantined = 0"
| "main_rank M_fail_release = 44"
| "main_rank M_release = 43"
| "main_rank M_kill = 42"
| "main_rank M_close_last = 41"
| "main_rank M_join = 40"
| "main_rank M_close_usb = 39"
| "main_rank M_free_lock = 38"
| "main_rank M_free_read = 37"
| "main_rank M_free_unlock = 36"
| "main_rank M_free_xfer = 35"
| "main_rank M_free_handle = 34"
| "main_rank M_gone = 0"

lemma main_step_rank: "main_step s t \<Longrightarrow> outcome_inv s \<Longrightarrow> main_rank (s_main t) < main_rank (s_main s)"
  by (elim main_step.cases open_step.cases stop_step.cases close_step.cases free_step.cases)
     (auto simp: outcome_inv_def)

text \<open>The steps the event thread still needs to leave its critical section.\<close>

fun event_rank :: "event_pc \<Rightarrow> nat" where
  "event_rank E_check = 3"
| "event_rank E_submit = 2"
| "event_rank E_clear = 1"
| "event_rank E_stop_clear = 1"
| "event_rank E_fail_clear = 1"
| "event_rank _ = 0"

text \<open>The steps of an event thread that was told to end.\<close>

fun handler_rank :: "handler_pc \<Rightarrow> nat" where
  "handler_rank H_events = 2"
| "handler_rank H_test = 1"
| "handler_rank _ = 0"

lemma handler_ends:
  assumes "s_handler s \<notin> {H_none, H_ended}" and "s_kill s" and "s_event s = E_idle"
  shows "\<exists>t. handler_step s t" and "handler_step s t \<Longrightarrow> handler_rank (s_handler t) < handler_rank (s_handler s)"
proof -
  show "\<exists>t. handler_step s t" using assms by (cases "s_handler s") (auto intro: handler_step.intros)
  show "handler_step s t \<Longrightarrow> handler_rank (s_handler t) < handler_rank (s_handler s)"
    using assms(2) by (elim handler_step.cases) auto
qed

text \<open>The closing thread waits for the streams, or for the event thread to end.\<close>

definition blocked :: "status_sys \<Rightarrow> bool" where
  "blocked s = (s_main s = M_stop_streams \<and> s_streams s = None \<or> s_main s = M_join \<and> s_handler s \<noteq> H_ended)"

lemma event_can_step: "event_holds (s_event s) \<Longrightarrow> \<exists>t. callback_step s t"
  by (cases "s_event s") (auto simp: event_pc_defs intro: callback_step.intros)

lemma main_can_step:
  assumes "s_main s \<notin> {M_quarantined, M_gone}" and "s_mutex s \<noteq> Some Event" and "\<not> blocked s"
    and "s_mutex s = Some Main \<longleftrightarrow> main_holds (s_main s)"
  shows "\<exists>t. main_step s t"
proof -
  have m: "\<not> main_holds (s_main s) \<Longrightarrow> s_mutex s = None" using assms(2,4) by (cases "s_mutex s") (auto, metis owner.exhaust)
  have branch: "s_main s = M_stop_enter \<Longrightarrow> \<exists>t. stop_step s t" "s_main s = M_poll n \<Longrightarrow> \<exists>t. stop_step s t"
    "s_main s = M_stopped \<Longrightarrow> \<exists>t. close_step s t" for n
    by (cases "s_status_xfer s", blast intro: stop_step.intros, blast intro: stop_step.intros)
       (cases "s_local s \<and> n < LIBUVC_STATUS_STOP_TIMEOUT_MS", blast intro: stop_step.intros, blast intro: stop_step.intros,
        cases "s_quarantined_stream s \<or> s_local s", blast intro: close_step.intros, blast intro: close_step.intros)
  have "\<exists>t. open_step s t \<or> stop_step s t \<or> close_step s t \<or> free_step s t"
    using assms(1,3) m branch
    by (cases "s_main s") (auto simp: blocked_def intro: open_step.intros stop_step.intros close_step.intros free_step.intros)
  then show ?thesis by (blast intro: main_step.intros)
qed

section \<open>Properties\<close>

text \<open>
  C2: in every reachable state, on every schedule, as long as libusb holds the status transfer or
  the event thread is anywhere inside its callback, the VideoControl interface is still claimed,
  the USB handle is open, and neither the transfer nor the device handle is freed: no URB reaches
  a released interface and no late callback touches freed memory.  And once the stop has begun, the
  callback is never about to resubmit the transfer.
\<close>

theorem status_xfer_safe:
  assumes "reachable s" and "s_in_flight s \<or> s_event s \<noteq> E_idle"
  shows "s_claimed s \<and> s_usb_open s \<and> \<not> s_xfer_freed s \<and> \<not> s_freed s \<and> (s_event s = E_submit \<longrightarrow> \<not> s_stopping s)"
  using reachable_inv [OF assms(1)] assms(2) by (auto simp: status_inv_def quiet_def)

definition sample_flight :: status_sys where
  "sample_flight = (status_init True True False False)\<lparr> s_submitted := True, s_in_flight := True, s_handler := H_test, s_main := M_running \<rparr>"

lemma sample_flight_reachable: "reachable sample_flight"
proof -
  note o = status_step.intros(1) [OF main_step.intros(1)]
  let ?s0 = "status_init True True False False"
  let ?s1 = "?s0\<lparr> s_mutex := Some Main, s_main := M_open_mark \<rparr>"
  let ?s2 = "?s1\<lparr> s_submitted := True, s_main := M_open_submit \<rparr>"
  let ?s3 = "?s2\<lparr> s_in_flight := True, s_main := M_open_unlock True \<rparr>"
  let ?s4 = "?s3\<lparr> s_mutex := None, s_main := M_start_thread \<rparr>"
  have "reachable ?s1" by (rule reachable.step [OF reachable.init o [OF open_step.intros(1)]]) (simp_all add: status_init_def)
  then have "reachable ?s2" by (rule reachable.step [OF _ o [OF open_step.intros(2)]]) simp
  then have "reachable ?s3" by (rule reachable.step [OF _ o [OF open_step.intros(3)]]) simp
  then have "reachable (?s3\<lparr> s_mutex := None, s_main := (if True then M_start_thread else M_fail_release) \<rparr>)"
    by (rule reachable.step [OF _ o [OF open_step.intros(6)]]) simp
  then have "reachable ?s4" by simp
  then have "reachable (?s4\<lparr> s_handler := (if s_handler ?s4 = H_none then H_test else s_handler ?s4), s_main := M_running \<rparr>)"
    by (rule reachable.step [OF _ o [OF open_step.intros(7)]]) simp
  then show ?thesis by (simp add: sample_flight_def status_init_def)
qed

theorem status_xfer_safe_witness: "s_in_flight sample_flight \<and> s_claimed sample_flight \<and> \<not> s_freed sample_flight"
  using status_xfer_safe [OF sample_flight_reachable] by (simp add: sample_flight_def)

text \<open>
  C20: where a close ends.  Quarantined: something still was pending (a stream, or the status flag at
  the last poll), and interface, USB handle, transfer and device handle are all kept.  Gone: the
  interface is released, the USB handle closed, the device handle freed, and the transfer freed if
  there was one, so nothing is leaked.
\<close>

theorem status_close_outcomes:
  assumes "reachable s"
  shows "(s_main s = M_quarantined \<longrightarrow> (s_quarantined_stream s \<or> s_quarantined_xfer s) \<and>
       s_claimed s \<and> s_usb_open s \<and> \<not> s_xfer_freed s \<and> \<not> s_freed s) \<and>
    (s_main s = M_gone \<longrightarrow> \<not> s_claimed s \<and> \<not> s_usb_open s \<and> s_freed s \<and>
       s_xfer_freed s = s_status_xfer s \<and> \<not> s_in_flight s \<and> s_event s = E_idle)"
proof -
  have "\<not> s_claimed s \<or> \<not> s_usb_open s \<or> s_xfer_freed s \<or> s_freed s \<longrightarrow> past_stop (s_main s)"
    "past_stop (s_main s) \<longrightarrow> quiet s"
    using reachable_inv [OF assms] unfolding status_inv_def by blast+
  moreover note reachable_outcome [OF assms, unfolded outcome_inv_def]
  ultimately show ?thesis unfolding quiet_def by (metis past_stop.simps)
qed

text \<open>
  A camera without a status endpoint, the last open device: the closing thread on its way to the join, and
  the end.
\<close>

definition sample_close :: "bool \<Rightarrow> bool \<Rightarrow> handler_pc \<Rightarrow> main_pc \<Rightarrow> status_sys" where
  "sample_close claimed kill h pc = (status_init False True False False)\<lparr> s_handler := h, s_claimed := claimed, s_kill := kill,
     s_usb_open := pc \<notin> {M_join, M_free_lock, M_free_read, M_free_unlock, M_free_xfer, M_free_handle, M_gone}, s_main := pc \<rparr>"

lemma sample_join_reachable: "reachable (sample_close False True H_test M_join)"
proof -
  note o = status_step.intros(1) [OF main_step.intros(1)] and c = status_step.intros(1) [OF main_step.intros(3)]
    and st = status_step.intros(1) [OF main_step.intros(2)]
  have "open_step (status_init False True False False) (sample_close True False H_test M_running)"
    using open_step.intros(7) [of "status_init False True False False"] by (simp add: status_init_def sample_close_def)
  then have "reachable (sample_close True False H_test M_running)" by (rule reachable.step [OF reachable.init o])
  moreover have "close_step (sample_close True False H_test M_running) (sample_close True False H_test M_stop_enter)"
    using close_step.intros(2) [of "sample_close True False H_test M_running"] by (simp add: status_init_def sample_close_def)
  ultimately have "reachable (sample_close True False H_test M_stop_enter)" by (rule reachable.step [OF _ c])
  moreover have "stop_step (sample_close True False H_test M_stop_enter) (sample_close True False H_test M_stopped)"
    using stop_step.intros(1) [of "sample_close True False H_test M_stop_enter"] by (simp add: status_init_def sample_close_def)
  ultimately have "reachable (sample_close True False H_test M_stopped)" by (rule reachable.step [OF _ st])
  moreover have "close_step (sample_close True False H_test M_stopped) (sample_close True False H_test M_release)"
    using close_step.intros(5) [of "sample_close True False H_test M_stopped"] by (simp add: status_init_def sample_close_def)
  ultimately have "reachable (sample_close True False H_test M_release)" by (rule reachable.step [OF _ c])
  moreover have "close_step (sample_close True False H_test M_release) (sample_close False False H_test M_kill)"
    using close_step.intros(6) [of "sample_close True False H_test M_release" True] by (simp add: status_init_def sample_close_def)
  ultimately have "reachable (sample_close False False H_test M_kill)" by (rule reachable.step [OF _ c])
  moreover have "close_step (sample_close False False H_test M_kill) (sample_close False True H_test M_close_last)"
    using close_step.intros(7) [of "sample_close False False H_test M_kill"] by (simp add: status_init_def sample_close_def)
  ultimately have "reachable (sample_close False True H_test M_close_last)" by (rule reachable.step [OF _ c])
  moreover have "close_step (sample_close False True H_test M_close_last) (sample_close False True H_test M_join)"
    using close_step.intros(8) [of "sample_close False True H_test M_close_last"] by (simp add: status_init_def sample_close_def)
  ultimately show ?thesis by (rule reachable.step [OF _ c])
qed

definition sample_gone :: status_sys where
  "sample_gone = (sample_close False True H_ended M_gone)\<lparr> s_freed := True \<rparr>"

lemma sample_gone_reachable: "reachable sample_gone"
proof -
  note c = status_step.intros(1) [OF main_step.intros(3)] and f = status_step.intros(1) [OF main_step.intros(4)]
  let ?s = "sample_close False True H_ended"
  have "handler_step (sample_close False True H_test M_join) (?s M_join)"
    using handler_step.intros(2) [of "sample_close False True H_test M_join"] by (simp add: status_init_def sample_close_def)
  then have "reachable (?s M_join)" by (rule reachable.step [OF sample_join_reachable status_step.intros(4)])
  moreover have "close_step (?s M_join) (?s M_free_lock)"
    using close_step.intros(9) [of "?s M_join"] by (simp add: status_init_def sample_close_def)
  ultimately have "reachable (?s M_free_lock)" by (rule reachable.step [OF _ c])
  moreover have "free_step (?s M_free_lock) ((?s M_free_read)\<lparr> s_mutex := Some Main \<rparr>)"
    using free_step.intros(1) [of "?s M_free_lock"] by (simp add: status_init_def sample_close_def)
  ultimately have "reachable ((?s M_free_read)\<lparr> s_mutex := Some Main \<rparr>)" by (rule reachable.step [OF _ f])
  moreover have "free_step ((?s M_free_read)\<lparr> s_mutex := Some Main \<rparr>) ((?s M_free_unlock)\<lparr> s_mutex := Some Main \<rparr>)"
    using free_step.intros(2) [of "(?s M_free_read)\<lparr> s_mutex := Some Main \<rparr>"] by (simp add: status_init_def sample_close_def)
  ultimately have "reachable ((?s M_free_unlock)\<lparr> s_mutex := Some Main \<rparr>)" by (rule reachable.step [OF _ f])
  moreover have "free_step ((?s M_free_unlock)\<lparr> s_mutex := Some Main \<rparr>) (?s M_free_xfer)"
    using free_step.intros(3) [of "(?s M_free_unlock)\<lparr> s_mutex := Some Main \<rparr>"] by (simp add: status_init_def sample_close_def)
  ultimately have "reachable (?s M_free_xfer)" by (rule reachable.step [OF _ f])
  moreover have "free_step (?s M_free_xfer) (?s M_free_handle)"
    using free_step.intros(4) [of "?s M_free_xfer"] by (simp add: status_init_def sample_close_def)
  ultimately have "reachable (?s M_free_handle)" by (rule reachable.step [OF _ f])
  moreover have "free_step (?s M_free_handle) sample_gone"
    using free_step.intros(5) [of "?s M_free_handle"] by (simp add: status_init_def sample_close_def sample_gone_def)
  ultimately show ?thesis by (rule reachable.step [OF _ f])
qed

theorem status_close_outcomes_witness:
  "s_main sample_gone = M_gone \<and> \<not> s_claimed sample_gone \<and> \<not> s_usb_open sample_gone \<and> s_freed sample_gone"
  using status_close_outcomes [OF sample_gone_reachable] by (simp add: sample_gone_def sample_close_def)

text \<open>
  C21: how a close ends.  Every step of the closing thread lowers a rank bounded by 3000, and no other
  step moves it, so it takes at most that many steps, whatever the event thread and libusb do in between.
  When it cannot step before it is done, it waits for one of three: for the streams to stop; for the mutex,
  which the event thread holds, can step with, and comes nearer to giving back with each step; or in the
  join for the event thread, which was told to end, runs no callback and has no transfer to run one for,
  can step, and comes nearer to its end with each step.  A device that never completes the status
  transfer cannot hang it.
\<close>

theorem status_close_ends:
  assumes "reachable s"
  shows "main_rank (s_main s) \<le> 3000 \<and>
    (\<forall>t. main_step s t \<longrightarrow> main_rank (s_main t) < main_rank (s_main s)) \<and>
    (\<forall>t. status_step s t \<longrightarrow> main_step s t \<or> s_main t = s_main s) \<and>
    (s_main s \<in> {M_quarantined, M_gone} \<or> (\<exists>t. main_step s t) \<or>
      (s_main s = M_stop_streams \<and> s_streams s = None) \<or>
      (s_mutex s = Some Event \<and> (\<exists>t. callback_step s t) \<and>
       (\<forall>t. callback_step s t \<longrightarrow> event_rank (s_event t) < event_rank (s_event s) \<or> s_mutex t = None)) \<or>
      (s_main s = M_join \<and> s_event s = E_idle \<and> \<not> s_in_flight s \<and> (\<exists>t. handler_step s t) \<and>
       (\<forall>t. handler_step s t \<longrightarrow> handler_rank (s_handler t) < handler_rank (s_handler s))))"
proof (intro conjI)
  show "main_rank (s_main s) \<le> 3000" by (cases "s_main s") auto
  show "\<forall>t. main_step s t \<longrightarrow> main_rank (s_main t) < main_rank (s_main s)"
    using main_step_rank reachable_outcome [OF assms] by blast
  show "\<forall>t. status_step s t \<longrightarrow> main_step s t \<or> s_main t = s_main s"
    by (auto elim!: status_step.cases callback_step.cases libusb_step.cases handler_step.cases streams_step.cases)
  have inv: "s_mutex s = Some Main \<longleftrightarrow> main_holds (s_main s)" "s_mutex s = Some Event \<longleftrightarrow> event_holds (s_event s)"
    "past_stop (s_main s) \<longrightarrow> quiet s"
    using reachable_inv [OF assms] by (simp_all add: status_inv_def)
  show "s_main s \<in> {M_quarantined, M_gone} \<or> (\<exists>t. main_step s t) \<or>
      (s_main s = M_stop_streams \<and> s_streams s = None) \<or>
      (s_mutex s = Some Event \<and> (\<exists>t. callback_step s t) \<and>
       (\<forall>t. callback_step s t \<longrightarrow> event_rank (s_event t) < event_rank (s_event s) \<or> s_mutex t = None)) \<or>
      (s_main s = M_join \<and> s_event s = E_idle \<and> \<not> s_in_flight s \<and> (\<exists>t. handler_step s t) \<and>
       (\<forall>t. handler_step s t \<longrightarrow> handler_rank (s_handler t) < handler_rank (s_handler s)))"
  proof (cases "s_mutex s = Some Event")
    case True
    moreover have "event_rank (s_event t) < event_rank (s_event s) \<or> s_mutex t = None" if "callback_step s t" for t
      using that True inv(2) by cases (auto simp: event_pc_defs)
    ultimately show ?thesis using inv(2) event_can_step by blast
  next
    case False
    show ?thesis
    proof (cases "s_main s = M_join \<and> s_handler s \<noteq> H_ended")
      case True
      then have "s_kill s" "s_handler s \<notin> {H_none, H_ended}" "s_event s = E_idle" "\<not> s_in_flight s"
        using reachable_handler [OF assms] inv(3) by (auto simp: handler_inv_def quiet_def)
      then show ?thesis using handler_ends [of s] True by blast
    next
      case go: False
      then show ?thesis using main_can_step [OF _ False _ inv(1)] by (auto simp: blocked_def)
    qed
  qed
qed

text \<open>In the join, with the event thread at the test of its loop.\<close>

theorem status_close_ends_witness:
  "\<exists>t. handler_step (sample_close False True H_test M_join) t \<and>
     handler_rank (s_handler t) < handler_rank (s_handler (sample_close False True H_test M_join))"
proof -
  let ?s = "sample_close False True H_test M_join"
  have "\<not> main_step ?s t" for t
    by (auto simp: sample_close_def elim!: main_step.cases open_step.cases stop_step.cases close_step.cases free_step.cases)
  then show ?thesis using status_close_ends [OF sample_join_reachable] by (auto simp: sample_close_def status_init_def)
qed

end
