(* ===== verification/Stream_Ctrl.thy ===== *)
theory Stream_Ctrl
  imports Desc_Parse Claim "HOL-Library.Signed_Division"
begin

text \<open>
  Stream negotiation (stream.c): the format table, the probe and commit queries with their wire
  format, the search for a frame, and the negotiation.  \<^verbatim>\<open>libusb_control_transfer\<close> is a parameter:
  it gets the request, the first \<open>len\<close> bytes of the buffer and the USB state, and yields its return
  value, the bytes it wrote to the front of the buffer, and the new state.
\<close>

section \<open>Formats\<close>

text \<open>\<^verbatim>\<open>UNKNOWN\<close> and \<^verbatim>\<open>ANY\<close> are the same value of the enum; \<^verbatim>\<open>COUNT\<close> stands for a value with no entry.\<close>

datatype uvc_frame_format =
    FORMAT_ANY | FORMAT_UNCOMPRESSED | FORMAT_COMPRESSED | FORMAT_YUYV | FORMAT_UYVY | FORMAT_RGB
  | FORMAT_BGR | FORMAT_MJPEG | FORMAT_H264 | FORMAT_H265 | FORMAT_GRAY8 | FORMAT_GRAY16 | FORMAT_BY8
  | FORMAT_BA81 | FORMAT_SGRBG8 | FORMAT_SGBRG8 | FORMAT_SRGGB8 | FORMAT_SBGGR8 | FORMAT_NV12
  | FORMAT_P010 | FORMAT_COUNT

record format_table_entry =
  fe_format :: uvc_frame_format
  fe_abstract_fmt :: bool
  fe_guid :: bytes
  fe_children :: "uvc_frame_format list"

text \<open>Both macros store 0 in \<^verbatim>\<open>abstract_fmt\<close>; the abstract formats have a zero GUID.\<close>

definition ABS_FMT :: "uvc_frame_format \<Rightarrow> uvc_frame_format list \<Rightarrow> format_table_entry option" where
  "ABS_FMT f cs = Some \<lparr> fe_format = f, fe_abstract_fmt = False, fe_guid = replicate 16 0, fe_children = cs \<rparr>"

definition FMT :: "uvc_frame_format \<Rightarrow> bytes \<Rightarrow> format_table_entry option" where
  "FMT f guid = Some \<lparr> fe_format = f, fe_abstract_fmt = False, fe_guid = guid, fe_children = [] \<rparr>"

abbreviation guid_tail :: bytes where
  "guid_tail \<equiv> [0x00, 0x00, 0x10, 0x00, 0x80, 0x00, 0x00, 0xaa, 0x00, 0x38, 0x9b, 0x71]"

fun get_format_entry :: "uvc_frame_format \<Rightarrow> format_table_entry option" where
  "get_format_entry FORMAT_ANY = ABS_FMT FORMAT_ANY [FORMAT_UNCOMPRESSED, FORMAT_COMPRESSED]"
| "get_format_entry FORMAT_UNCOMPRESSED = ABS_FMT FORMAT_UNCOMPRESSED
     [FORMAT_YUYV, FORMAT_UYVY, FORMAT_GRAY8, FORMAT_GRAY16, FORMAT_NV12, FORMAT_P010, FORMAT_BGR, FORMAT_RGB]"
| "get_format_entry FORMAT_YUYV = FMT FORMAT_YUYV ([0x59, 0x55, 0x59, 0x32] @ guid_tail)"
| "get_format_entry FORMAT_UYVY = FMT FORMAT_UYVY ([0x55, 0x59, 0x56, 0x59] @ guid_tail)"
| "get_format_entry FORMAT_GRAY8 = FMT FORMAT_GRAY8 ([0x59, 0x38, 0x30, 0x30] @ guid_tail)"
| "get_format_entry FORMAT_GRAY16 = FMT FORMAT_GRAY16 ([0x59, 0x31, 0x36, 0x20] @ guid_tail)"
| "get_format_entry FORMAT_NV12 = FMT FORMAT_NV12 ([0x4e, 0x56, 0x31, 0x32] @ guid_tail)"
| "get_format_entry FORMAT_P010 = FMT FORMAT_P010 ([0x50, 0x30, 0x31, 0x30] @ guid_tail)"
| "get_format_entry FORMAT_BGR = FMT FORMAT_BGR
     [0x7d, 0xeb, 0x36, 0xe4, 0x4f, 0x52, 0xce, 0x11, 0x9f, 0x53, 0x00, 0x20, 0xaf, 0x0b, 0xa7, 0x70]"
| "get_format_entry FORMAT_RGB = FMT FORMAT_RGB
     [0x7e, 0xeb, 0x36, 0xe4, 0x4f, 0x52, 0xce, 0x11, 0x9f, 0x53, 0x00, 0x20, 0xaf, 0x0b, 0xa7, 0x70]"
| "get_format_entry FORMAT_BY8 = FMT FORMAT_BY8 ([0x42, 0x59, 0x38, 0x20] @ guid_tail)"
| "get_format_entry FORMAT_BA81 = FMT FORMAT_BA81 ([0x42, 0x41, 0x38, 0x31] @ guid_tail)"
| "get_format_entry FORMAT_SGRBG8 = FMT FORMAT_SGRBG8 ([0x47, 0x52, 0x42, 0x47] @ guid_tail)"
| "get_format_entry FORMAT_SGBRG8 = FMT FORMAT_SGBRG8 ([0x47, 0x42, 0x52, 0x47] @ guid_tail)"
| "get_format_entry FORMAT_SRGGB8 = FMT FORMAT_SRGGB8 ([0x52, 0x47, 0x47, 0x42] @ guid_tail)"
| "get_format_entry FORMAT_SBGGR8 = FMT FORMAT_SBGGR8 ([0x42, 0x47, 0x47, 0x52] @ guid_tail)"
| "get_format_entry FORMAT_COMPRESSED = ABS_FMT FORMAT_COMPRESSED [FORMAT_MJPEG, FORMAT_H264, FORMAT_H265]"
| "get_format_entry FORMAT_MJPEG = FMT FORMAT_MJPEG ([0x4d, 0x4a, 0x50, 0x47] @ replicate 12 0)"
| "get_format_entry FORMAT_H264 = FMT FORMAT_H264 ([0x48, 0x32, 0x36, 0x34] @ guid_tail)"
| "get_format_entry FORMAT_H265 = FMT FORMAT_H265 ([0x48, 0x32, 0x36, 0x35] @ guid_tail)"
| "get_format_entry FORMAT_COUNT = None"

text \<open>The depth of the table below a format, for the recursion over children.\<close>

fun format_depth :: "uvc_frame_format \<Rightarrow> nat" where
  "format_depth FORMAT_ANY = 2"
| "format_depth FORMAT_UNCOMPRESSED = 1"
| "format_depth FORMAT_COMPRESSED = 1"
| "format_depth _ = 0"

lemma format_depth_child:
  "get_format_entry f = Some e \<Longrightarrow> c \<in> set (fe_children e) \<Longrightarrow> format_depth c < format_depth f"
  by (cases f) (auto simp: ABS_FMT_def FMT_def)

function uvc_frame_format_matches_guid :: "uvc_frame_format \<Rightarrow> bytes \<Rightarrow> bool" where
  "uvc_frame_format_matches_guid fmt guid =
     (case get_format_entry fmt of
        None \<Rightarrow> False
      | Some e \<Rightarrow> \<not> fe_abstract_fmt e \<and> take 16 guid = fe_guid e \<or>
          list_ex (\<lambda>c. uvc_frame_format_matches_guid c guid) (fe_children e))"
  by pat_completeness auto
termination
  by (relation "measure (format_depth \<circ> fst)") (auto intro: format_depth_child)

declare uvc_frame_format_matches_guid.simps [simp del]

text \<open>The enum in numeric order, and the search through it.\<close>

definition all_formats :: "uvc_frame_format list" where
  "all_formats = [FORMAT_ANY, FORMAT_UNCOMPRESSED, FORMAT_COMPRESSED, FORMAT_YUYV, FORMAT_UYVY, FORMAT_RGB,
     FORMAT_BGR, FORMAT_MJPEG, FORMAT_H264, FORMAT_H265, FORMAT_GRAY8, FORMAT_GRAY16, FORMAT_BY8, FORMAT_BA81,
     FORMAT_SGRBG8, FORMAT_SGBRG8, FORMAT_SRGGB8, FORMAT_SBGGR8, FORMAT_NV12, FORMAT_P010]"

fun find_format :: "uvc_frame_format list \<Rightarrow> bytes \<Rightarrow> uvc_frame_format" where
  "find_format [] guid = FORMAT_ANY"
| "find_format (fmt # fmts) guid =
     (case get_format_entry fmt of
        None \<Rightarrow> find_format fmts guid
      | Some e \<Rightarrow> if fe_abstract_fmt e then find_format fmts guid
                  else if fe_guid e = take 16 guid then fe_format e else find_format fmts guid)"

definition uvc_frame_format_for_guid :: "bytes \<Rightarrow> uvc_frame_format" where
  "uvc_frame_format_for_guid guid = find_format all_formats guid"

section \<open>Control blocks on the wire\<close>

record uvc_stream_ctrl =
  sc_bmHint :: u16
  sc_bFormatIndex :: u8
  sc_bFrameIndex :: u8
  sc_dwFrameInterval :: u32
  sc_wKeyFrameRate :: u16
  sc_wPFrameRate :: u16
  sc_wCompQuality :: u16
  sc_wCompWindowSize :: u16
  sc_wDelay :: u16
  sc_dwMaxVideoFrameSize :: u32
  sc_dwMaxPayloadTransferSize :: u32
  sc_dwClockFrequency :: u32
  sc_bmFramingInfo :: u8
  sc_bPreferredVersion :: u8
  sc_bMinVersion :: u8
  sc_bMaxVersion :: u8
  sc_bInterfaceNumber :: u8

record uvc_still_ctrl =
  st_bFormatIndex :: u8
  st_bFrameIndex :: u8
  st_bCompressionIndex :: u8
  st_dwMaxVideoFrameSize :: u32
  st_dwMaxPayloadTransferSize :: u32
  st_bInterfaceNumber :: u8

text \<open>bmRequestType, bRequest, wValue, wIndex, data, USB state.\<close>

type_synonym 'u control_transfer = "u8 \<Rightarrow> u8 \<Rightarrow> u16 \<Rightarrow> u16 \<Rightarrow> bytes \<Rightarrow> 'u \<Rightarrow> int \<times> bytes \<times> 'u"

abbreviation UVC_SET_CUR :: u8 where "UVC_SET_CUR \<equiv> 0x01"
abbreviation UVC_GET_CUR :: u8 where "UVC_GET_CUR \<equiv> 0x81"
abbreviation UVC_GET_MAX :: u8 where "UVC_GET_MAX \<equiv> 0x83"

text \<open>What the transfer leaves in a buffer: the bytes written, cut to its size, before the rest.\<close>

definition overlay :: "bytes \<Rightarrow> bytes \<Rightarrow> bytes" where
  "overlay written buf = take (length buf) (written @ drop (length written) buf)"

definition stream_ctrl_len :: "uvc_device_info \<Rightarrow> nat" where
  "stream_ctrl_len info = (if ci_bcdUVC (in_ctrl_if info) \<ge> 0x0110 then 34 else 26)"

text \<open>The 34-byte buffer of a SET query.\<close>

definition enc_stream_ctrl :: "nat \<Rightarrow> uvc_stream_ctrl \<Rightarrow> bytes" where
  "enc_stream_ctrl len c =
     SHORT_TO_SW (sc_bmHint c) @ [sc_bFormatIndex c, sc_bFrameIndex c] @ INT_TO_DW (sc_dwFrameInterval c) @
     SHORT_TO_SW (sc_wKeyFrameRate c) @ SHORT_TO_SW (sc_wPFrameRate c) @ SHORT_TO_SW (sc_wCompQuality c) @
     SHORT_TO_SW (sc_wCompWindowSize c) @ SHORT_TO_SW (sc_wDelay c) @
     INT_TO_DW (sc_dwMaxVideoFrameSize c) @ INT_TO_DW (sc_dwMaxPayloadTransferSize c) @
     (if len = 34
      then INT_TO_DW (sc_dwClockFrequency c) @
        [sc_bmFramingInfo c, sc_bPreferredVersion c, sc_bMinVersion c, sc_bMaxVersion c]
      else replicate 8 0)"

text \<open>The decoding after a GET query, before the fixups.\<close>

definition dec_stream_ctrl :: "nat \<Rightarrow> bytes \<Rightarrow> uvc_stream_ctrl \<Rightarrow> uvc_stream_ctrl option" where
  "dec_stream_ctrl len buf c = do {
     hint \<leftarrow> SW_TO_SHORT buf 0; fo \<leftarrow> rd buf 2; fr \<leftarrow> rd buf 3; iv \<leftarrow> DW_TO_INT buf 4;
     kf \<leftarrow> SW_TO_SHORT buf 8; pf \<leftarrow> SW_TO_SHORT buf 10; cq \<leftarrow> SW_TO_SHORT buf 12;
     cw \<leftarrow> SW_TO_SHORT buf 14; dl \<leftarrow> SW_TO_SHORT buf 16;
     mf \<leftarrow> DW_TO_INT buf 18; mp \<leftarrow> DW_TO_INT buf 22;
     let c = c\<lparr> sc_bmHint := hint, sc_bFormatIndex := fo, sc_bFrameIndex := fr, sc_dwFrameInterval := iv,
       sc_wKeyFrameRate := kf, sc_wPFrameRate := pf, sc_wCompQuality := cq, sc_wCompWindowSize := cw,
       sc_wDelay := dl, sc_dwMaxVideoFrameSize := mf, sc_dwMaxPayloadTransferSize := mp \<rparr>;
     if len = 34 then do {
       fi \<leftarrow> rd buf 30; pv \<leftarrow> rd buf 31; mn \<leftarrow> rd buf 32; mx \<leftarrow> rd buf 33;
       Some (c\<lparr> sc_bmFramingInfo := fi, sc_bPreferredVersion := pv, sc_bMinVersion := mn,
         sc_bMaxVersion := mx \<rparr>) }
     else Some c }"

section \<open>Finding a frame\<close>

text \<open>The ids are 16 bits wide in the interface and compared with 8-bit fields.\<close>

fun find_frame :: "uvc_frame_desc list \<Rightarrow> u16 \<Rightarrow> uvc_frame_desc option" where
  "find_frame [] frame_id = None"
| "find_frame (fr # frs) frame_id =
     (if ucast (fr_bFrameIndex fr) = frame_id then Some fr else find_frame frs frame_id)"

fun find_in_formats :: "uvc_format_desc list \<Rightarrow> u16 \<Rightarrow> u16 \<Rightarrow> uvc_frame_desc option" where
  "find_in_formats [] format_id frame_id = None"
| "find_in_formats (f # fs) format_id frame_id =
     (if ucast (fo_bFormatIndex f) = format_id
      then (case find_frame (fo_frame_descs f) frame_id of
              Some fr \<Rightarrow> Some fr | None \<Rightarrow> find_in_formats fs format_id frame_id)
      else find_in_formats fs format_id frame_id)"

definition uvc_find_frame_desc_stream_if ::
  "uvc_streaming_interface \<Rightarrow> u16 \<Rightarrow> u16 \<Rightarrow> uvc_frame_desc option" where
  "uvc_find_frame_desc_stream_if si format_id frame_id = find_in_formats (si_format_descs si) format_id frame_id"

fun find_in_ifs :: "uvc_streaming_interface list \<Rightarrow> u16 \<Rightarrow> u16 \<Rightarrow> uvc_frame_desc option" where
  "find_in_ifs [] format_id frame_id = None"
| "find_in_ifs (si # sis) format_id frame_id =
     (case uvc_find_frame_desc_stream_if si format_id frame_id of
        Some fr \<Rightarrow> Some fr | None \<Rightarrow> find_in_ifs sis format_id frame_id)"

definition uvc_find_frame_desc :: "uvc_device_info \<Rightarrow> u16 \<Rightarrow> u16 \<Rightarrow> uvc_frame_desc option" where
  "uvc_find_frame_desc info format_id frame_id = find_in_ifs (in_stream_ifs info) format_id frame_id"

section \<open>Queries\<close>

text \<open>The fixups for cameras that leave the maxima zero.\<close>

definition fixup_max :: "uvc_device_info \<Rightarrow> uvc_stream_ctrl \<Rightarrow> uvc_stream_ctrl" where
  "fixup_max info c =
     (let frame = uvc_find_frame_desc info (ucast (sc_bFormatIndex c)) (ucast (sc_bFrameIndex c));
          c = (if sc_dwMaxVideoFrameSize c = 0
               then case frame of None \<Rightarrow> c | Some fr \<Rightarrow> c\<lparr> sc_dwMaxVideoFrameSize := fr_dwMaxVideoFrameBufferSize fr \<rparr>
               else c)
      in if sc_dwMaxPayloadTransferSize c = 0
         then case frame of None \<Rightarrow> c | Some fr \<Rightarrow> c\<lparr> sc_dwMaxPayloadTransferSize := fr_dwMaxBitRate fr \<rparr>
         else c)"

definition uvc_query_stream_ctrl ::
  "'u control_transfer \<Rightarrow> uvc_device_info \<Rightarrow> bool \<Rightarrow> u8 \<Rightarrow> uvc_stream_ctrl \<Rightarrow> 'u
   \<Rightarrow> (int \<times> uvc_stream_ctrl \<times> 'u) option" where
  "uvc_query_stream_ctrl ct info probe req c u = do {
     let len = stream_ctrl_len info;
     let buf = (if req = UVC_SET_CUR then enc_stream_ctrl len c else replicate 34 0);
     let (err, written, u) = ct (if req = UVC_SET_CUR then 0x21 else 0xA1) req
       (if probe then 0x0100 else 0x0200) (ucast (sc_bInterfaceNumber c)) (take len buf) u;
     let buf = overlay written buf;
     if err \<le> 0 then Some (err, c, u)
     else if req \<noteq> UVC_SET_CUR then do {
       c \<leftarrow> dec_stream_ctrl len buf c;
       Some (UVC_SUCCESS, fixup_max info (c\<lparr> sc_dwClockFrequency := ci_dwClockFrequency (in_ctrl_if info) \<rparr>), u) }
     else Some (UVC_SUCCESS, c, u) }"

definition enc_still_ctrl :: "uvc_still_ctrl \<Rightarrow> bytes" where
  "enc_still_ctrl c = [st_bFormatIndex c, st_bFrameIndex c, st_bCompressionIndex c] @
     INT_TO_DW (st_dwMaxVideoFrameSize c) @ INT_TO_DW (st_dwMaxPayloadTransferSize c)"

definition uvc_query_still_ctrl ::
  "'u control_transfer \<Rightarrow> bool \<Rightarrow> u8 \<Rightarrow> uvc_still_ctrl \<Rightarrow> 'u \<Rightarrow> (int \<times> uvc_still_ctrl \<times> 'u) option" where
  "uvc_query_still_ctrl ct probe req c u = do {
     let buf = (if req = UVC_SET_CUR then enc_still_ctrl c else replicate 11 0);
     let (err, written, u) = ct (if req = UVC_SET_CUR then 0x21 else 0xA1) req
       (if probe then 0x0300 else 0x0400) (ucast (st_bInterfaceNumber c)) buf u;
     let buf = overlay written buf;
     if err \<le> 0 then Some (err, c, u)
     else if req \<noteq> UVC_SET_CUR then do {
       fo \<leftarrow> rd buf 0; fr \<leftarrow> rd buf 1; ci \<leftarrow> rd buf 2; mf \<leftarrow> DW_TO_INT buf 3; mp \<leftarrow> DW_TO_INT buf 7;
       Some (UVC_SUCCESS, c\<lparr> st_bFormatIndex := fo, st_bFrameIndex := fr, st_bCompressionIndex := ci,
         st_dwMaxVideoFrameSize := mf, st_dwMaxPayloadTransferSize := mp \<rparr>, u) }
     else Some (UVC_SUCCESS, c, u) }"

section \<open>Negotiation\<close>

definition uvc_stream_params_negotiated :: "uvc_stream_ctrl \<Rightarrow> uvc_stream_ctrl \<Rightarrow> bool" where
  "uvc_stream_params_negotiated required actual =
     (sc_bFormatIndex required = sc_bFormatIndex actual \<and>
      sc_bFrameIndex required = sc_bFrameIndex actual \<and>
      sc_dwMaxPayloadTransferSize required \<ge> sc_dwMaxPayloadTransferSize actual)"

definition uvc_probe_stream_ctrl ::
  "'u control_transfer \<Rightarrow> uvc_device_info \<Rightarrow> uvc_stream_ctrl \<Rightarrow> 'u \<Rightarrow> (int \<times> uvc_stream_ctrl \<times> 'u) option" where
  "uvc_probe_stream_ctrl ct info c u = do {
     let required_ctrl = c;
     (result, c, u) \<leftarrow> uvc_query_stream_ctrl ct info True UVC_SET_CUR c u;
     if result \<noteq> UVC_SUCCESS then Some (result, c, u)
     else do {
       (result, c, u) \<leftarrow> uvc_query_stream_ctrl ct info True UVC_GET_CUR c u;
       if result \<noteq> UVC_SUCCESS then Some (result, c, u)
       else if \<not> uvc_stream_params_negotiated required_ctrl c then Some (UVC_ERROR_INVALID_MODE, c, u)
       else Some (UVC_SUCCESS, c, u) } }"

definition uvc_probe_still_ctrl ::
  "'u control_transfer \<Rightarrow> uvc_still_ctrl \<Rightarrow> 'u \<Rightarrow> (int \<times> uvc_still_ctrl \<times> 'u) option" where
  "uvc_probe_still_ctrl ct c u = do {
     (res, c, u) \<leftarrow> uvc_query_still_ctrl ct True UVC_SET_CUR c u;
     if res = UVC_SUCCESS then do {
       (res, c, u) \<leftarrow> uvc_query_still_ctrl ct True UVC_GET_CUR c u;
       if res = UVC_SUCCESS then uvc_query_still_ctrl ct False UVC_SET_CUR c u
       else Some (res, c, u) }
     else Some (res, c, u) }"

text \<open>
  The walk over a zero-terminated interval array: \<^term>\<open>None\<close> when it runs off the array, else the
  first interval that gives the wanted rate.
\<close>

fun pick_interval :: "u32 list \<Rightarrow> int \<Rightarrow> u32 option option" where
  "pick_interval [] fps = None"
| "pick_interval (v # vs) fps =
     (if v = 0 then Some None
      else if 10000000 div v = of_int fps \<or> fps = 0 then Some (Some v)
      else pick_interval vs fps)"

text \<open>The continuous case: a signed division by the rate, a remainder by the step.\<close>

definition fit_interval :: "uvc_frame_desc \<Rightarrow> int \<Rightarrow> u32 option option" where
  "fit_interval fr fps =
     (if fps = 0 then None
      else let interval_100ns = of_int (10000000 sdiv fps);
               interval_offset = interval_100ns - fr_dwMinFrameInterval fr
           in if interval_100ns \<ge> fr_dwMinFrameInterval fr \<and> interval_100ns \<le> fr_dwMaxFrameInterval fr
              then if interval_offset = 0 then Some (Some interval_100ns)
                   else if fr_dwFrameIntervalStep fr = 0 then None
                   else if interval_offset mod fr_dwFrameIntervalStep fr = 0 then Some (Some interval_100ns)
                   else Some None
              else Some None)"

definition frame_interval :: "uvc_frame_desc \<Rightarrow> int \<Rightarrow> u32 option option" where
  "frame_interval fr fps =
     (case fr_intervals fr of Some ivs \<Rightarrow> pick_interval ivs fps | None \<Rightarrow> fit_interval fr fps)"

text \<open>
  The three nested loops of \<^verbatim>\<open>uvc_get_stream_ctrl_format_size\<close>.  The flag says whether the search
  jumped to \<^verbatim>\<open>found\<close>.  The USB operations act on the handle's USB state.
\<close>

fun try_frames ::
  "'u libusb_if_ops \<Rightarrow> guard_source \<Rightarrow> 'u control_transfer \<Rightarrow> uvc_device_info \<Rightarrow> int \<Rightarrow> int \<Rightarrow> int
   \<Rightarrow> uvc_streaming_interface \<Rightarrow> uvc_format_desc \<Rightarrow> uvc_frame_desc list \<Rightarrow> uvc_stream_ctrl \<Rightarrow> 'u devh_claims
   \<Rightarrow> (bool \<times> uvc_stream_ctrl \<times> 'u devh_claims) option" where
  "try_frames ops gs ct info width height fps si format [] c d = Some (False, c, d)"
| "try_frames ops gs ct info width height fps si format (fr # frs) c d =
     (if uint (fr_wWidth fr) \<noteq> width \<or> uint (fr_wHeight fr) \<noteq> height
      then try_frames ops gs ct info width height fps si format frs c d
      else do {
        let c = c\<lparr> sc_bInterfaceNumber := si_bInterfaceNumber si \<rparr>;
        (_, d) \<leftarrow> uvc_claim_if ops gs (unat (sc_bInterfaceNumber c)) d;
        (_, c, u) \<leftarrow> uvc_query_stream_ctrl ct info True UVC_GET_MAX c (dc_usb d);
        let d = d\<lparr> dc_usb := u \<rparr>;
        iv \<leftarrow> frame_interval fr fps;
        case iv of
          Some v \<Rightarrow> Some (True, c\<lparr> sc_bmHint := 1, sc_bFormatIndex := fo_bFormatIndex format,
            sc_bFrameIndex := fr_bFrameIndex fr, sc_dwFrameInterval := v \<rparr>, d)
        | None \<Rightarrow> try_frames ops gs ct info width height fps si format frs c d })"

fun try_formats ::
  "'u libusb_if_ops \<Rightarrow> guard_source \<Rightarrow> 'u control_transfer \<Rightarrow> uvc_device_info \<Rightarrow> uvc_frame_format \<Rightarrow> int \<Rightarrow> int \<Rightarrow> int
   \<Rightarrow> uvc_streaming_interface \<Rightarrow> uvc_format_desc list \<Rightarrow> uvc_stream_ctrl \<Rightarrow> 'u devh_claims
   \<Rightarrow> (bool \<times> uvc_stream_ctrl \<times> 'u devh_claims) option" where
  "try_formats ops gs ct info cf width height fps si [] c d = Some (False, c, d)"
| "try_formats ops gs ct info cf width height fps si (format # fs) c d =
     (if \<not> uvc_frame_format_matches_guid cf (fo_guidFormat format)
      then try_formats ops gs ct info cf width height fps si fs c d
      else do {
        (found, c, d) \<leftarrow> try_frames ops gs ct info width height fps si format (fo_frame_descs format) c d;
        if found then Some (True, c, d) else try_formats ops gs ct info cf width height fps si fs c d })"

fun try_ifs ::
  "'u libusb_if_ops \<Rightarrow> guard_source \<Rightarrow> 'u control_transfer \<Rightarrow> uvc_device_info \<Rightarrow> uvc_frame_format \<Rightarrow> int \<Rightarrow> int \<Rightarrow> int
   \<Rightarrow> uvc_streaming_interface list \<Rightarrow> uvc_stream_ctrl \<Rightarrow> 'u devh_claims
   \<Rightarrow> (bool \<times> uvc_stream_ctrl \<times> 'u devh_claims) option" where
  "try_ifs ops gs ct info cf width height fps [] c d = Some (False, c, d)"
| "try_ifs ops gs ct info cf width height fps (si # sis) c d = do {
     (found, c, d) \<leftarrow> try_formats ops gs ct info cf width height fps si (si_format_descs si) c d;
     if found then Some (True, c, d) else try_ifs ops gs ct info cf width height fps sis c d }"

definition uvc_get_stream_ctrl_format_size ::
  "'u libusb_if_ops \<Rightarrow> guard_source \<Rightarrow> 'u control_transfer \<Rightarrow> uvc_device_info \<Rightarrow> uvc_frame_format \<Rightarrow> int \<Rightarrow> int \<Rightarrow> int
   \<Rightarrow> uvc_stream_ctrl \<Rightarrow> 'u devh_claims \<Rightarrow> (int \<times> uvc_stream_ctrl \<times> 'u devh_claims) option" where
  "uvc_get_stream_ctrl_format_size ops gs ct info cf width height fps c d = do {
     (found, c, d) \<leftarrow> try_ifs ops gs ct info cf width height fps (in_stream_ifs info) c d;
     if \<not> found then Some (UVC_ERROR_INVALID_MODE, c, d)
     else do {
       (r, c, u) \<leftarrow> uvc_probe_stream_ctrl ct info c (dc_usb d);
       Some (r, c, d\<lparr> dc_usb := u \<rparr>) } }"

text \<open>Still images: the interface of the stream, then the first size pattern that fits.\<close>

fun uvc_get_stream_if :: "uvc_streaming_interface list \<Rightarrow> u8 \<Rightarrow> uvc_streaming_interface option" where
  "uvc_get_stream_if [] idx = None"
| "uvc_get_stream_if (si # sis) idx =
     (if si_bInterfaceNumber si = idx then Some si else uvc_get_stream_if sis idx)"

fun find_pattern :: "uvc_still_frame_res list \<Rightarrow> int \<Rightarrow> int \<Rightarrow> uvc_still_frame_res option" where
  "find_pattern [] width height = None"
| "find_pattern (r # rs) width height =
     (if uint (sr_wWidth r) \<noteq> width \<or> uint (sr_wHeight r) \<noteq> height then find_pattern rs width height else Some r)"

fun find_still :: "uvc_still_frame_desc list \<Rightarrow> int \<Rightarrow> int \<Rightarrow> uvc_still_frame_res option" where
  "find_still [] width height = None"
| "find_still (s # ss) width height =
     (case find_pattern (sf_imageSizePatterns s) width height of
        Some r \<Rightarrow> Some r | None \<Rightarrow> find_still ss width height)"

fun try_still_formats ::
  "'u control_transfer \<Rightarrow> uvc_stream_ctrl \<Rightarrow> int \<Rightarrow> int \<Rightarrow> uvc_format_desc list \<Rightarrow> uvc_still_ctrl \<Rightarrow> 'u
   \<Rightarrow> (bool \<times> uvc_still_ctrl \<times> 'u) option" where
  "try_still_formats ct ctrl width height [] sc u = Some (False, sc, u)"
| "try_still_formats ct ctrl width height (f # fs) sc u =
     (if sc_bFormatIndex ctrl \<noteq> fo_bFormatIndex f then try_still_formats ct ctrl width height fs sc u
      else do {
        (_, sc, u) \<leftarrow> uvc_query_still_ctrl ct True UVC_GET_MAX sc u;
        case find_still (fo_still_frame_desc f) width height of
          Some r \<Rightarrow> Some (True, sc\<lparr> st_bInterfaceNumber := sc_bInterfaceNumber ctrl,
            st_bFormatIndex := fo_bFormatIndex f, st_bFrameIndex := sr_bResolutionIndex r,
            st_bCompressionIndex := 0 \<rparr>, u)
        | None \<Rightarrow> try_still_formats ct ctrl width height fs sc u })"

definition uvc_get_still_ctrl_format_size ::
  "'u control_transfer \<Rightarrow> uvc_device_info \<Rightarrow> uvc_stream_ctrl \<Rightarrow> int \<Rightarrow> int \<Rightarrow> uvc_still_ctrl \<Rightarrow> 'u
   \<Rightarrow> (int \<times> uvc_still_ctrl \<times> 'u) option" where
  "uvc_get_still_ctrl_format_size ct info ctrl width height sc u =
     (case uvc_get_stream_if (in_stream_ifs info) (sc_bInterfaceNumber ctrl) of
        None \<Rightarrow> Some (UVC_ERROR_NOT_SUPPORTED, sc, u)
      | Some si \<Rightarrow>
          if si_bStillCaptureMethod si \<noteq> 2 then Some (UVC_ERROR_NOT_SUPPORTED, sc, u)
          else do {
            (found, sc, u) \<leftarrow> try_still_formats ct ctrl width height (si_format_descs si) sc u;
            if found then uvc_probe_still_ctrl ct sc u else Some (UVC_ERROR_INVALID_MODE, sc, u) })"


section \<open>Lemmas\<close>

subsection \<open>The format table\<close>

abbreviation abstract_formats :: "uvc_frame_format list" where
  "abstract_formats \<equiv> [FORMAT_ANY, FORMAT_UNCOMPRESSED, FORMAT_COMPRESSED]"

lemma all_formats_complete: "f \<noteq> FORMAT_COUNT \<Longrightarrow> f \<in> set all_formats"
  by (cases f) (simp_all add: all_formats_def)

definition format_guid :: "uvc_frame_format \<Rightarrow> bytes" where
  "format_guid f = (case get_format_entry f of Some e \<Rightarrow> fe_guid e | None \<Rightarrow> [])"

lemma for_guid_table:
  "list_all (\<lambda>f. uvc_frame_format_for_guid (format_guid f) = (if f \<in> set abstract_formats then FORMAT_ANY else f)) all_formats"
  by code_simp

lemma matches_leaf:
  "get_format_entry f = FMT f g \<Longrightarrow> uvc_frame_format_matches_guid f guid \<longleftrightarrow> take 16 guid = format_guid f"
  by (subst uvc_frame_format_matches_guid.simps) (simp add: FMT_def format_guid_def)

lemma matches_abstract:
  "get_format_entry f = ABS_FMT f cs \<Longrightarrow> uvc_frame_format_matches_guid f guid \<longleftrightarrow>
     take 16 guid = replicate 16 0 \<or> list_ex (\<lambda>c. uvc_frame_format_matches_guid c guid) cs"
  by (subst uvc_frame_format_matches_guid.simps) (simp add: ABS_FMT_def)

lemmas matches_leaves = matches_leaf [OF get_format_entry.simps(3)] matches_leaf [OF get_format_entry.simps(4)]
  matches_leaf [OF get_format_entry.simps(5)] matches_leaf [OF get_format_entry.simps(6)]
  matches_leaf [OF get_format_entry.simps(7)] matches_leaf [OF get_format_entry.simps(8)]
  matches_leaf [OF get_format_entry.simps(9)] matches_leaf [OF get_format_entry.simps(10)]
  matches_leaf [OF get_format_entry.simps(18)] matches_leaf [OF get_format_entry.simps(19)]
  matches_leaf [OF get_format_entry.simps(20)]

lemma matches_any:
  "uvc_frame_format_matches_guid FORMAT_ANY guid \<longleftrightarrow>
     take 16 guid = replicate 16 0 \<or>
     take 16 guid \<in> set (map format_guid [FORMAT_YUYV, FORMAT_UYVY, FORMAT_GRAY8, FORMAT_GRAY16, FORMAT_NV12,
       FORMAT_P010, FORMAT_BGR, FORMAT_RGB, FORMAT_MJPEG, FORMAT_H264, FORMAT_H265])"
  unfolding matches_abstract [OF get_format_entry.simps(1)] list_ex_iff list.set bex_simps
    matches_abstract [OF get_format_entry.simps(2)] matches_abstract [OF get_format_entry.simps(17)] matches_leaves
    list.map insert_iff empty_iff by blast

subsection \<open>Queries\<close>

lemma length_overlay [simp]: "length (overlay w buf) = length buf"
  by (simp add: overlay_def)

lemma length_enc_stream_ctrl [simp]: "length (enc_stream_ctrl len c) = 34"
  by (simp add: enc_stream_ctrl_def)

lemma length_enc_still_ctrl [simp]: "length (enc_still_ctrl c) = 11"
  by (simp add: enc_still_ctrl_def)

lemma dec_stream_ctrl_Some: "length buf = 34 \<Longrightarrow> \<exists>c'. dec_stream_ctrl len buf c = Some c'"
  by (simp add: dec_stream_ctrl_def rd_Some SW_TO_SHORT_Some DW_TO_INT_Some Let_def)

lemma dec_stream_ctrl_if:
  "dec_stream_ctrl len buf c = Some c' \<Longrightarrow> length buf = 34 \<Longrightarrow> sc_bInterfaceNumber c' = sc_bInterfaceNumber c"
  by (auto simp: dec_stream_ctrl_def rd_Some SW_TO_SHORT_Some DW_TO_INT_Some Let_def split: if_splits)

lemma fixup_max_simps [simp]:
  "sc_bInterfaceNumber (fixup_max info c) = sc_bInterfaceNumber c"
  "sc_bFormatIndex (fixup_max info c) = sc_bFormatIndex c"
  "sc_bFrameIndex (fixup_max info c) = sc_bFrameIndex c"
  by (auto simp: fixup_max_def Let_def split: option.splits)

lemma fixup_max_id: "sc_dwMaxVideoFrameSize c \<noteq> 0 \<Longrightarrow> sc_dwMaxPayloadTransferSize c \<noteq> 0 \<Longrightarrow> fixup_max info c = c"
  by (simp add: fixup_max_def)

lemma query_Some: "\<exists>r c' u'. uvc_query_stream_ctrl ct info probe req c u = Some (r, c', u')"
proof -
  let ?buf = "if req = UVC_SET_CUR then enc_stream_ctrl (stream_ctrl_len info) c else replicate 34 0"
  obtain err w u' where t: "ct (if req = UVC_SET_CUR then 0x21 else 0xA1) req
       (if probe then 0x0100 else 0x0200) (ucast (sc_bInterfaceNumber c)) (take (stream_ctrl_len info) ?buf) u = (err, w, u')"
    by (metis prod_cases3)
  have "length (overlay w ?buf) = 34" by simp
  then obtain c' where "dec_stream_ctrl (stream_ctrl_len info) (overlay w ?buf) c = Some c'"
    using dec_stream_ctrl_Some by blast
  with t show ?thesis by (auto simp: uvc_query_stream_ctrl_def Let_def)
qed

lemma query_set_keeps:
  "uvc_query_stream_ctrl ct info probe UVC_SET_CUR c u = Some (r, c', u') \<Longrightarrow> c' = c"
  by (auto simp: uvc_query_stream_ctrl_def Let_def split: prod.splits if_splits)

lemma query_if:
  "uvc_query_stream_ctrl ct info probe req c u = Some (r, c', u') \<Longrightarrow> sc_bInterfaceNumber c' = sc_bInterfaceNumber c"
  by (auto simp: uvc_query_stream_ctrl_def Let_def bind_eq_Some_conv dest: dec_stream_ctrl_if
      split: prod.splits if_splits)

lemma dec_enc_stream_ctrl:
  assumes "len = 34 \<or> len = 26"
  shows "dec_stream_ctrl len (enc_stream_ctrl len c) c = Some c"
  using assms
  by (cases c) (auto simp: dec_stream_ctrl_def enc_stream_ctrl_def uvc_codec Let_def)

lemma probe_negotiated:
  "uvc_probe_stream_ctrl ct info c u = Some (UVC_SUCCESS, c', u') \<Longrightarrow> uvc_stream_params_negotiated c c' \<and>
     sc_bInterfaceNumber c' = sc_bInterfaceNumber c"
  by (auto simp: uvc_probe_stream_ctrl_def bind_eq_Some_conv Let_def dest: query_set_keeps query_if split: if_splits)

lemma probe_Some: "\<exists>r c' u'. uvc_probe_stream_ctrl ct info c u = Some (r, c', u')"
proof -
  obtain r1 c1 u1 where 1: "uvc_query_stream_ctrl ct info True UVC_SET_CUR c u = Some (r1, c1, u1)"
    using query_Some [of ct info True UVC_SET_CUR c u] by blast
  obtain r2 c2 u2 where 2: "uvc_query_stream_ctrl ct info True UVC_GET_CUR c1 u1 = Some (r2, c2, u2)"
    using query_Some [of ct info True UVC_GET_CUR c1 u1] by blast
  from 1 2 show ?thesis by (auto simp: uvc_probe_stream_ctrl_def)
qed

subsection \<open>Intervals\<close>

lemma pick_interval_Some: "0 \<in> set ivs \<Longrightarrow> pick_interval ivs fps \<noteq> None"
  by (induction ivs) auto

lemma frame_interval_None:
  assumes "frame_desc_wf fr"
  shows "frame_interval fr fps = None \<longleftrightarrow> fr_intervals fr = None \<and> (fps = 0 \<or>
    (let v = of_int (10000000 sdiv fps) in fr_dwMinFrameInterval fr < v \<and> v \<le> fr_dwMaxFrameInterval fr \<and>
      fr_dwFrameIntervalStep fr = 0))"
proof (cases "fr_intervals fr")
  case (Some ivs)
  with assms have "0 \<in> set ivs" by (auto simp: frame_desc_wf_def) (metis last_in_set length_0_conv nat.distinct(1) add_is_0)
  with Some pick_interval_Some [of ivs fps] show ?thesis by (simp add: frame_interval_def)
next
  case None
  have "(v :: u32) - m = 0 \<longleftrightarrow> v = m" for v m by simp
  with None show ?thesis by (auto simp: frame_interval_def fit_interval_def Let_def split: if_splits)
qed

subsection \<open>The search\<close>

text \<open>A frame answers a request when its size fits and it offers the rate.\<close>

definition frame_fits :: "int \<Rightarrow> int \<Rightarrow> int \<Rightarrow> uvc_frame_desc \<Rightarrow> bool" where
  "frame_fits width height fps fr = (uint (fr_wWidth fr) = width \<and> uint (fr_wHeight fr) = height \<and>
     (\<exists>v. frame_interval fr fps = Some (Some v)))"

definition selects :: "uvc_stream_ctrl \<Rightarrow> uvc_streaming_interface \<Rightarrow> uvc_format_desc \<Rightarrow> uvc_frame_desc \<Rightarrow> bool" where
  "selects c si f fr = (sc_bInterfaceNumber c = si_bInterfaceNumber si \<and>
     sc_bFormatIndex c = fo_bFormatIndex f \<and> sc_bFrameIndex c = fr_bFrameIndex fr)"

lemma try_frames_correct:
  assumes "try_frames ops gs ct info w h fps si f frs c d = Some (found, c', d')"
  shows "(found \<longleftrightarrow> list_ex (frame_fits w h fps) frs) \<and>
    (found \<longrightarrow> (\<exists>fr \<in> set frs. frame_fits w h fps fr \<and> selects c' si f fr))"
  using assms
proof (induction frs arbitrary: c d)
  case (Cons fr frs)
  show ?case
  proof (cases "uint (fr_wWidth fr) \<noteq> w \<or> uint (fr_wHeight fr) \<noteq> h")
    case True
    with Cons show ?thesis by (auto simp: frame_fits_def)
  next
    case False
    let ?c = "c\<lparr> sc_bInterfaceNumber := si_bInterfaceNumber si \<rparr>"
    from False Cons.prems obtain r1 d1 r2 c2 u2 iv where
      q: "uvc_query_stream_ctrl ct info True UVC_GET_MAX ?c (dc_usb d1) = Some (r2, c2, u2)"
      and iv: "frame_interval fr fps = Some iv"
      and rest: "(case iv of
          Some v \<Rightarrow> Some (True, c2\<lparr> sc_bmHint := 1, sc_bFormatIndex := fo_bFormatIndex f,
            sc_bFrameIndex := fr_bFrameIndex fr, sc_dwFrameInterval := v \<rparr>, d1\<lparr> dc_usb := u2 \<rparr>)
        | None \<Rightarrow> try_frames ops gs ct info w h fps si f frs c2 (d1\<lparr> dc_usb := u2 \<rparr>)) = Some (found, c', d')"
      by (auto simp: bind_eq_Some_conv Let_def)
    show ?thesis
    proof (cases iv)
      case None
      with Cons.IH rest iv show ?thesis by (auto simp: frame_fits_def)
    next
      case (Some v)
      have "sc_bInterfaceNumber c2 = si_bInterfaceNumber si" using query_if [OF q] by simp
      with Some rest iv False show ?thesis by (auto simp: frame_fits_def selects_def)
    qed
  qed
qed simp

lemma try_formats_correct:
  assumes "try_formats ops gs ct info cf w h fps si fs c d = Some (found, c', d')"
  shows "(found \<longleftrightarrow> list_ex (\<lambda>f. uvc_frame_format_matches_guid cf (fo_guidFormat f) \<and>
        list_ex (frame_fits w h fps) (fo_frame_descs f)) fs) \<and>
    (found \<longrightarrow> (\<exists>f \<in> set fs. uvc_frame_format_matches_guid cf (fo_guidFormat f) \<and>
        (\<exists>fr \<in> set (fo_frame_descs f). frame_fits w h fps fr \<and> selects c' si f fr)))"
  using assms
proof (induction fs arbitrary: c d)
  case (Cons f fs)
  show ?case
  proof (cases "uvc_frame_format_matches_guid cf (fo_guidFormat f)")
    case False
    with Cons show ?thesis by auto
  next
    case True
    with Cons.prems obtain b c1 d1 where
      t: "try_frames ops gs ct info w h fps si f (fo_frame_descs f) c d = Some (b, c1, d1)"
      and rest: "(if b then Some (True, c1, d1) else try_formats ops gs ct info cf w h fps si fs c1 d1) = Some (found, c', d')"
      by (auto simp: bind_eq_Some_conv)
    show ?thesis
      using try_frames_correct [OF t] rest Cons.IH [of c1 d1] True by (cases b) auto
  qed
qed simp

lemma try_ifs_correct:
  assumes "try_ifs ops gs ct info cf w h fps sis c d = Some (found, c', d')"
  shows "(found \<longleftrightarrow> list_ex (\<lambda>si. list_ex (\<lambda>f. uvc_frame_format_matches_guid cf (fo_guidFormat f) \<and>
        list_ex (frame_fits w h fps) (fo_frame_descs f)) (si_format_descs si)) sis) \<and>
    (found \<longrightarrow> (\<exists>si \<in> set sis. \<exists>f \<in> set (si_format_descs si). uvc_frame_format_matches_guid cf (fo_guidFormat f) \<and>
        (\<exists>fr \<in> set (fo_frame_descs f). frame_fits w h fps fr \<and> selects c' si f fr)))"
  using assms
proof (induction sis arbitrary: c d)
  case (Cons si sis)
  from Cons.prems obtain b c1 d1 where
    t: "try_formats ops gs ct info cf w h fps si (si_format_descs si) c d = Some (b, c1, d1)"
    and rest: "(if b then Some (True, c1, d1) else try_ifs ops gs ct info cf w h fps sis c1 d1) = Some (found, c', d')"
    by (auto simp: bind_eq_Some_conv)
  show ?case using try_formats_correct [OF t] rest Cons.IH [of c1 d1] by (cases b) auto
qed simp


section \<open>Properties\<close>

text \<open>
  A device that keeps the last block it was sent and returns it, and a libusb on which every
  interface call succeeds: concrete parameters for the instances below.
\<close>

definition mirror :: "bytes control_transfer" where
  "mirror bmRequestType bRequest wValue wIndex buf u =
     (if bmRequestType = 0x21 then (int (length buf), [], buf) else (int (length u), u, u))"

definition ok_ops :: "'u libusb_if_ops" where
  "ok_ops = \<lparr> op_detach_kernel_driver = (\<lambda>i u. (0, u)), op_claim_interface = (\<lambda>i u. (0, u)),
     op_attach_kernel_driver = (\<lambda>i u. (0, u)), op_set_interface_alt_setting = (\<lambda>i a u. (0, u)),
     op_release_interface = (\<lambda>i u. (0, u)) \<rparr>"

definition stream_ctrl0 :: uvc_stream_ctrl where
  "stream_ctrl0 = \<lparr> sc_bmHint = 0, sc_bFormatIndex = 0, sc_bFrameIndex = 0, sc_dwFrameInterval = 0,
     sc_wKeyFrameRate = 0, sc_wPFrameRate = 0, sc_wCompQuality = 0, sc_wCompWindowSize = 0, sc_wDelay = 0,
     sc_dwMaxVideoFrameSize = 16, sc_dwMaxPayloadTransferSize = 3072, sc_dwClockFrequency = 0,
     sc_bmFramingInfo = 0, sc_bPreferredVersion = 0, sc_bMinVersion = 0, sc_bMaxVersion = 0,
     sc_bInterfaceNumber = 1 \<rparr>"

definition plain_devh :: "'u \<Rightarrow> 'u devh_claims" where
  "plain_devh u = \<lparr> dc_claimed = 1, dc_reattach_guard = None, dc_usb = u,
     dc_guard_res = \<lparr> gr_blocks = 0, gr_maps = 0, gr_fds = [], gr_helpers = 0 \<rparr>, dc_past = [] \<rparr>"

text \<open>
  C13: a negotiation that succeeds has selected what was asked for: the control block names the
  interface, format and frame of a descriptor whose GUID matches the requested format, whose size
  is the requested one and which offers the requested rate; the interval in the block is the device's
  own, which the code does not compare.  When no descriptor fits, the result is
  \<^verbatim>\<open>UVC_ERROR_INVALID_MODE\<close>.  This holds for every device and every libusb.
\<close>

theorem negotiation_selects:
  assumes "uvc_get_stream_ctrl_format_size ops gs ct info cf w h fps c d = Some (r, c', d')"
  shows "(r = UVC_SUCCESS \<longrightarrow> (\<exists>si \<in> set (in_stream_ifs info). \<exists>f \<in> set (si_format_descs si).
       uvc_frame_format_matches_guid cf (fo_guidFormat f) \<and>
       (\<exists>fr \<in> set (fo_frame_descs f). frame_fits w h fps fr \<and> selects c' si f fr))) \<and>
    (\<not> list_ex (\<lambda>si. list_ex (\<lambda>f. uvc_frame_format_matches_guid cf (fo_guidFormat f) \<and>
        list_ex (frame_fits w h fps) (fo_frame_descs f)) (si_format_descs si)) (in_stream_ifs info) \<longrightarrow>
     r = UVC_ERROR_INVALID_MODE)"
proof -
  from assms obtain found c1 d1 where
    t: "try_ifs ops gs ct info cf w h fps (in_stream_ifs info) c d = Some (found, c1, d1)"
    by (auto simp: uvc_get_stream_ctrl_format_size_def bind_eq_Some_conv)
  note search = try_ifs_correct [OF t]
  show ?thesis
  proof (cases found)
    case False
    with assms t search show ?thesis by (auto simp: uvc_get_stream_ctrl_format_size_def)
  next
    case True
    with assms t obtain u where p: "uvc_probe_stream_ctrl ct info c1 (dc_usb d1) = Some (r, c', u)"
      by (auto simp: uvc_get_stream_ctrl_format_size_def bind_eq_Some_conv)
    have "selects c' si f fr" if "r = UVC_SUCCESS" "selects c1 si f fr" for si f fr
      using probe_negotiated [of ct info c1 "dc_usb d1" c' u] p that
      by (auto simp: selects_def uvc_stream_params_negotiated_def)
    with True search show ?thesis by blast
  qed
qed

theorem negotiation_selects_witness:
  "\<exists>c' d'. uvc_get_stream_ctrl_format_size ok_ops sample_source mirror sample_info FORMAT_ANY 4 2 15 stream_ctrl0
       (plain_devh (enc_stream_ctrl 26 stream_ctrl0)) = Some (UVC_SUCCESS, c', d') \<and>
     (\<exists>si \<in> set (in_stream_ifs sample_info). \<exists>f \<in> set (si_format_descs si).
        \<exists>fr \<in> set (fo_frame_descs f). selects c' si f fr)"
proof -
  have "map_option fst (uvc_get_stream_ctrl_format_size ok_ops sample_source mirror sample_info FORMAT_ANY 4 2 15
      stream_ctrl0 (plain_devh (enc_stream_ctrl 26 stream_ctrl0))) = Some 0" by code_simp
  then obtain c' d' where e: "uvc_get_stream_ctrl_format_size ok_ops sample_source mirror sample_info FORMAT_ANY 4 2 15
      stream_ctrl0 (plain_devh (enc_stream_ctrl 26 stream_ctrl0)) = Some (UVC_SUCCESS, c', d')" by auto
  from negotiation_selects [OF e] e show ?thesis by blast
qed

text \<open>
  C32: for every device, whatever it answers, a probe that reports success leaves a block with the
  requested interface, format and frame and a payload size not above the requested one.  Both queries
  are total: no answer makes the decoder read outside its buffer.
\<close>

theorem probe_total_and_sound:
  "\<exists>r c' u'. uvc_probe_stream_ctrl ct info c u = Some (r, c', u') \<and>
     (r = UVC_SUCCESS \<longrightarrow> sc_bFormatIndex c' = sc_bFormatIndex c \<and> sc_bFrameIndex c' = sc_bFrameIndex c \<and>
        sc_dwMaxPayloadTransferSize c' \<le> sc_dwMaxPayloadTransferSize c \<and>
        sc_bInterfaceNumber c' = sc_bInterfaceNumber c)"
proof -
  obtain r c' u' where p: "uvc_probe_stream_ctrl ct info c u = Some (r, c', u')" using probe_Some [of ct info c u] by blast
  then show ?thesis using probe_negotiated [of ct info c u c' u'] by (auto simp: uvc_stream_params_negotiated_def)
qed

text \<open>A device that answers with a smaller payload size than it was asked for: the probe succeeds with it.\<close>

definition modest :: "bytes control_transfer" where
  "modest bmRequestType bRequest wValue wIndex buf u =
     (if bmRequestType = 0x21 then (int (length buf), [], buf[22 := 0, 23 := 1]) else (int (length u), u, u))"

theorem probe_total_and_sound_witness:
  "\<exists>c' u'. uvc_probe_stream_ctrl modest sample_info stream_ctrl0 [] = Some (UVC_SUCCESS, c', u') \<and>
     sc_dwMaxPayloadTransferSize c' = 256 \<and> sc_dwMaxPayloadTransferSize c' \<le> sc_dwMaxPayloadTransferSize stream_ctrl0 \<and>
     sc_bInterfaceNumber c' = 1"
proof -
  have e: "map_option (\<lambda>(r, c, u). (r, sc_dwMaxPayloadTransferSize c)) (uvc_probe_stream_ctrl modest sample_info stream_ctrl0 []) =
    Some (UVC_SUCCESS, 256)" by code_simp
  obtain r c' u' where p: "uvc_probe_stream_ctrl modest sample_info stream_ctrl0 [] = Some (r, c', u')"
    "r = UVC_SUCCESS \<longrightarrow> sc_dwMaxPayloadTransferSize c' \<le> sc_dwMaxPayloadTransferSize stream_ctrl0 \<and>
      sc_bInterfaceNumber c' = sc_bInterfaceNumber stream_ctrl0"
    using probe_total_and_sound [of modest sample_info stream_ctrl0 "[]"] by blast
  then show ?thesis using e by (auto simp: stream_ctrl0_def)
qed

text \<open>
  Round trip over the wire, for both block lengths: a device that accepts the block as it was
  sent negotiates it unchanged, except that the clock frequency is the enumerated one.
\<close>

lemma probe_roundtrip:
  assumes "sc_dwMaxVideoFrameSize c \<noteq> 0" and "sc_dwMaxPayloadTransferSize c \<noteq> 0"
  shows "uvc_probe_stream_ctrl mirror info c u =
    Some (UVC_SUCCESS, c\<lparr> sc_dwClockFrequency := ci_dwClockFrequency (in_ctrl_if info) \<rparr>,
      take (stream_ctrl_len info) (enc_stream_ctrl (stream_ctrl_len info) c))"
proof -
  let ?len = "stream_ctrl_len info" and ?sent = "take (stream_ctrl_len info) (enc_stream_ctrl (stream_ctrl_len info) c)"
  have len: "?len = 34 \<or> ?len = 26" by (simp add: stream_ctrl_len_def)
  then have sent: "length ?sent = ?len" by auto
  have set: "uvc_query_stream_ctrl mirror info True UVC_SET_CUR c u = Some (UVC_SUCCESS, c, ?sent)"
    using len by (auto simp: uvc_query_stream_ctrl_def mirror_def Let_def)
  have "overlay ?sent (replicate 34 0) = enc_stream_ctrl ?len c"
    using len by (auto simp: overlay_def enc_stream_ctrl_def INT_TO_DW_def SHORT_TO_SW_def numeral_eq_Suc)
  then have "uvc_query_stream_ctrl mirror info True UVC_GET_CUR c ?sent =
      Some (UVC_SUCCESS, c\<lparr> sc_dwClockFrequency := ci_dwClockFrequency (in_ctrl_if info) \<rparr>, ?sent)"
    using dec_enc_stream_ctrl [OF len, of c] assms len sent
    by (auto simp: uvc_query_stream_ctrl_def mirror_def Let_def fixup_max_id)
  with set show ?thesis by (simp add: uvc_probe_stream_ctrl_def uvc_stream_params_negotiated_def)
qed

lemma probe_roundtrip_witness:
  "uvc_probe_stream_ctrl mirror sample_info stream_ctrl0 [] =
    Some (UVC_SUCCESS, stream_ctrl0\<lparr> sc_dwClockFrequency := ci_dwClockFrequency (in_ctrl_if sample_info) \<rparr>,
      take (stream_ctrl_len sample_info) (enc_stream_ctrl (stream_ctrl_len sample_info) stream_ctrl0))"
  using probe_roundtrip [of stream_ctrl0 sample_info "[]"] by (simp add: stream_ctrl0_def)

text \<open>
  The choice of an interval on a parsed frame.  A discrete table is always walked safely to its
  terminator; the choice is undefined exactly on a continuous range when the requested rate is 0
  (the value documented as "any rate"), or when the range has step 0 and its minimum does not fit.
\<close>

lemma interval_choice_fault_iff:
  assumes "frame_desc_wf fr"
  shows "frame_interval fr fps = None \<longleftrightarrow> fr_intervals fr = None \<and> (fps = 0 \<or>
    (let v = of_int (10000000 sdiv fps) in fr_dwMinFrameInterval fr < v \<and> v \<le> fr_dwMaxFrameInterval fr \<and>
      fr_dwFrameIntervalStep fr = 0))"
  using assms by (rule frame_interval_None)

lemma interval_choice_fault_iff_witness:
  "frame_interval frame_desc0 0 = None \<and> frame_interval sample_frame 0 \<noteq> None"
  using interval_choice_fault_iff [of frame_desc0 0] interval_choice_fault_iff [of sample_frame 0]
  by (simp add: frame_desc0_def sample_frame_def frame_desc_wf_def)

text \<open>
  The format table.  The GUID of every concrete format is recognised as that format and no two
  share one; the zero GUID of the three abstract entries is recognised as \<^verbatim>\<open>ANY\<close>.  A request for
  \<^verbatim>\<open>ANY\<close> accepts exactly the eleven formats below it and, because no entry is marked abstract, the
  zero GUID.
\<close>

lemma format_table_correct:
  assumes "f \<noteq> FORMAT_COUNT"
  shows "uvc_frame_format_for_guid (format_guid f) = (if f \<in> set abstract_formats then FORMAT_ANY else f) \<and>
    (uvc_frame_format_matches_guid FORMAT_ANY guid \<longleftrightarrow> take 16 guid = replicate 16 0 \<or>
       take 16 guid \<in> set (map format_guid [FORMAT_YUYV, FORMAT_UYVY, FORMAT_GRAY8, FORMAT_GRAY16, FORMAT_NV12,
         FORMAT_P010, FORMAT_BGR, FORMAT_RGB, FORMAT_MJPEG, FORMAT_H264, FORMAT_H265]))"
  using for_guid_table all_formats_complete [OF assms] matches_any by (auto simp: list_all_iff)

lemma format_table_correct_witness:
  "uvc_frame_format_for_guid (format_guid FORMAT_NV12) = FORMAT_NV12 \<and>
   uvc_frame_format_matches_guid FORMAT_ANY (replicate 16 0)"
  using format_table_correct [of FORMAT_NV12 "replicate 16 0"] by simp

end
