(* ===== verification/Frame_Conv.thy ===== *)
theory Frame_Conv
  imports Stream_Ctrl
begin

text \<open>
  Frames and their conversions (frame.c).  The memory a frame points to is the list of its bytes,
  \<^term>\<open>None\<close> for \<^verbatim>\<open>NULL\<close>; a conversion that reads or writes outside it is \<^term>\<open>None\<close>.  The two
  frames of a conversion are distinct objects with distinct buffers.  The allocator is a parameter:
  \<open>al n\<close> is the answer of \<^verbatim>\<open>malloc(n)\<close>, its bytes arbitrary.
\<close>

section \<open>Frames\<close>

record uvc_frame =
  f_data :: "bytes option"
  f_data_bytes :: nat
  f_width :: u32
  f_height :: u32
  f_frame_format :: uvc_frame_format
  f_step :: nat
  f_sequence :: u32
  f_capture_time :: int
  f_capture_time_finished :: int
  f_source :: nat
  f_library_owns_data :: bool
  f_metadata :: "bytes option"
  f_metadata_bytes :: nat

type_synonym allocator = "nat \<Rightarrow> bytes option"

definition alloc_ok :: "allocator \<Rightarrow> bool" where
  "alloc_ok al = (\<forall>n b. al n = Some b \<longrightarrow> length b = n)"

text \<open>The bytes behind a pointer; no byte can be read or written behind \<^verbatim>\<open>NULL\<close>.\<close>

definition mem_of :: "bytes option \<Rightarrow> bytes" where
  "mem_of p = (case p of None \<Rightarrow> [] | Some b \<Rightarrow> b)"

definition realloc :: "allocator \<Rightarrow> bytes option \<Rightarrow> nat \<Rightarrow> bytes option" where
  "realloc al p n = map_option (\<lambda>fresh. take n (mem_of p) @ drop (length (mem_of p)) fresh) (al n)"

section \<open>Operations\<close>

definition uvc_ensure_frame_size :: "allocator \<Rightarrow> uvc_frame \<Rightarrow> nat \<Rightarrow> int \<times> uvc_frame" where
  "uvc_ensure_frame_size al frame need_bytes =
     (if f_library_owns_data frame
      then let frame = (if f_data frame = None \<or> f_data_bytes frame \<noteq> need_bytes
                        then frame\<lparr> f_data_bytes := need_bytes, f_data := realloc al (f_data frame) need_bytes \<rparr>
                        else frame)
           in if f_data frame = None then (UVC_ERROR_NO_MEM, frame) else (UVC_SUCCESS, frame)
      else if f_data frame = None \<or> f_data_bytes frame < need_bytes then (UVC_ERROR_NO_MEM, frame)
      else (UVC_SUCCESS, frame))"

definition uvc_frame0 :: uvc_frame where
  "uvc_frame0 = \<lparr> f_data = None, f_data_bytes = 0, f_width = 0, f_height = 0, f_frame_format = FORMAT_ANY,
     f_step = 0, f_sequence = 0, f_capture_time = 0, f_capture_time_finished = 0, f_source = 0,
     f_library_owns_data = False, f_metadata = None, f_metadata_bytes = 0 \<rparr>"

text \<open>\<open>frame_ok\<close> is whether the allocation of the structure itself succeeded.\<close>

definition uvc_allocate_frame :: "bool \<Rightarrow> allocator \<Rightarrow> nat \<Rightarrow> uvc_frame option" where
  "uvc_allocate_frame frame_ok al data_bytes =
     (if \<not> frame_ok then None
      else let frame = uvc_frame0\<lparr> f_library_owns_data := True \<rparr> in
        if data_bytes > 0
        then let frame = frame\<lparr> f_data_bytes := data_bytes, f_data := al data_bytes \<rparr> in
             if f_data frame = None then None else Some frame
        else Some frame)"

text \<open>The blocks a call of \<^verbatim>\<open>uvc_free_frame\<close> frees, in order (freeing \<^verbatim>\<open>NULL\<close> frees nothing).\<close>

datatype frame_block = Blk_data | Blk_metadata | Blk_frame

definition uvc_free_frame :: "uvc_frame \<Rightarrow> frame_block list" where
  "uvc_free_frame frame =
     (if f_library_owns_data frame
      then (if f_data_bytes frame > 0 \<and> f_data frame \<noteq> None then [Blk_data] else []) @
           (if f_metadata_bytes frame > 0 \<and> f_metadata frame \<noteq> None then [Blk_metadata] else [])
      else []) @ [Blk_frame]"

definition sat :: "int \<Rightarrow> u8" where
  "sat i = (if i \<ge> 255 then 255 else if i < 0 then 0 else word_of_int i)"

definition uvc_duplicate_frame :: "allocator \<Rightarrow> uvc_frame \<Rightarrow> uvc_frame \<Rightarrow> (int \<times> uvc_frame) option" where
  "uvc_duplicate_frame al in' out =
     (let (r, out) = uvc_ensure_frame_size al out (f_data_bytes in') in
      if r < 0 then Some (UVC_ERROR_NO_MEM, out)
      else let out = out\<lparr> f_width := f_width in', f_height := f_height in', f_frame_format := f_frame_format in',
             f_step := f_step in', f_sequence := f_sequence in', f_capture_time := f_capture_time in',
             f_capture_time_finished := f_capture_time_finished in', f_source := f_source in' \<rparr>
      in do {
        data \<leftarrow> mem_copy (mem_of (f_data out)) 0 (mem_of (f_data in')) 0 (f_data_bytes in');
        let out = out\<lparr> f_data := Some data \<rparr>;
        if f_metadata in' \<noteq> None \<and> f_metadata_bytes in' > 0
        then let meta = (if f_metadata_bytes out < f_metadata_bytes in'
                         then realloc al (f_metadata out) (f_metadata_bytes in') else f_metadata out)
          in do {
            m \<leftarrow> mem_copy (mem_of meta) 0 (mem_of (f_metadata in')) 0 (f_metadata_bytes in');
            Some (UVC_SUCCESS, out\<lparr> f_metadata := Some m, f_metadata_bytes := f_metadata_bytes in' \<rparr>) }
        else Some (UVC_SUCCESS, out) })"

subsection \<open>Pixel macros\<close>

text \<open>
  Two pixels: four bytes read at \<open>i\<close>, six written at \<open>j\<close>.  The products stay far inside
  \<^verbatim>\<open>int\<close>, and \<^verbatim>\<open>>> 14\<close> on a negative value is the arithmetic shift.
\<close>

type_synonym pixel_macro = "bytes \<Rightarrow> nat \<Rightarrow> bytes \<Rightarrow> nat \<Rightarrow> bytes option"

definition red :: "u8 \<Rightarrow> int" where
  "red v = drop_bit 14 (22987 * (uint v - 128))"

definition green :: "u8 \<Rightarrow> u8 \<Rightarrow> int" where
  "green u v = drop_bit 14 (- 5636 * (uint u - 128) - 11698 * (uint v - 128))"

definition blue :: "u8 \<Rightarrow> int" where
  "blue u = drop_bit 14 (29049 * (uint u - 128))"

definition IYUYV2RGB_2 :: pixel_macro where
  "IYUYV2RGB_2 pyuv i prgb j = do {
     y0 \<leftarrow> rd pyuv i; u \<leftarrow> rd pyuv (i + 1); y1 \<leftarrow> rd pyuv (i + 2); v \<leftarrow> rd pyuv (i + 3);
     mem_put prgb j [sat (uint y0 + red v), sat (uint y0 + green u v), sat (uint y0 + blue u),
       sat (uint y1 + red v), sat (uint y1 + green u v), sat (uint y1 + blue u)] }"

definition IYUYV2BGR_2 :: pixel_macro where
  "IYUYV2BGR_2 pyuv i pbgr j = do {
     y0 \<leftarrow> rd pyuv i; u \<leftarrow> rd pyuv (i + 1); y1 \<leftarrow> rd pyuv (i + 2); v \<leftarrow> rd pyuv (i + 3);
     mem_put pbgr j [sat (uint y0 + blue u), sat (uint y0 + green u v), sat (uint y0 + red v),
       sat (uint y1 + blue u), sat (uint y1 + green u v), sat (uint y1 + red v)] }"

definition IUYVY2RGB_2 :: pixel_macro where
  "IUYVY2RGB_2 pyuv i prgb j = do {
     u \<leftarrow> rd pyuv i; y0 \<leftarrow> rd pyuv (i + 1); v \<leftarrow> rd pyuv (i + 2); y1 \<leftarrow> rd pyuv (i + 3);
     mem_put prgb j [sat (uint y0 + red v), sat (uint y0 + green u v), sat (uint y0 + blue u),
       sat (uint y1 + red v), sat (uint y1 + green u v), sat (uint y1 + blue u)] }"

definition IUYVY2BGR_2 :: pixel_macro where
  "IUYVY2BGR_2 pyuv i pbgr j = do {
     u \<leftarrow> rd pyuv i; y0 \<leftarrow> rd pyuv (i + 1); v \<leftarrow> rd pyuv (i + 2); y1 \<leftarrow> rd pyuv (i + 3);
     mem_put pbgr j [sat (uint y0 + blue u), sat (uint y0 + green u v), sat (uint y0 + red v),
       sat (uint y1 + blue u), sat (uint y1 + green u v), sat (uint y1 + red v)] }"

text \<open>The \<^verbatim>\<open>_4\<close> and \<^verbatim>\<open>_8\<close> macros of each family repeat the smaller one.\<close>

definition macro_4 :: "pixel_macro \<Rightarrow> pixel_macro" where
  "macro_4 m pyuv i p j = do { p \<leftarrow> m pyuv i p j; m pyuv (i + 4) p (j + 6) }"

definition macro_8 :: "pixel_macro \<Rightarrow> pixel_macro" where
  "macro_8 m pyuv i p j = do { p \<leftarrow> macro_4 m pyuv i p j; macro_4 m pyuv (i + 8) p (j + 12) }"

subsection \<open>Conversions\<close>

text \<open>The loops: eight pixels, or one byte, per round, up to \<open>p_end\<close>.\<close>

function loop_8 :: "pixel_macro \<Rightarrow> bytes \<Rightarrow> nat \<Rightarrow> bytes \<Rightarrow> nat \<Rightarrow> nat \<Rightarrow> bytes option" where
  "loop_8 m pyuv i p j p_end =
     (if j < p_end
      then do { p \<leftarrow> macro_8 m pyuv i p j; loop_8 m pyuv (i + 2 * 8) p (j + 3 * 8) p_end }
      else Some p)"
  by pat_completeness auto
termination by (relation "measure (\<lambda>(m, pyuv, i, p, j, p_end). p_end - j)") auto

function loop_1 :: "nat \<Rightarrow> bytes \<Rightarrow> nat \<Rightarrow> bytes \<Rightarrow> nat \<Rightarrow> nat \<Rightarrow> bytes option" where
  "loop_1 k pyuv i p j p_end =
     (if j < p_end
      then do { b \<leftarrow> rd pyuv (i + k); p \<leftarrow> mem_put p j [b]; loop_1 k pyuv (i + 2) p (j + 1) p_end }
      else Some p)"
  by pat_completeness auto
termination by (relation "measure (\<lambda>(k, pyuv, i, p, j, p_end). p_end - j)") auto

declare loop_8.simps [simp del] loop_1.simps [simp del]

text \<open>
  The body the converters share, from the format check on: \<open>bpp\<close> bytes per pixel, so the size is
  a 32-bit product that wraps; the loop runs to the end of the output buffer.
\<close>

definition convert ::
  "uvc_frame_format \<Rightarrow> uvc_frame_format \<Rightarrow> u32 \<Rightarrow> (bytes \<Rightarrow> nat \<Rightarrow> bytes \<Rightarrow> nat \<Rightarrow> nat \<Rightarrow> bytes option) \<Rightarrow>
   allocator \<Rightarrow> uvc_frame \<Rightarrow> uvc_frame \<Rightarrow> (int \<times> uvc_frame) option" where
  "convert src dst bpp loop al in' out =
     (if f_frame_format in' \<noteq> src then Some (UVC_ERROR_INVALID_PARAM, out)
      else let (r, out) = uvc_ensure_frame_size al out (unat (f_width in' * f_height in' * bpp)) in
        if r < 0 then Some (UVC_ERROR_NO_MEM, out)
        else let out = out\<lparr> f_width := f_width in', f_height := f_height in', f_frame_format := dst,
               f_step := unat (f_width in' * bpp), f_sequence := f_sequence in', f_capture_time := f_capture_time in',
               f_capture_time_finished := f_capture_time_finished in', f_source := f_source in' \<rparr>
        in do {
          p \<leftarrow> loop (mem_of (f_data in')) 0 (mem_of (f_data out)) 0 (f_data_bytes out);
          Some (UVC_SUCCESS, out\<lparr> f_data := Some p \<rparr>) })"

definition uvc_yuyv2rgb :: "allocator \<Rightarrow> uvc_frame \<Rightarrow> uvc_frame \<Rightarrow> (int \<times> uvc_frame) option" where
  "uvc_yuyv2rgb = convert FORMAT_YUYV FORMAT_RGB 3 (loop_8 IYUYV2RGB_2)"

definition uvc_yuyv2bgr :: "allocator \<Rightarrow> uvc_frame \<Rightarrow> uvc_frame \<Rightarrow> (int \<times> uvc_frame) option" where
  "uvc_yuyv2bgr = convert FORMAT_YUYV FORMAT_BGR 3 (loop_8 IYUYV2BGR_2)"

definition uvc_yuyv2y :: "allocator \<Rightarrow> uvc_frame \<Rightarrow> uvc_frame \<Rightarrow> (int \<times> uvc_frame) option" where
  "uvc_yuyv2y = convert FORMAT_YUYV FORMAT_GRAY8 1 (loop_1 0)"

definition uvc_yuyv2uv :: "allocator \<Rightarrow> uvc_frame \<Rightarrow> uvc_frame \<Rightarrow> (int \<times> uvc_frame) option" where
  "uvc_yuyv2uv = convert FORMAT_YUYV FORMAT_GRAY8 1 (loop_1 1)"

definition uvc_uyvy2rgb :: "allocator \<Rightarrow> uvc_frame \<Rightarrow> uvc_frame \<Rightarrow> (int \<times> uvc_frame) option" where
  "uvc_uyvy2rgb = convert FORMAT_UYVY FORMAT_RGB 3 (loop_8 IUYVY2RGB_2)"

definition uvc_uyvy2bgr :: "allocator \<Rightarrow> uvc_frame \<Rightarrow> uvc_frame \<Rightarrow> (int \<times> uvc_frame) option" where
  "uvc_uyvy2bgr = convert FORMAT_UYVY FORMAT_BGR 3 (loop_8 IUYVY2BGR_2)"

text \<open>\<open>mjpeg\<close> is \<^verbatim>\<open>uvc_mjpeg2rgb\<close>, present when the library is built with libjpeg.\<close>

definition uvc_any2rgb ::
  "(uvc_frame \<Rightarrow> uvc_frame \<Rightarrow> (int \<times> uvc_frame) option) option \<Rightarrow> allocator \<Rightarrow> uvc_frame \<Rightarrow> uvc_frame \<Rightarrow>
   (int \<times> uvc_frame) option" where
  "uvc_any2rgb mjpeg al in' out =
     (case (f_frame_format in', mjpeg) of
        (FORMAT_MJPEG, Some mj) \<Rightarrow> mj in' out
      | (FORMAT_YUYV, _) \<Rightarrow> uvc_yuyv2rgb al in' out
      | (FORMAT_UYVY, _) \<Rightarrow> uvc_uyvy2rgb al in' out
      | (FORMAT_RGB, _) \<Rightarrow> uvc_duplicate_frame al in' out
      | _ \<Rightarrow> Some (UVC_ERROR_NOT_SUPPORTED, out))"

definition uvc_any2bgr :: "allocator \<Rightarrow> uvc_frame \<Rightarrow> uvc_frame \<Rightarrow> (int \<times> uvc_frame) option" where
  "uvc_any2bgr al in' out =
     (case f_frame_format in' of
        FORMAT_YUYV \<Rightarrow> uvc_yuyv2bgr al in' out
      | FORMAT_UYVY \<Rightarrow> uvc_uyvy2bgr al in' out
      | FORMAT_BGR \<Rightarrow> uvc_duplicate_frame al in' out
      | _ \<Rightarrow> Some (UVC_ERROR_NOT_SUPPORTED, out))"

section \<open>The interface of a pixel macro\<close>

text \<open>
  What the loops rely on: a macro reads four bytes, writes the two pixels they hold, and \<open>px\<close>
  says what a pixel is.  Everything about the loops follows.
\<close>

definition pairs :: "(bytes \<Rightarrow> nat \<Rightarrow> bytes) \<Rightarrow> nat \<Rightarrow> bytes \<Rightarrow> bytes" where
  "pairs px n src = concat (map (px src) [0..<2 * n])"

definition rounds :: "nat \<Rightarrow> nat" where
  "rounds n = (n + 23) div 24"

text \<open>\<open>a\<close> pairs read at \<open>i\<close> and written at \<open>j\<close>.\<close>

definition run :: "(bytes \<Rightarrow> nat \<Rightarrow> bytes) \<Rightarrow> nat \<Rightarrow> pixel_macro" where
  "run px a src i dst j =
     (if i + 4 * a \<le> length src then mem_put dst j (pairs px a (drop i src)) else None)"

lemma rounds_0 [simp]: "rounds 0 = 0"
  by (simp add: rounds_def)

lemma rounds_step:
  assumes "0 < n"
  shows "rounds n = Suc (rounds (n - 24))"
proof (cases "24 \<le> n")
  case True
  then have "n + 23 = (n - 24 + 23) + 24" by simp
  then show ?thesis unfolding rounds_def by (metis div_add_self2 Suc_eq_plus1 zero_neq_numeral)
next
  case False
  then have "(n + 23) div 24 = 1" using assms by (intro div_nat_eqI) auto
  then show ?thesis using False by (simp add: rounds_def)
qed

locale packed_422 =
  fixes m :: pixel_macro and px :: "bytes \<Rightarrow> nat \<Rightarrow> bytes"
  assumes macro: "m src i dst j =
      (if i + 4 \<le> length src then mem_put dst j (px (drop i src) 0 @ px (drop i src) 1) else None)"
    and length_px: "length (px src p) = 3"
    and px_drop: "4 * k \<le> length src \<Longrightarrow> px (drop (4 * k) src) p = px src (2 * k + p)"
begin

lemma length_pairs: "length (pairs px n src) = 6 * n"
  unfolding pairs_def by (induction n) (simp_all add: length_px)

lemma pairs_add:
  assumes "4 * a \<le> length src"
  shows "pairs px (a + b) src = pairs px a src @ pairs px b (drop (4 * a) src)"
proof -
  have "[0..<2 * (a + b)] = [0..<2 * a] @ map (\<lambda>p. 2 * a + p) [0..<2 * b]"
    using map_add_upt [of "2 * a" "2 * b"] upt_add_eq_append [of 0 "2 * a" "2 * b"]
    by (simp add: algebra_simps)
  moreover have "px (drop (4 * a) src) = (\<lambda>p. px src (2 * a + p))" using assms px_drop by blast
  ultimately show ?thesis by (simp add: pairs_def comp_def)
qed

lemma macro_run: "m = run px 1"
  by (intro ext) (simp add: macro run_def pairs_def upt_rec)

text \<open>Doing \<open>a\<close> pairs and then \<open>b\<close> pairs is doing \<open>a + b\<close> pairs.\<close>

lemma run_join:
  "Option.bind (run px a src i dst j) (\<lambda>d. run px b src (i + 4 * a) d (j + 6 * a)) = run px (a + b) src i dst j"
proof (cases "i + 4 * (a + b) \<le> length src")
  case True
  have "pairs px (a + b) (drop i src) = pairs px a (drop i src) @ pairs px b (drop (i + 4 * a) src)"
    using True pairs_add [of a "drop i src" b] by (simp add: add.commute)
  then show ?thesis using True
      mem_put_append [of dst j "pairs px a (drop i src)" "pairs px b (drop (i + 4 * a) src)"]
    by (simp add: run_def length_pairs algebra_simps)
next
  case False
  then show ?thesis by (cases "run px a src i dst j") (simp_all add: run_def algebra_simps)
qed

lemma macro_4_run: "macro_4 m = run px 2"
  using run_join [of 1 _ _ _ _ 1] by (intro ext) (simp add: macro_4_def macro_run numeral_2_eq_2)

lemma macro_8_run: "macro_8 m = run px 4"
  using run_join [of 2 _ _ _ _ 2] by (intro ext) (simp add: macro_8_def macro_4_run)

lemma loop_8_run: "loop_8 m src i dst j p_end =
    (if p_end \<le> j then Some dst else run px (4 * rounds (p_end - j)) src i dst j)"
proof (induction "p_end - j" arbitrary: i dst j rule: less_induct)
  case less
  show ?case
  proof (cases "j < p_end")
    case False
    then show ?thesis by (simp add: loop_8.simps)
  next
    case True
    let ?r = "rounds (p_end - (j + 24))"
    have r: "rounds (p_end - j) = Suc ?r" using True rounds_step [of "p_end - j"] by simp
    have IH: "loop_8 m src (i + 16) d (j + 24) p_end =
        (if p_end \<le> j + 24 then Some d else run px (4 * ?r) src (i + 16) d (j + 24))" for d
      by (rule less) (use True in simp)
    show ?thesis
    proof (cases "p_end \<le> j + 24")
      case le: True
      then show ?thesis using True r by (simp add: loop_8.simps [of m src i] macro_8_run IH)
    next
      case False
      then show ?thesis using run_join [of 4 src i dst j "4 * ?r"] True r
        by (simp add: loop_8.simps [of m src i] macro_8_run IH)
    qed
  qed
qed

lemma loop_8_total: "loop_8 m src 0 dst 0 n =
    (if 16 * rounds n \<le> length src then mem_put dst 0 (pairs px (4 * rounds n) src) else None)"
  by (cases "n = 0") (auto simp: loop_8_run run_def mem_put_def pairs_def)

lemma loop_8_fault: "loop_8 m src 0 dst 0 n = None \<longleftrightarrow>
    length src < 16 * rounds n \<or> length dst < 24 * rounds n"
  by (auto simp: loop_8_total mem_put_eq_None length_pairs)

text \<open>A whole number of rounds: the output is the image, pixel by pixel.\<close>

lemma loop_8_image:
  assumes "8 dvd n" and "2 * n \<le> length src" and "3 * n \<le> length dst"
  shows "\<exists>d. loop_8 m src 0 dst 0 (3 * n) = Some d \<and> take (3 * n) d = concat (map (px src) [0..<n])"
proof -
  obtain k where n: "n = 8 * k" using assms(1) by blast
  have "rounds (3 * n) = k" by (simp add: rounds_def n)
  moreover obtain d where "mem_put dst 0 (pairs px (4 * k) src) = Some d"
    using assms n mem_put_eq_None [of dst 0 "pairs px (4 * k) src"] by (cases "mem_put dst 0 (pairs px (4 * k) src)") (auto simp: length_pairs)
  ultimately show ?thesis using assms n mem_put_take [of dst "pairs px (4 * k) src" d]
    by (auto simp: loop_8_total length_pairs) (simp add: pairs_def)
qed

end

text \<open>The four macros: what a pixel is for each.\<close>

definition rgb_of :: "u8 \<Rightarrow> u8 \<Rightarrow> u8 \<Rightarrow> bytes" where
  "rgb_of y u v = [sat (uint y + red v), sat (uint y + green u v), sat (uint y + blue u)]"

definition yuyv_rgb :: "bytes \<Rightarrow> nat \<Rightarrow> bytes" where
  "yuyv_rgb src p = rgb_of (src ! (2 * p)) (src ! (4 * (p div 2) + 1)) (src ! (4 * (p div 2) + 3))"

definition uyvy_rgb :: "bytes \<Rightarrow> nat \<Rightarrow> bytes" where
  "uyvy_rgb src p = rgb_of (src ! (2 * p + 1)) (src ! (4 * (p div 2))) (src ! (4 * (p div 2) + 2))"

definition yuyv_bgr :: "bytes \<Rightarrow> nat \<Rightarrow> bytes" where
  "yuyv_bgr src p = rev (yuyv_rgb src p)"

definition uyvy_bgr :: "bytes \<Rightarrow> nat \<Rightarrow> bytes" where
  "uyvy_bgr src p = rev (uyvy_rgb src p)"

lemmas pixel_defs = rgb_of_def yuyv_rgb_def uyvy_rgb_def yuyv_bgr_def uyvy_bgr_def

interpretation yr: packed_422 IYUYV2RGB_2 yuyv_rgb
  by unfold_locales (auto simp: IYUYV2RGB_2_def pixel_defs rd_def algebra_simps)

interpretation yb: packed_422 IYUYV2BGR_2 yuyv_bgr
  by unfold_locales (auto simp: IYUYV2BGR_2_def pixel_defs rd_def algebra_simps)

interpretation ur: packed_422 IUYVY2RGB_2 uyvy_rgb
  by unfold_locales (auto simp: IUYVY2RGB_2_def pixel_defs rd_def algebra_simps numeral_3_eq_3)

interpretation ub: packed_422 IUYVY2BGR_2 uyvy_bgr
  by unfold_locales (auto simp: IUYVY2BGR_2_def pixel_defs rd_def algebra_simps numeral_3_eq_3)

text \<open>The byte loop extracts every other byte.\<close>

lemma loop_1_eq: "loop_1 k src i dst j p_end =
    (if p_end \<le> j then Some dst
     else if i + k + 2 * (p_end - j) \<le> length src + 1
     then mem_put dst j (map (\<lambda>p. src ! (i + k + 2 * p)) [0..<p_end - j]) else None)"
proof (induction "p_end - j" arbitrary: i dst j)
  case 0
  then show ?case by (simp add: loop_1.simps)
next
  case (Suc n)
  then have j: "j < p_end" "p_end - j = Suc n" "p_end - (j + 1) = n" by simp_all
  have IH: "loop_1 k src (Suc (Suc i)) d (Suc j) p_end =
    (if p_end \<le> Suc j then Some d
     else if i + 2 + k + 2 * n \<le> length src + 1
     then mem_put d (Suc j) (map (\<lambda>p. src ! (i + 2 + k + 2 * p)) [0..<n]) else None)" for d
    using Suc.hyps(1) [of "j + 1" "i + 2" d] j by simp
  have m: "map (\<lambda>p. src ! (i + k + 2 * p)) [0..<Suc n] =
      src ! (i + k) # map (\<lambda>p. src ! (i + 2 + k + 2 * p)) [0..<n]"
    by (simp add: map_upt_Suc algebra_simps del: upt_Suc)
  show ?case
    using mem_put_append [of dst j "[src ! (i + k)]" "map (\<lambda>p. src ! (i + 2 + k + 2 * p)) [0..<n]"] j
    by (cases "mem_put dst j [src ! (i + k)]")
      (auto simp: loop_1.simps [of k src i] IH rd_def m simp del: upt_Suc)
qed

section \<open>Sizes\<close>

text \<open>A frame whose stated sizes lie inside its buffers.\<close>

definition frame_wf :: "uvc_frame \<Rightarrow> bool" where
  "frame_wf f = ((f_data f \<noteq> None \<longrightarrow> f_data_bytes f \<le> length (mem_of (f_data f))) \<and>
     f_metadata_bytes f \<le> length (mem_of (f_metadata f)))"

lemma realloc_length:
  "alloc_ok al \<Longrightarrow> realloc al p n = Some b \<Longrightarrow> length b = n"
  by (auto simp: realloc_def alloc_ok_def min_def)

lemma ensure_frame_size_ok:
  assumes "alloc_ok al" and "frame_wf f" and "uvc_ensure_frame_size al f n = (r, f')"
  shows "(r = UVC_SUCCESS \<or> r = UVC_ERROR_NO_MEM) \<and> frame_wf f' \<and>
    (r = UVC_SUCCESS \<longleftrightarrow> f_data f' \<noteq> None \<and> n \<le> f_data_bytes f') \<and>
    f_metadata f' = f_metadata f \<and> f_metadata_bytes f' = f_metadata_bytes f \<and>
    f_library_owns_data f' = f_library_owns_data f \<and> (f_library_owns_data f \<longrightarrow> f_data_bytes f' = n)"
  using assms realloc_length [OF assms(1), of "f_data f" n]
  by (auto simp: uvc_ensure_frame_size_def frame_wf_def mem_of_def Let_def split: if_splits option.splits)

section \<open>Properties\<close>

text \<open>An eight-pixel image, an output frame without a buffer and an allocator that always succeeds.\<close>

definition sample_yuyv :: uvc_frame where
  "sample_yuyv = uvc_frame0\<lparr> f_data := Some [16, 128, 235, 128, 81, 90, 145, 54, 41, 240, 210, 16, 255, 0, 0, 255],
     f_data_bytes := 16, f_width := 4, f_height := 2, f_frame_format := FORMAT_YUYV \<rparr>"

definition sample_out :: uvc_frame where
  "sample_out = uvc_frame0\<lparr> f_library_owns_data := True \<rparr>"

definition zero_alloc :: allocator where
  "zero_alloc n = Some (replicate n 0)"

lemmas sample_defs = sample_yuyv_def sample_out_def zero_alloc_def uvc_frame0_def frame_wf_def alloc_ok_def mem_of_def

text \<open>The four packed converters: source and target format, the routine, and what a pixel is.\<close>

definition packed_converters ::
  "(uvc_frame_format \<times> uvc_frame_format \<times> (allocator \<Rightarrow> uvc_frame \<Rightarrow> uvc_frame \<Rightarrow> (int \<times> uvc_frame) option) \<times>
    (bytes \<Rightarrow> nat \<Rightarrow> bytes)) list" where
  "packed_converters = [(FORMAT_YUYV, FORMAT_RGB, uvc_yuyv2rgb, yuyv_rgb), (FORMAT_YUYV, FORMAT_BGR, uvc_yuyv2bgr, yuyv_bgr),
     (FORMAT_UYVY, FORMAT_RGB, uvc_uyvy2rgb, uyvy_rgb), (FORMAT_UYVY, FORMAT_BGR, uvc_uyvy2bgr, uyvy_bgr)]"

lemma packed_converters_run:
  assumes "(src, dst, conv, px) \<in> set packed_converters"
  obtains m where "conv = convert src dst 3 (loop_8 m)" and "packed_422 m px"
proof -
  have "\<exists>m. conv = convert src dst 3 (loop_8 m) \<and> packed_422 m px"
    using assms yr.packed_422_axioms yb.packed_422_axioms ur.packed_422_axioms ub.packed_422_axioms
    unfolding packed_converters_def uvc_yuyv2rgb_def uvc_yuyv2bgr_def uvc_uyvy2rgb_def uvc_uyvy2bgr_def
    by fastforce
  with that show ?thesis by blast
qed

lemma unat_product:
  assumes "unat (w :: u32) * unat h * unat k < 2 ^ 32"
  shows "unat (w * h * k) = unat w * unat h * unat k"
proof -
  have "w * h * k = of_nat (unat w * unat h * unat k)" by simp
  then show ?thesis using assms unat_of_nat [of "unat w * unat h * unat k", where 'a = 32] by (simp only: len_num0 mod_less) simp
qed

text \<open>
  C14: each of the four packed converters, on an image of a multiple of eight pixels whose input
  buffer holds it, into a frame the library owns, succeeds and writes exactly the image a
  per-pixel definition gives: the unrolled eight-pixel macros are the reference conversion.  The
  remaining fields are those of the input, in the target format.
\<close>

theorem packed_conversion_correct:
  assumes "(src, dst, conv, px) \<in> set packed_converters"
    and "f_frame_format in' = src" and "n = unat (f_width in') * unat (f_height in')"
    and "8 dvd n" and "3 * n < 2 ^ 32" and "2 * n \<le> length (mem_of (f_data in'))"
    and "alloc_ok al" and "al (3 * n) \<noteq> None" and "frame_wf out" and "f_library_owns_data out"
  shows "\<exists>out'. conv al in' out = Some (UVC_SUCCESS, out') \<and> f_data_bytes out' = 3 * n \<and> frame_wf out' \<and>
    take (3 * n) (mem_of (f_data out')) = concat (map (px (mem_of (f_data in'))) [0..<n]) \<and>
    f_frame_format out' = dst \<and> f_width out' = f_width in' \<and> f_height out' = f_height in' \<and>
    f_sequence out' = f_sequence in'"
proof -
  obtain m where conv: "conv = convert src dst 3 (loop_8 m)" and m: "packed_422 m px"
    using packed_converters_run [OF assms(1)] .
  have size: "unat (f_width in' * f_height in' * 3) = 3 * n"
    using unat_product [of "f_width in'" "f_height in'" 3] assms(3,5) by (simp add: mult.commute)
  obtain r o1 where o1: "uvc_ensure_frame_size al out (3 * n) = (r, o1)" by fastforce
  note ok = ensure_frame_size_ok [OF assms(7,9) o1]
  have "f_data o1 \<noteq> None"
    using o1 assms(8,10) by (auto simp: uvc_ensure_frame_size_def Let_def realloc_def split: if_splits)
  then have r: "r = 0" and b: "f_data_bytes o1 = 3 * n" and l: "3 * n \<le> length (mem_of (f_data o1))"
    using ok assms(10) by (auto simp: frame_wf_def)
  obtain d' where d': "loop_8 m (mem_of (f_data in')) 0 (mem_of (f_data o1)) 0 (3 * n) = Some d'"
    "take (3 * n) d' = concat (map (px (mem_of (f_data in'))) [0..<n])"
    using packed_422.loop_8_image [OF m assms(4,6) l] by blast
  have "length (concat (map (px (mem_of (f_data in'))) [0..<n])) = 3 * n"
    by (simp add: length_concat comp_def packed_422.length_px [OF m] sum_list_triv)
  then have "3 * n \<le> length d'" using d'(2) by (metis length_take min.absorb_iff2 min.commute)
  then show ?thesis using assms(2) o1 r b d' ok size
    by (auto simp: conv convert_def frame_wf_def mem_of_def)
qed

theorem packed_conversion_correct_witness:
  "\<exists>out'. uvc_yuyv2rgb zero_alloc sample_yuyv sample_out = Some (UVC_SUCCESS, out') \<and>
     take 6 (mem_of (f_data out')) = [16, 16, 16, 235, 235, 235]"
proof -
  have "\<exists>out'. uvc_yuyv2rgb zero_alloc sample_yuyv sample_out = Some (UVC_SUCCESS, out') \<and> f_data_bytes out' = 3 * 8 \<and> frame_wf out' \<and>
    take (3 * 8) (mem_of (f_data out')) = concat (map (yuyv_rgb (mem_of (f_data sample_yuyv))) [0..<8]) \<and>
    f_frame_format out' = FORMAT_RGB \<and> f_width out' = f_width sample_yuyv \<and> f_height out' = f_height sample_yuyv \<and>
    f_sequence out' = f_sequence sample_yuyv"
    by (rule packed_conversion_correct [of FORMAT_YUYV]) (simp_all add: packed_converters_def sample_defs)
  then obtain out' where o: "uvc_yuyv2rgb zero_alloc sample_yuyv sample_out = Some (UVC_SUCCESS, out')"
    "take 24 (mem_of (f_data out')) = concat (map (yuyv_rgb (mem_of (f_data sample_yuyv))) [0..<8])" by auto
  have "take 6 (mem_of (f_data out')) = take 6 (take 24 (mem_of (f_data out')))" by simp
  also have "\<dots> = [16, 16, 16, 235, 235, 235]" unfolding o(2) by code_simp
  finally show ?thesis using o(1) by blast
qed

text \<open>
  C40: when a packed converter leaves its buffers.  It works in rounds of eight pixels up to the end
  of the output frame, so it is undefined exactly when the rounds need more than either buffer
  holds: an input shorter than the output asks for, or a pixel count that is no multiple of eight.
\<close>

theorem packed_conversion_fault_iff:
  assumes "(src, dst, conv, px) \<in> set packed_converters"
    and "uvc_ensure_frame_size al out (unat (f_width in' * f_height in' * 3)) = (r, out1)"
  shows "conv al in' out = None \<longleftrightarrow> f_frame_format in' = src \<and> 0 \<le> r \<and>
    (length (mem_of (f_data in')) < 16 * rounds (f_data_bytes out1) \<or>
     length (mem_of (f_data out1)) < 24 * rounds (f_data_bytes out1))"
proof -
  obtain m where conv: "conv = convert src dst 3 (loop_8 m)" and m: "packed_422 m px"
    using packed_converters_run [OF assms(1)] .
  show ?thesis using assms(2) by (auto simp: conv convert_def bind_eq_None_conv packed_422.loop_8_fault [OF m])
qed

theorem packed_conversion_fault_iff_witness:
  "uvc_yuyv2rgb zero_alloc (sample_yuyv\<lparr> f_height := 1 \<rparr>) sample_out = None \<and>
   uvc_yuyv2rgb zero_alloc sample_yuyv sample_out \<noteq> None"
proof
  let ?small = "sample_yuyv\<lparr> f_height := 1 \<rparr>"
  have "(FORMAT_YUYV, FORMAT_RGB, uvc_yuyv2rgb, yuyv_rgb) \<in> set packed_converters"
    by (simp add: packed_converters_def)
  note iff = packed_conversion_fault_iff [OF this]
  have "uvc_ensure_frame_size zero_alloc sample_out (unat (f_width ?small * f_height ?small * 3)) =
      (0, sample_out\<lparr> f_data_bytes := 12, f_data := Some (replicate 12 0) \<rparr>)" by code_simp
  from iff [OF this] show "uvc_yuyv2rgb zero_alloc ?small sample_out = None"
    by (simp add: sample_defs rounds_def)
  have "uvc_ensure_frame_size zero_alloc sample_out (unat (f_width sample_yuyv * f_height sample_yuyv * 3)) =
      (0, sample_out\<lparr> f_data_bytes := 24, f_data := Some (replicate 24 0) \<rparr>)" by code_simp
  from iff [OF this] show "uvc_yuyv2rgb zero_alloc sample_yuyv sample_out \<noteq> None"
    by (simp add: sample_defs rounds_def)
qed

text \<open>
  The luma and chroma extractions work for every pixel count: into a frame the library owns
  they give byte \<open>2 p + k\<close> of the input for every pixel \<open>p\<close>.
\<close>

lemma gray_conversion_correct:
  assumes "(conv, k) \<in> {(uvc_yuyv2y, 0), (uvc_yuyv2uv, 1)}"
    and "f_frame_format in' = FORMAT_YUYV" and "n = unat (f_width in') * unat (f_height in')" and "n < 2 ^ 32"
    and "2 * n \<le> length (mem_of (f_data in'))"
    and "alloc_ok al" and "al n \<noteq> None" and "frame_wf out" and "f_library_owns_data out"
  shows "\<exists>out'. conv al in' out = Some (UVC_SUCCESS, out') \<and> f_data_bytes out' = n \<and>
    take n (mem_of (f_data out')) = map (\<lambda>p. mem_of (f_data in') ! (2 * p + k)) [0..<n] \<and>
    f_frame_format out' = FORMAT_GRAY8"
proof -
  have size: "unat (f_width in' * f_height in' * 1) = n"
    using unat_product [of "f_width in'" "f_height in'" 1] assms(3,4) by simp
  obtain r o1 where o1: "uvc_ensure_frame_size al out n = (r, o1)" by fastforce
  note ok = ensure_frame_size_ok [OF assms(6,8) o1]
  have "f_data o1 \<noteq> None"
    using o1 assms(7,9) by (auto simp: uvc_ensure_frame_size_def Let_def realloc_def split: if_splits)
  then have r: "r = 0" and b: "f_data_bytes o1 = n" and l: "n \<le> length (mem_of (f_data o1))"
    using ok assms(9) by (auto simp: frame_wf_def)
  have k: "k \<le> 1" "conv = convert FORMAT_YUYV FORMAT_GRAY8 1 (loop_1 k)"
    using assms(1) by (auto simp: uvc_yuyv2y_def uvc_yuyv2uv_def)
  let ?img = "map (\<lambda>p. mem_of (f_data in') ! (2 * p + k)) [0..<n]"
  have "loop_1 k (mem_of (f_data in')) 0 (mem_of (f_data o1)) 0 n = mem_put (mem_of (f_data o1)) 0 ?img"
    using assms(5) k(1) by (auto simp: loop_1_eq mem_put_def add.commute)
  moreover obtain d' where "mem_put (mem_of (f_data o1)) 0 ?img = Some d'"
    using l mem_put_eq_None [of "mem_of (f_data o1)" 0 ?img] by fastforce
  moreover from this have "take n d' = ?img" using mem_put_take [of _ ?img] by fastforce
  ultimately show ?thesis using assms(2) o1 r b k size by (auto simp: convert_def mem_of_def)
qed

lemma gray_conversion_correct_witness:
  "\<exists>out'. uvc_yuyv2y zero_alloc sample_yuyv sample_out = Some (UVC_SUCCESS, out') \<and>
     take 8 (mem_of (f_data out')) = [16, 235, 81, 145, 41, 210, 255, 0]"
proof -
  have "\<exists>out'. uvc_yuyv2y zero_alloc sample_yuyv sample_out = Some (UVC_SUCCESS, out') \<and> f_data_bytes out' = 8 \<and>
    take 8 (mem_of (f_data out')) = map (\<lambda>p. mem_of (f_data sample_yuyv) ! (2 * p + 0)) [0..<8] \<and>
    f_frame_format out' = FORMAT_GRAY8"
    by (rule gray_conversion_correct) (simp_all add: sample_defs)
  moreover have "map (\<lambda>p. mem_of (f_data sample_yuyv) ! (2 * p + 0)) [0..<8] = [16, 235, 81, 145, 41, 210, 255, 0]"
    by code_simp
  ultimately show ?thesis by auto
qed

lemma realloc_some:
  assumes "alloc_ok al" and "al n \<noteq> None"
  shows "length (mem_of (realloc al p n)) = n"
proof -
  obtain q where q: "realloc al p n = Some q" using assms(2) by (auto simp: realloc_def)
  show ?thesis using realloc_length [OF assms(1) q] by (simp add: q mem_of_def)
qed

lemma mem_copy_whole:
  assumes "n \<le> length dst" and "n \<le> length src"
  obtains d where "mem_copy dst 0 src 0 n = Some d" and "length d = length dst" and "take n d = take n src"
  using assms by (auto simp: mem_copy_def rd_bytes_def mem_put_def)

text \<open>
  Duplicating a frame, with allocations that succeed, gives a well-formed frame with the same
  image, metadata and description; when the output cannot be made large enough the answer is
  \<^verbatim>\<open>NO_MEM\<close> and no description is copied.
\<close>

lemma duplicate_frame_correct:
  assumes "alloc_ok al" and "frame_wf in'" and "frame_wf out" and "f_data in' \<noteq> None"
    and "f_metadata in' \<noteq> None \<Longrightarrow> al (f_metadata_bytes in') \<noteq> None"
  shows "\<exists>r out'. uvc_duplicate_frame al in' out = Some (r, out') \<and> frame_wf out' \<and>
    (if r = UVC_SUCCESS
     then take (f_data_bytes in') (mem_of (f_data out')) = take (f_data_bytes in') (mem_of (f_data in')) \<and>
       f_data_bytes in' \<le> f_data_bytes out' \<and> f_width out' = f_width in' \<and> f_height out' = f_height in' \<and>
       f_frame_format out' = f_frame_format in' \<and> f_step out' = f_step in' \<and> f_sequence out' = f_sequence in' \<and>
       (if 0 < f_metadata_bytes in'
        then f_metadata_bytes out' = f_metadata_bytes in' \<and>
          take (f_metadata_bytes in') (mem_of (f_metadata out')) = take (f_metadata_bytes in') (mem_of (f_metadata in'))
        else f_metadata out' = f_metadata out)
     else r = UVC_ERROR_NO_MEM \<and> f_width out' = f_width out \<and> f_frame_format out' = f_frame_format out)"
proof -
  obtain r o1 where o1: "uvc_ensure_frame_size al out (f_data_bytes in') = (r, o1)" by fastforce
  note ok = ensure_frame_size_ok [OF assms(1,3) o1]
  have keep: "f_width o1 = f_width out" "f_frame_format o1 = f_frame_format out"
    using o1 by (auto simp: uvc_ensure_frame_size_def Let_def split: if_splits)
  show ?thesis
  proof (cases "r = UVC_SUCCESS")
    case False
    then show ?thesis using ok o1 keep by (auto simp: uvc_duplicate_frame_def)
  next
    case True
    then obtain d where d: "mem_copy (mem_of (f_data o1)) 0 (mem_of (f_data in')) 0 (f_data_bytes in') = Some d"
      "length d = length (mem_of (f_data o1))" "take (f_data_bytes in') d = take (f_data_bytes in') (mem_of (f_data in'))"
      using mem_copy_whole [of "f_data_bytes in'" "mem_of (f_data o1)" "mem_of (f_data in')"] ok assms(2,4)
      by (auto simp: frame_wf_def)
    show ?thesis
    proof (cases "0 < f_metadata_bytes in'")
      case False
      then show ?thesis using True d o1 ok
        by (auto simp: uvc_duplicate_frame_def frame_wf_def) (auto simp: mem_of_def)
    next
      case meta: True
      then have some: "f_metadata in' \<noteq> None" using assms(2) by (auto simp: frame_wf_def mem_of_def split: option.splits)
      let ?p = "if f_metadata_bytes o1 < f_metadata_bytes in' then realloc al (f_metadata o1) (f_metadata_bytes in')
        else f_metadata o1"
      have "f_metadata_bytes in' \<le> length (mem_of ?p)"
        using realloc_some [OF assms(1) assms(5) [OF some]] ok by (auto simp: frame_wf_def)
      then obtain e where e: "mem_copy (mem_of ?p) 0 (mem_of (f_metadata in')) 0 (f_metadata_bytes in') = Some e"
        "length e = length (mem_of ?p)" "take (f_metadata_bytes in') e = take (f_metadata_bytes in') (mem_of (f_metadata in'))"
        using mem_copy_whole [of "f_metadata_bytes in'" "mem_of ?p" "mem_of (f_metadata in')"] assms(2)
        by (auto simp: frame_wf_def)
      from e have "uvc_duplicate_frame al in' out = Some (UVC_SUCCESS, o1\<lparr> f_width := f_width in',
          f_height := f_height in', f_frame_format := f_frame_format in', f_step := f_step in',
          f_sequence := f_sequence in', f_capture_time := f_capture_time in',
          f_capture_time_finished := f_capture_time_finished in', f_source := f_source in',
          f_data := Some d, f_metadata := Some e, f_metadata_bytes := f_metadata_bytes in' \<rparr>)"
        using True d o1 meta some by (simp add: uvc_duplicate_frame_def Let_def split del: if_split cong: if_cong)
      moreover have "f_metadata_bytes in' \<le> length e" "f_data_bytes o1 \<le> length d" "f_data_bytes in' \<le> f_data_bytes o1"
        using e \<open>f_metadata_bytes in' \<le> length (mem_of ?p)\<close> ok True d by (auto simp: frame_wf_def)
      ultimately show ?thesis using d e meta by (simp add: frame_wf_def mem_of_def)
    qed
  qed
qed

lemma duplicate_frame_correct_witness:
  "\<exists>out'. uvc_duplicate_frame zero_alloc sample_yuyv sample_out = Some (UVC_SUCCESS, out') \<and>
     take 16 (mem_of (f_data out')) = take 16 (mem_of (f_data sample_yuyv))"
proof -
  have "fst (the (uvc_duplicate_frame zero_alloc sample_yuyv sample_out)) = UVC_SUCCESS" by code_simp
  moreover have "f_data_bytes sample_yuyv = 16" by (simp add: sample_yuyv_def)
  ultimately show ?thesis
    using duplicate_frame_correct [of zero_alloc sample_yuyv sample_out] by (force simp: sample_defs)
qed

end
