(* ===== verification/Payload.thy ===== *)
theory Payload
  imports Frame_Conv Status_Xfer
begin

text \<open>
  From payload to frame (stream.c): the header parser and the double buffer of
  \<^verbatim>\<open>_uvc_process_payload\<close>, the transfer callback, and the two ways a frame reaches the
  application.  Each operation is one run under \<^verbatim>\<open>cb_mutex\<close> or on the event thread; waiting on
  \<^verbatim>\<open>cb_cond\<close> is a parameter that says what the other threads did meanwhile.
\<close>

section \<open>State\<close>

text \<open>
  \<open>sh_swaps\<close> is a history, not a field of the source: one entry per call of
  \<^verbatim>\<open>_uvc_swap_buffers\<close>, with whether it woke the listeners and what it left in the hold buffers.
  A transfer is known by its address; \<open>sh_freed\<close> lists the transfers given back to libusb.
\<close>

record uvc_stream_handle =
  sh_stream_if :: uvc_streaming_interface
  sh_running :: bool
  sh_cur_ctrl :: uvc_stream_ctrl
  sh_fid :: u8
  sh_seq :: u32
  sh_hold_seq :: u32
  sh_pts :: u32
  sh_hold_pts :: u32
  sh_last_scr :: u32
  sh_hold_last_scr :: u32
  sh_got_bytes :: nat
  sh_hold_bytes :: nat
  sh_outbuf :: bytes
  sh_holdbuf :: bytes
  sh_last_polled_seq :: u32
  sh_user_cb :: bool \<comment> \<open>user_cb is not NULL\<close>
  sh_transfers :: "nat option list"
  sh_frame :: uvc_frame
  sh_frame_format :: uvc_frame_format
  sh_capture_time_finished :: int
  sh_meta_outbuf :: bytes
  sh_meta_holdbuf :: bytes
  sh_meta_got_bytes :: nat
  sh_meta_hold_bytes :: nat
  sh_frame_had_errors :: bool
  sh_freed :: "nat list"
  sh_swaps :: "(bool \<times> u32 \<times> bytes \<times> bytes) list"

abbreviation LIBUVC_XFER_META_BUF_SIZE :: nat where "LIBUVC_XFER_META_BUF_SIZE \<equiv> 4096"
abbreviation LIBUVC_NUM_TRANSFER_BUFS :: nat where "LIBUVC_NUM_TRANSFER_BUFS \<equiv> 100"

text \<open>\<^verbatim>\<open>cur_ctrl.dwMaxVideoFrameSize\<close> as the \<^verbatim>\<open>size_t\<close> it is compared with.\<close>

abbreviation max_frame :: "uvc_stream_handle \<Rightarrow> nat" where
  "max_frame s \<equiv> unat (sc_dwMaxVideoFrameSize (sh_cur_ctrl s))"

section \<open>Payloads\<close>

text \<open>\<open>now k\<close> is what the clock reads at the \<open>k\<close>-th swap.\<close>

definition uvc_swap_buffers :: "(nat \<Rightarrow> int) \<Rightarrow> uvc_stream_handle \<Rightarrow> uvc_stream_handle" where
  "uvc_swap_buffers now s =
     (let s = s\<lparr> sh_capture_time_finished := now (length (sh_swaps s)) \<rparr>;
          s = s\<lparr> sh_hold_bytes := sh_got_bytes s, sh_holdbuf := sh_outbuf s, sh_outbuf := sh_holdbuf s,
                 sh_hold_last_scr := sh_last_scr s, sh_hold_pts := sh_pts s, sh_hold_seq := sh_seq s,
                 sh_meta_holdbuf := sh_meta_outbuf s, sh_meta_outbuf := sh_meta_holdbuf s,
                 sh_meta_hold_bytes := sh_meta_got_bytes s \<rparr>;
          s = s\<lparr> sh_swaps := sh_swaps s @ [(\<not> sh_frame_had_errors s, sh_hold_seq s,
                   take (sh_hold_bytes s) (sh_holdbuf s), take (sh_meta_hold_bytes s) (sh_meta_holdbuf s))],
                 sh_frame_had_errors := False \<rparr>
      in s\<lparr> sh_seq := sh_seq s + 1, sh_got_bytes := 0, sh_meta_got_bytes := 0, sh_last_scr := 0, sh_pts := 0 \<rparr>)"

definition isight_tag :: bytes where
  "isight_tag = [0x11, 0x22, 0x33, 0x44, 0xde, 0xad, 0xbe, 0xef, 0xde, 0xad, 0xfa, 0xce]"

definition isight_data :: "bool \<Rightarrow> bytes \<Rightarrow> bool" where
  "isight_data is_isight payload = (is_isight \<and>
     (length payload < 14 \<or> take 12 (drop 2 payload) \<noteq> isight_tag) \<and>
     (length payload < 15 \<or> take 12 (drop 3 payload) \<noteq> isight_tag))"

text \<open>The optional header fields: time stamp, clock reference, metadata; each gives the next offset.\<close>

definition header_pts :: "bytes \<Rightarrow> nat \<Rightarrow> u8 \<Rightarrow> nat \<Rightarrow> uvc_stream_handle \<Rightarrow> (nat \<times> uvc_stream_handle) option" where
  "header_pts payload header_len info off s =
     (if bit info 2
      then if off + 4 \<le> header_len
           then do { pts \<leftarrow> DW_TO_INT payload off; Some (off + 4, s\<lparr> sh_pts := pts \<rparr>) }
           else Some (off + 4, s\<lparr> sh_pts := 0 \<rparr>)
      else Some (off, s))"

definition header_scr :: "bytes \<Rightarrow> nat \<Rightarrow> u8 \<Rightarrow> nat \<Rightarrow> uvc_stream_handle \<Rightarrow> (nat \<times> uvc_stream_handle) option" where
  "header_scr payload header_len info off s =
     (if bit info 3
      then if off + 4 \<le> header_len
           then do { scr \<leftarrow> DW_TO_INT payload off; Some (off + 6, s\<lparr> sh_last_scr := scr \<rparr>) }
           else Some (off + 6, s\<lparr> sh_last_scr := 0 \<rparr>)
      else Some (off, s))"

definition header_meta :: "bytes \<Rightarrow> nat \<Rightarrow> nat \<Rightarrow> uvc_stream_handle \<Rightarrow> uvc_stream_handle option" where
  "header_meta payload header_len off s =
     (if header_len > off
      then let meta_len = header_len - off;
               meta_len = (if sh_meta_got_bytes s + meta_len > LIBUVC_XFER_META_BUF_SIZE
                           then size_sub LIBUVC_XFER_META_BUF_SIZE (sh_meta_got_bytes s) else meta_len)
           in do {
             buf \<leftarrow> mem_copy (sh_meta_outbuf s) (sh_meta_got_bytes s) payload off meta_len;
             Some (s\<lparr> sh_meta_outbuf := buf, sh_meta_got_bytes := sh_meta_got_bytes s + meta_len \<rparr>) }
      else Some s)"

text \<open>The header: the info byte, or \<^term>\<open>None\<close> when the error bit ends the payload.\<close>

definition process_header ::
  "(nat \<Rightarrow> int) \<Rightarrow> bytes \<Rightarrow> nat \<Rightarrow> uvc_stream_handle \<Rightarrow> (u8 option \<times> uvc_stream_handle) option" where
  "process_header now payload header_len s =
     (if header_len < 2 then Some (Some 0, s)
      else do {
        info \<leftarrow> rd payload 1;
        if bit info 6 then Some (None, s\<lparr> sh_frame_had_errors := True \<rparr>)
        else do {
          let s = (if sh_fid s \<noteq> info AND 1 \<and> sh_got_bytes s \<noteq> 0 then uvc_swap_buffers now s else s);
          let s = s\<lparr> sh_fid := info AND 1 \<rparr>;
          (off, s) \<leftarrow> header_pts payload header_len info 2 s;
          (off, s) \<leftarrow> header_scr payload header_len info off s;
          s \<leftarrow> header_meta payload header_len off s;
          Some (Some info, s) } })"

definition process_data ::
  "(nat \<Rightarrow> int) \<Rightarrow> bytes \<Rightarrow> nat \<Rightarrow> nat \<Rightarrow> u8 \<Rightarrow> uvc_stream_handle \<Rightarrow> uvc_stream_handle option" where
  "process_data now payload header_len data_len info s =
     (if data_len > 0
      then let data_len = (if sh_got_bytes s + data_len > max_frame s
                           then size_sub (max_frame s) (sh_got_bytes s) else data_len)
           in do {
             buf \<leftarrow> mem_copy (sh_outbuf s) (sh_got_bytes s) payload header_len data_len;
             let s = s\<lparr> sh_outbuf := buf, sh_got_bytes := sh_got_bytes s + data_len \<rparr>;
             Some (if bit info 1 \<or> sh_got_bytes s = max_frame s then uvc_swap_buffers now s else s) }
      else Some s)"

definition uvc_process_payload ::
  "(nat \<Rightarrow> int) \<Rightarrow> bool \<Rightarrow> bytes \<Rightarrow> uvc_stream_handle \<Rightarrow> uvc_stream_handle option" where
  "uvc_process_payload now is_isight payload s =
     (if payload = [] then Some s
      else do {
        b0 \<leftarrow> rd payload 0;
        let whole = isight_data is_isight payload;
        let header_len = (if whole then 0 else unat b0);
        if \<not> whole \<and> header_len > length payload then Some s
        else do {
          let data_len = (if whole then length payload else if is_isight then 0 else length payload - header_len);
          (info, s) \<leftarrow> process_header now payload header_len s;
          case info of
            None \<Rightarrow> Some s
          | Some info \<Rightarrow> process_data now payload header_len data_len info s } })"

section \<open>Transfers\<close>

text \<open>
  A completed transfer: the bytes received, or one entry per isochronous packet with its status
  and the bytes \<^verbatim>\<open>libusb_get_iso_packet_buffer_simple\<close> finds for it.
\<close>

record libusb_transfer =
  xf_id :: nat
  xf_status :: xfer_status
  xf_data :: bytes
  xf_packets :: "(int \<times> bytes) list"

fun process_packets ::
  "(nat \<Rightarrow> int) \<Rightarrow> bool \<Rightarrow> (int \<times> bytes) list \<Rightarrow> uvc_stream_handle \<Rightarrow> uvc_stream_handle option" where
  "process_packets now is_isight [] s = Some s"
| "process_packets now is_isight ((status, pkt) # pkts) s =
     (if status \<noteq> 0 then process_packets now is_isight pkts (s\<lparr> sh_frame_had_errors := True \<rparr>)
      else do { s \<leftarrow> uvc_process_payload now is_isight pkt s; process_packets now is_isight pkts s })"

text \<open>The loop that looks for the transfer in the slots and frees it: the first match only.\<close>

fun clear_slot :: "nat \<Rightarrow> nat option list \<Rightarrow> nat option list option" where
  "clear_slot t [] = None"
| "clear_slot t (x # xs) = (if x = Some t then Some (None # xs) else map_option ((#) x) (clear_slot t xs))"

definition delete_transfer :: "nat \<Rightarrow> uvc_stream_handle \<Rightarrow> uvc_stream_handle" where
  "delete_transfer t s = (case clear_slot t (sh_transfers s) of
     None \<Rightarrow> s | Some ts \<Rightarrow> s\<lparr> sh_transfers := ts, sh_freed := t # sh_freed s \<rparr>)"

text \<open>\<open>submit\<close> is libusb's answer to the resubmission; the result says whether it was submitted.\<close>

definition uvc_stream_callback ::
  "(nat \<Rightarrow> int) \<Rightarrow> bool \<Rightarrow> int \<Rightarrow> libusb_transfer \<Rightarrow> uvc_stream_handle \<Rightarrow> (bool \<times> uvc_stream_handle) option" where
  "uvc_stream_callback now is_isight submit tr s = do {
     (resubmit, s) \<leftarrow> (case xf_status tr of
         Completed \<Rightarrow> map_option (Pair True)
           (if xf_packets tr = [] then uvc_process_payload now is_isight (xf_data tr) s
            else process_packets now is_isight (xf_packets tr) s)
       | Cancelled \<Rightarrow> Some (False, delete_transfer (xf_id tr) s)
       | Error \<Rightarrow> Some (False, delete_transfer (xf_id tr) s)
       | No_device \<Rightarrow> Some (False, delete_transfer (xf_id tr) s)
       | _ \<Rightarrow> Some (True, s));
     if resubmit
     then if sh_running s
          then if submit < 0 then Some (False, delete_transfer (xf_id tr) s) else Some (True, s)
          else Some (False, delete_transfer (xf_id tr) s)
     else Some (False, s) }"

section \<open>Frames for the application\<close>

definition frame_step :: "uvc_frame_format \<Rightarrow> nat \<Rightarrow> nat" where
  "frame_step fmt width = (case fmt of
     FORMAT_BGR \<Rightarrow> width * 3 | FORMAT_YUYV \<Rightarrow> width * 2 | FORMAT_NV12 \<Rightarrow> width | FORMAT_P010 \<Rightarrow> width * 2 | _ \<Rightarrow> 0)"

text \<open>
  The copy of the image: the buffer grows to what was received or to the nominal size; in the
  second case the rest is cleared.  A failed reallocation ends the call with the pointer lost.
\<close>

definition populate_data :: "allocator \<Rightarrow> bytes \<Rightarrow> nat \<Rightarrow> uvc_frame \<Rightarrow> (bool \<times> uvc_frame) option" where
  "populate_data al holdbuf hold_bytes frame =
     (let nominal = unat (f_height frame) * f_step frame;
          grown = (if f_data_bytes frame < hold_bytes \<or> f_data_bytes frame < nominal
                   then if hold_bytes \<ge> nominal
                        then (case realloc al (f_data frame) hold_bytes of
                                None \<Rightarrow> (False, frame\<lparr> f_data := None \<rparr>)
                              | Some d \<Rightarrow> (True, frame\<lparr> f_data := Some d, f_data_bytes := hold_bytes \<rparr>))
                        else (case realloc al (f_data frame) nominal of
                                None \<Rightarrow> (False, frame\<lparr> f_data := None \<rparr>)
                              | Some d \<Rightarrow> (True, frame\<lparr> f_data := Some (take hold_bytes d @ replicate (nominal - hold_bytes) 0),
                                  f_data_bytes := nominal \<rparr>))
                   else (True, frame\<lparr> f_data_bytes := hold_bytes \<rparr>))
      in if fst grown
         then do { d \<leftarrow> mem_copy (mem_of (f_data (snd grown))) 0 holdbuf 0 hold_bytes;
                   Some (True, (snd grown)\<lparr> f_data := (if f_data (snd grown) = None then None else Some d) \<rparr>) }
         else Some (False, snd grown))"

definition populate_meta :: "allocator \<Rightarrow> bytes \<Rightarrow> nat \<Rightarrow> uvc_frame \<Rightarrow> uvc_frame option" where
  "populate_meta al holdbuf hold_bytes frame =
     (if hold_bytes > 0
      then let p = (if f_metadata_bytes frame < hold_bytes then realloc al (f_metadata frame) hold_bytes
                    else f_metadata frame)
           in do { d \<leftarrow> mem_copy (mem_of p) 0 holdbuf 0 hold_bytes;
                   Some (frame\<lparr> f_metadata := Some d, f_metadata_bytes := hold_bytes \<rparr>) }
      else Some frame)"

definition uvc_populate_frame :: "allocator \<Rightarrow> uvc_device_info \<Rightarrow> uvc_stream_handle \<Rightarrow> uvc_stream_handle option" where
  "uvc_populate_frame al info s = do {
     fd \<leftarrow> uvc_find_frame_desc info (ucast (sc_bFormatIndex (sh_cur_ctrl s))) (ucast (sc_bFrameIndex (sh_cur_ctrl s)));
     let frame = (sh_frame s)\<lparr> f_frame_format := sh_frame_format s, f_width := ucast (fr_wWidth fd),
       f_height := ucast (fr_wHeight fd), f_step := frame_step (sh_frame_format s) (unat (fr_wWidth fd)),
       f_sequence := sh_hold_seq s, f_capture_time_finished := sh_capture_time_finished s \<rparr>;
     (ok, frame) \<leftarrow> populate_data al (sh_holdbuf s) (sh_hold_bytes s) frame;
     if ok
     then do { frame \<leftarrow> populate_meta al (sh_meta_holdbuf s) (sh_meta_hold_bytes s) frame;
               Some (s\<lparr> sh_frame := frame \<rparr>) }
     else Some (s\<lparr> sh_frame := frame \<rparr>) }"

text \<open>
  Polling.  The point in time the wait ends, from the clock \<open>(sec, nsec)\<close>; the waits say what they
  return and what the state is when the lock is held again.  The frame pointer of the caller is
  \<^term>\<open>None\<close> where it is not written, \<open>Some None\<close> where it is set to \<^verbatim>\<open>NULL\<close>.
\<close>

definition poll_deadline :: "int \<times> int \<Rightarrow> int \<Rightarrow> int \<times> int" where
  "poll_deadline clock timeout_us =
     (let add_secs = timeout_us sdiv 1000000; add_nsecs = (timeout_us smod 1000000) * 1000;
          sec = fst clock + add_secs; nsec = snd clock + add_nsecs
      in (sec + nsec sdiv 1000000000, nsec smod 1000000000))"

definition poll_take ::
  "allocator \<Rightarrow> uvc_device_info \<Rightarrow> uvc_stream_handle \<Rightarrow> (uvc_frame option \<times> uvc_stream_handle) option" where
  "poll_take al info s =
     (if sh_last_polled_seq s < sh_hold_seq s
      then do { s \<leftarrow> uvc_populate_frame al info s;
                Some (Some (sh_frame s), s\<lparr> sh_last_polled_seq := sh_hold_seq s \<rparr>) }
      else Some (None, s))"

definition uvc_stream_get_frame ::
  "allocator \<Rightarrow> uvc_device_info \<Rightarrow> int \<times> int \<Rightarrow> (uvc_stream_handle \<Rightarrow> uvc_stream_handle) \<Rightarrow>
   (int \<times> int \<Rightarrow> uvc_stream_handle \<Rightarrow> int \<times> uvc_stream_handle) \<Rightarrow> int \<Rightarrow> uvc_stream_handle \<Rightarrow>
   (int \<times> uvc_frame option option \<times> uvc_stream_handle) option" where
  "uvc_stream_get_frame al info clock wait timedwait timeout_us s =
     (if \<not> sh_running s then Some (UVC_ERROR_INVALID_PARAM, None, s)
      else if sh_user_cb s then Some (UVC_ERROR_CALLBACK_EXISTS, None, s)
      else if sh_last_polled_seq s < sh_hold_seq s
      then map_option (\<lambda>(f, s). (UVC_SUCCESS, Some f, s)) (poll_take al info s)
      else if timeout_us \<noteq> -1
      then let (err, s) = (if timeout_us = 0 then (0, wait s) else timedwait (poll_deadline clock timeout_us) s) in
        if err \<noteq> 0
        then Some (if err = 110 then UVC_ERROR_TIMEOUT else UVC_ERROR_OTHER, Some None, s)
        else map_option (\<lambda>(f, s). (UVC_SUCCESS, Some f, s)) (poll_take al info s)
      else Some (UVC_SUCCESS, Some None, s))"

text \<open>
  One turn of \<^verbatim>\<open>_uvc_user_caller\<close> when it holds the lock: wait, leave, or deliver a frame.  \<open>looks\<close>
  are the states it finds at each wake-up; the result are the frames handed to the callback.
\<close>

datatype caller_turn = Turn_wait | Turn_exit | Turn_deliver u32 uvc_stream_handle

definition uvc_user_caller_turn ::
  "allocator \<Rightarrow> uvc_device_info \<Rightarrow> u32 \<Rightarrow> uvc_stream_handle \<Rightarrow> caller_turn option" where
  "uvc_user_caller_turn al info last_seq s =
     (if sh_running s \<and> last_seq = sh_hold_seq s then Some Turn_wait
      else if \<not> sh_running s then Some Turn_exit
      else do { let last_seq = sh_hold_seq s; s \<leftarrow> uvc_populate_frame al info s; Some (Turn_deliver last_seq s) })"

fun uvc_user_caller ::
  "allocator \<Rightarrow> uvc_device_info \<Rightarrow> u32 \<Rightarrow> uvc_stream_handle list \<Rightarrow> uvc_frame list option" where
  "uvc_user_caller al info last_seq [] = Some []"
| "uvc_user_caller al info last_seq (s # looks) = do {
     turn \<leftarrow> uvc_user_caller_turn al info last_seq s;
     case turn of
       Turn_wait \<Rightarrow> uvc_user_caller al info last_seq looks
     | Turn_exit \<Rightarrow> Some []
     | Turn_deliver last_seq s \<Rightarrow> map_option ((#) (sh_frame s)) (uvc_user_caller al info last_seq looks) }"

section \<open>The invariant\<close>

text \<open>
  The working buffers hold a frame of the negotiated size and what has been received fits; the hold
  buffers hold what the last swap published.
\<close>

definition stream_wf :: "uvc_stream_handle \<Rightarrow> bool" where
  "stream_wf s = (max_frame s \<le> length (sh_outbuf s) \<and> max_frame s \<le> length (sh_holdbuf s) \<and>
     sh_got_bytes s \<le> max_frame s \<and> sh_hold_bytes s \<le> length (sh_holdbuf s) \<and>
     length (sh_meta_outbuf s) = LIBUVC_XFER_META_BUF_SIZE \<and> length (sh_meta_holdbuf s) = LIBUVC_XFER_META_BUF_SIZE \<and>
     sh_meta_got_bytes s \<le> LIBUVC_XFER_META_BUF_SIZE \<and> sh_meta_hold_bytes s \<le> LIBUVC_XFER_META_BUF_SIZE \<and>
     (sh_swaps s = [] \<or> snd (last (sh_swaps s)) = (sh_hold_seq s, take (sh_hold_bytes s) (sh_holdbuf s),
        take (sh_meta_hold_bytes s) (sh_meta_holdbuf s))))"

lemma mem_copy_append:
  assumes "i + n \<le> length dst" and "j + n \<le> length src"
  obtains d where "mem_copy dst i src j n = Some d" and "length d = length dst"
    and "take (i + n) d = take i dst @ take n (drop j src)"
  using assms by (auto simp: mem_copy_def rd_bytes_def mem_put_def)

section \<open>What assembling a frame means\<close>

text \<open>
  The abstract machine: a payload is nothing, a report of an error, or data with an optional
  header; a frame is the bytes and metadata received since the last one, closed by the end mark, by
  a full buffer or by a change of the frame identifier.
\<close>

datatype payload_kind =
    P_ignored | P_error
  | P_data (p_header: "(u8 \<times> bool \<times> bytes) option") (p_image: bytes) \<comment> \<open>identifier, end mark, metadata\<close>

record assembly =
  as_fid :: u8
  as_image :: bytes
  as_meta :: bytes
  as_bad :: bool
  as_seq :: u32
  as_done :: "(bool \<times> u32 \<times> bytes \<times> bytes) list"

definition meta_offset :: "u8 \<Rightarrow> nat" where
  "meta_offset info = 2 + (if bit info 2 then 4 else 0) + (if bit info 3 then 6 else 0)"

definition classify :: "bool \<Rightarrow> bytes \<Rightarrow> payload_kind" where
  "classify is_isight p =
     (if p = [] then P_ignored
      else if isight_data is_isight p then P_data None p
      else let h = unat (p ! 0); img = (if is_isight then [] else drop h p) in
        if length p < h then P_ignored
        else if h < 2 then P_data None img
        else if bit (p ! 1) 6 then P_error
        else P_data (Some (p ! 1 AND 1, bit (p ! 1) 1, drop (meta_offset (p ! 1)) (take h p))) img)"

definition close_frame :: "assembly \<Rightarrow> assembly" where
  "close_frame a = a\<lparr> as_image := [], as_meta := [], as_bad := False, as_seq := as_seq a + 1,
     as_done := as_done a @ [(\<not> as_bad a, as_seq a, as_image a, as_meta a)] \<rparr>"

definition add_header :: "(u8 \<times> bool \<times> bytes) option \<Rightarrow> assembly \<Rightarrow> assembly" where
  "add_header h a = (case h of
     None \<Rightarrow> a
   | Some (fid, eof, meta) \<Rightarrow>
       let a = (if as_fid a \<noteq> fid \<and> as_image a \<noteq> [] then close_frame a else a)
       in a\<lparr> as_fid := fid, as_meta := take LIBUVC_XFER_META_BUF_SIZE (as_meta a @ meta) \<rparr>)"

definition add_image :: "nat \<Rightarrow> bool \<Rightarrow> bytes \<Rightarrow> assembly \<Rightarrow> assembly" where
  "add_image limit eof img a =
     (if img = [] then a
      else let a = a\<lparr> as_image := take limit (as_image a @ img) \<rparr>
           in if eof \<or> length (as_image a) = limit then close_frame a else a)"

definition ends_frame :: "(u8 \<times> bool \<times> bytes) option \<Rightarrow> bool" where
  "ends_frame h = (case h of None \<Rightarrow> False | Some (fid, eof, meta) \<Rightarrow> eof)"

definition assemble :: "nat \<Rightarrow> payload_kind \<Rightarrow> assembly \<Rightarrow> assembly" where
  "assemble limit k a = (case k of
     P_ignored \<Rightarrow> a
   | P_error \<Rightarrow> a\<lparr> as_bad := True \<rparr>
   | P_data h img \<Rightarrow> add_image limit (ends_frame h) img (add_header h a))"

definition abs_stream :: "uvc_stream_handle \<Rightarrow> assembly" where
  "abs_stream s = \<lparr> as_fid = sh_fid s, as_image = take (sh_got_bytes s) (sh_outbuf s),
     as_meta = take (sh_meta_got_bytes s) (sh_meta_outbuf s), as_bad = sh_frame_had_errors s,
     as_seq = sh_seq s, as_done = sh_swaps s \<rparr>"

section \<open>Refinement, operation by operation\<close>

text \<open>\<open>sim s t a\<close>: the step from \<open>s\<close> succeeded with \<open>t\<close>, which is well formed and means \<open>a\<close>.\<close>

definition keeps :: "uvc_stream_handle \<Rightarrow> uvc_stream_handle \<Rightarrow> bool" where
  "keeps s t = (sh_stream_if t = sh_stream_if s \<and> sh_cur_ctrl t = sh_cur_ctrl s \<and> sh_running t = sh_running s \<and> sh_transfers t = sh_transfers s \<and>
     sh_freed t = sh_freed s \<and> sh_frame t = sh_frame s \<and> sh_user_cb t = sh_user_cb s \<and>
     sh_last_polled_seq t = sh_last_polled_seq s)"

definition sim :: "uvc_stream_handle \<Rightarrow> uvc_stream_handle \<Rightarrow> assembly \<Rightarrow> bool" where
  "sim s t a = (stream_wf t \<and> keeps s t \<and> abs_stream t = a)"

lemma keeps_refl [simp]: "keeps s s"
  by (simp add: keeps_def)

lemma keeps_trans: "keeps s t \<Longrightarrow> keeps t u \<Longrightarrow> keeps s u"
  by (simp add: keeps_def)

lemma sim_refl: "stream_wf s \<Longrightarrow> sim s s (abs_stream s)"
  by (simp add: sim_def)

lemma swap_sim: "stream_wf s \<Longrightarrow> sim s (uvc_swap_buffers now s) (close_frame (abs_stream s))"
  by (simp add: sim_def stream_wf_def keeps_def abs_stream_def uvc_swap_buffers_def close_frame_def Let_def)

lemma header_pts_sim:
  assumes "stream_wf s" and "header_len \<le> length payload"
  shows "\<exists>t. header_pts payload header_len info off s = Some (if bit info 2 then off + 4 else off, t) \<and> sim s t (abs_stream s)"
  using assms
  by (auto simp: header_pts_def DW_TO_INT_Some sim_def stream_wf_def keeps_def abs_stream_def)

lemma header_scr_sim:
  assumes "stream_wf s" and "header_len \<le> length payload"
  shows "\<exists>t. header_scr payload header_len info off s = Some (if bit info 3 then off + 6 else off, t) \<and> sim s t (abs_stream s)"
  using assms
  by (auto simp: header_scr_def DW_TO_INT_Some sim_def stream_wf_def keeps_def abs_stream_def)

lemma header_meta_sim:
  assumes "stream_wf s" and "header_len \<le> length payload"
  shows "\<exists>t. header_meta payload header_len off s = Some t \<and>
    sim s t (abs_stream s\<lparr> as_meta := take LIBUVC_XFER_META_BUF_SIZE (as_meta (abs_stream s) @ drop off (take header_len payload)) \<rparr>)"
proof (cases "header_len > off")
  case False
  then show ?thesis using assms by (auto simp: header_meta_def sim_def stream_wf_def abs_stream_def)
next
  case True
  let ?n = "min (header_len - off) (LIBUVC_XFER_META_BUF_SIZE - sh_meta_got_bytes s)"
  have n: "(if sh_meta_got_bytes s + (header_len - off) > LIBUVC_XFER_META_BUF_SIZE
      then size_sub LIBUVC_XFER_META_BUF_SIZE (sh_meta_got_bytes s) else header_len - off) = ?n"
    using assms(1) by (auto simp: stream_wf_def)
  obtain d where d: "mem_copy (sh_meta_outbuf s) (sh_meta_got_bytes s) payload off ?n = Some d"
    "length d = length (sh_meta_outbuf s)"
    "take (sh_meta_got_bytes s + ?n) d = take (sh_meta_got_bytes s) (sh_meta_outbuf s) @ take ?n (drop off payload)"
    using assms True by (auto simp: stream_wf_def intro: mem_copy_append [of "sh_meta_got_bytes s" ?n "sh_meta_outbuf s" off payload])
  have "take ?n (drop off payload) =
      take (LIBUVC_XFER_META_BUF_SIZE - sh_meta_got_bytes s) (drop off (take header_len payload))"
    by (simp add: drop_take min.commute)
  then show ?thesis using assms True d n
    by (auto simp: header_meta_def Let_def sim_def stream_wf_def keeps_def abs_stream_def)
qed

lemma sim_trans: "sim s t a \<Longrightarrow> sim t u b \<Longrightarrow> sim s u b"
  by (auto simp: sim_def intro: keeps_trans)

lemma fid_sim: "sim s t a \<Longrightarrow> sim s (t\<lparr> sh_fid := f \<rparr>) (a\<lparr> as_fid := f \<rparr>)"
  by (auto simp: sim_def stream_wf_def keeps_def abs_stream_def)

lemma got_bytes_abs: "stream_wf s \<Longrightarrow> sh_got_bytes s = 0 \<longleftrightarrow> as_image (abs_stream s) = []"
  by (auto simp: stream_wf_def abs_stream_def)

lemma process_header_sim:
  assumes wf: "stream_wf s" and len: "header_len \<le> length payload" and h2: "2 \<le> header_len"
    and no_error: "\<not> bit (payload ! 1) 6"
  shows "\<exists>t. process_header now payload header_len s = Some (Some (payload ! 1), t) \<and>
    sim s t (add_header (Some (payload ! 1 AND 1, eof, drop (meta_offset (payload ! 1)) (take header_len payload))) (abs_stream s))"
proof -
  let ?info = "payload ! 1"
  let ?s1 = "if sh_fid s \<noteq> ?info AND 1 \<and> sh_got_bytes s \<noteq> 0 then uvc_swap_buffers now s else s"
  let ?a1 = "if as_fid (abs_stream s) \<noteq> ?info AND 1 \<and> as_image (abs_stream s) \<noteq> [] then close_frame (abs_stream s) else abs_stream s"
  let ?s2 = "?s1\<lparr> sh_fid := ?info AND 1 \<rparr>"
  have "sim s ?s1 ?a1"
    using swap_sim [OF wf] sim_refl [OF wf] got_bytes_abs [OF wf] by (auto simp: abs_stream_def)
  then have s2: "sim s ?s2 (?a1\<lparr> as_fid := ?info AND 1 \<rparr>)"
    by (rule fid_sim)
  obtain s3 where s3: "header_pts payload header_len ?info 2 ?s2 = Some (if bit ?info 2 then 2 + 4 else 2, s3)" "sim ?s2 s3 (abs_stream ?s2)"
    using header_pts_sim [OF _ len, of ?s2 ?info 2] s2 by (auto simp: sim_def)
  let ?o3 = "if bit ?info 2 then 2 + 4 else (2 :: nat)"
  obtain s4 where s4: "header_scr payload header_len ?info ?o3 s3 = Some (if bit ?info 3 then ?o3 + 6 else ?o3, s4)" "sim s3 s4 (abs_stream s3)"
    using header_scr_sim [OF _ len, of s3 ?info ?o3] s3(2) by (auto simp: sim_def)
  have o4: "(if bit ?info 3 then ?o3 + 6 else ?o3) = meta_offset ?info" by (simp add: meta_offset_def)
  obtain t where t: "header_meta payload header_len (meta_offset ?info) s4 = Some t"
    "sim s4 t (abs_stream s4\<lparr> as_meta := take LIBUVC_XFER_META_BUF_SIZE
      (as_meta (abs_stream s4) @ drop (meta_offset ?info) (take header_len payload)) \<rparr>)"
    using header_meta_sim [OF _ len, of s4 "meta_offset ?info"] s4(2) by (auto simp: sim_def)
  have "process_header now payload header_len s = Some (Some ?info, t)"
    using h2 len no_error s3(1) s4(1) t(1) unfolding o4 by (simp add: process_header_def rd_def Let_def del: One_nat_def)
  moreover have "abs_stream s4 = ?a1\<lparr> as_fid := ?info AND 1 \<rparr>" using s2 s3 s4 by (simp only: sim_def)
  moreover have "sim s t (as_meta_update (\<lambda>_. take LIBUVC_XFER_META_BUF_SIZE
      (as_meta (abs_stream s4) @ drop (meta_offset ?info) (take header_len payload))) (abs_stream s4))"
    using s2 s3(2) s4(2) t(2) by (blast intro: sim_trans)
  ultimately show ?thesis by (auto simp: add_header_def Let_def)
qed

lemma process_data_sim:
  assumes wf: "stream_wf s" and len: "header_len + data_len \<le> length payload"
  shows "\<exists>t. process_data now payload header_len data_len info s = Some t \<and>
    sim s t (add_image (max_frame s) (bit info 1) (take data_len (drop header_len payload)) (abs_stream s))"
proof (cases "data_len = 0")
  case True
  then show ?thesis using sim_refl [OF wf] by (simp add: process_data_def add_image_def)
next
  case False
  let ?n = "min data_len (max_frame s - sh_got_bytes s)"
  have n: "(if sh_got_bytes s + data_len > max_frame s then size_sub (max_frame s) (sh_got_bytes s) else data_len) = ?n"
    using wf by (auto simp: stream_wf_def)
  obtain d where d: "mem_copy (sh_outbuf s) (sh_got_bytes s) payload header_len ?n = Some d"
    "length d = length (sh_outbuf s)"
    "take (sh_got_bytes s + ?n) d = take (sh_got_bytes s) (sh_outbuf s) @ take ?n (drop header_len payload)"
    using wf len by (auto simp: stream_wf_def intro: mem_copy_append [of "sh_got_bytes s" ?n "sh_outbuf s" header_len payload])
  let ?s1 = "s\<lparr> sh_outbuf := d, sh_got_bytes := sh_got_bytes s + ?n \<rparr>"
  let ?img = "take data_len (drop header_len payload)"
  let ?a1 = "abs_stream s\<lparr> as_image := take (max_frame s) (as_image (abs_stream s) @ ?img) \<rparr>"
  have a1: "abs_stream ?s1 = ?a1" using wf d by (auto simp: abs_stream_def stream_wf_def min.commute)
  have wf1: "stream_wf ?s1" using wf d by (auto simp: stream_wf_def)
  have full: "length (as_image ?a1) = max_frame s \<longleftrightarrow> sh_got_bytes ?s1 = max_frame s"
    using wf wf1 len by (auto simp: abs_stream_def stream_wf_def)
  have "sim s ?s1 ?a1" using wf1 a1 by (simp add: sim_def keeps_def)
  moreover have "sim ?s1 (uvc_swap_buffers now ?s1) (close_frame ?a1)" using swap_sim [OF wf1] a1 by simp
  moreover have "?img \<noteq> []" using False len by auto
  ultimately show ?thesis using d n full False
    by (auto simp: process_data_def add_image_def Let_def intro: sim_trans)
qed

lemma process_payload_sim:
  assumes wf: "stream_wf s"
  shows "\<exists>t. uvc_process_payload now is_isight payload s = Some t \<and>
    sim s t (assemble (max_frame s) (classify is_isight payload) (abs_stream s))"
proof -
  consider (empty) "payload = []" | (whole) "payload \<noteq> []" "isight_data is_isight payload"
    | (bogus) "payload \<noteq> []" "\<not> isight_data is_isight payload" "length payload < unat (payload ! 0)"
    | (short) "payload \<noteq> []" "\<not> isight_data is_isight payload" "unat (payload ! 0) \<le> length payload" "unat (payload ! 0) < 2"
    | (error) "payload \<noteq> []" "\<not> isight_data is_isight payload" "unat (payload ! 0) \<le> length payload" "2 \<le> unat (payload ! 0)"
        "bit (payload ! 1) 6"
    | (full) "payload \<noteq> []" "\<not> isight_data is_isight payload" "unat (payload ! 0) \<le> length payload" "2 \<le> unat (payload ! 0)"
        "\<not> bit (payload ! 1) 6" by linarith
  then show ?thesis
  proof cases
    case empty
    then show ?thesis using sim_refl [OF wf] by (simp add: uvc_process_payload_def classify_def assemble_def)
  next
    case whole
    then show ?thesis using process_data_sim [OF wf, of 0 "length payload" payload now 0]
      by (simp add: uvc_process_payload_def classify_def assemble_def process_header_def rd_def Let_def
        add_header_def ends_frame_def)
  next
    case bogus
    then show ?thesis using sim_refl [OF wf]
      by (simp add: uvc_process_payload_def classify_def assemble_def rd_def Let_def)
  next
    case short
    then show ?thesis
      using process_data_sim [OF wf, of "unat (payload ! 0)" "if is_isight then 0 else length payload - unat (payload ! 0)" payload now 0]
      by (auto simp: uvc_process_payload_def classify_def assemble_def process_header_def rd_def Let_def
        add_header_def ends_frame_def)
  next
    case error
    then show ?thesis using wf
      by (auto simp: uvc_process_payload_def classify_def assemble_def process_header_def rd_def Let_def
        sim_def keeps_def stream_wf_def abs_stream_def)
  next
    case full
    let ?h = "unat (payload ! 0)"
    let ?n = "if is_isight then 0 else length payload - ?h"
    let ?hdr = "Some (payload ! 1 AND 1, bit (payload ! 1) 1, drop (meta_offset (payload ! 1)) (take ?h payload))"
    obtain t where t: "process_header now payload ?h s = Some (Some (payload ! 1), t)"
      "sim s t (add_header ?hdr (abs_stream s))"
      using process_header_sim [OF wf full(3,4,5), of now "bit (payload ! 1) 1"] by blast
    then have wf': "stream_wf t" and m: "max_frame t = max_frame s"
      and a: "abs_stream t = add_header ?hdr (abs_stream s)" by (auto simp: sim_def keeps_def)
    have b: "?h + ?n \<le> length payload" using full by simp
    obtain u where u: "process_data now payload ?h ?n (payload ! 1) t = Some u"
      "sim t u (add_image (max_frame s) (bit (payload ! 1) 1) (take ?n (drop ?h payload)) (add_header ?hdr (abs_stream s)))"
      using process_data_sim [OF wf' b, of now "payload ! 1"] unfolding a m by blast
    have "uvc_process_payload now is_isight payload s = Some u"
      using full t(1) u(1) by (auto simp: uvc_process_payload_def rd_def Let_def)
    moreover have "sim s u (assemble (max_frame s) (classify is_isight payload) (abs_stream s))"
      using sim_trans [OF t(2) u(2)] full by (auto simp: classify_def assemble_def ends_frame_def Let_def)
    ultimately show ?thesis by blast
  qed
qed

section \<open>Machines that refine a specification\<close>

text \<open>
  The interface between one step and a whole run: a partial step function that, from every state
  of an invariant, succeeds, keeps the invariant and does what the specification says.
\<close>

fun run_all :: "('p \<Rightarrow> 's \<Rightarrow> 's option) \<Rightarrow> 'p list \<Rightarrow> 's \<Rightarrow> 's option" where
  "run_all f [] s = Some s"
| "run_all f (p # ps) s = Option.bind (f p s) (run_all f ps)"

locale refining_machine =
  fixes step :: "'p \<Rightarrow> 's \<Rightarrow> 's option" and inv :: "'s \<Rightarrow> bool" and abs :: "'s \<Rightarrow> 'a" and spec :: "'p \<Rightarrow> 'a \<Rightarrow> 'a"
  assumes step_ok: "inv s \<Longrightarrow> \<exists>t. step p s = Some t \<and> inv t \<and> abs t = spec p (abs s)"
begin

lemma run_ok: "inv s \<Longrightarrow> \<exists>t. run_all step ps s = Some t \<and> inv t \<and> abs t = fold spec ps (abs s)"
proof (induction ps arbitrary: s)
  case (Cons p ps)
  obtain t where t: "step p s = Some t" "inv t" "abs t = spec p (abs s)" using step_ok [OF Cons.prems] by blast
  show ?case using Cons.IH [OF t(2)] t by auto
qed simp

end

definition stream_inv :: "uvc_stream_handle \<Rightarrow> uvc_stream_handle \<Rightarrow> bool" where
  "stream_inv s0 s = (stream_wf s \<and> keeps s0 s)"

interpretation pay: refining_machine "uvc_process_payload now is_isight" "stream_inv s0" abs_stream
    "\<lambda>p. assemble (max_frame s0) (classify is_isight p)" for now is_isight s0
proof
  fix s p assume "stream_inv s0 s"
  then have "stream_wf s" "keeps s0 s" "max_frame s = max_frame s0" by (auto simp: stream_inv_def keeps_def)
  then show "\<exists>t. uvc_process_payload now is_isight p s = Some t \<and> stream_inv s0 t \<and>
      abs_stream t = assemble (max_frame s0) (classify is_isight p) (abs_stream s)"
    using process_payload_sim [of s now is_isight p] by (auto simp: sim_def stream_inv_def intro: keeps_trans)
qed

text \<open>An isochronous packet: a bad status marks the frame, a good one is a payload.\<close>

definition packet_step :: "(nat \<Rightarrow> int) \<Rightarrow> bool \<Rightarrow> int \<times> bytes \<Rightarrow> uvc_stream_handle \<Rightarrow> uvc_stream_handle option" where
  "packet_step now is_isight p s = (if fst p \<noteq> 0 then Some (s\<lparr> sh_frame_had_errors := True \<rparr>)
     else uvc_process_payload now is_isight (snd p) s)"

definition packet_kind :: "bool \<Rightarrow> int \<times> bytes \<Rightarrow> payload_kind" where
  "packet_kind is_isight p = (if fst p \<noteq> 0 then P_error else classify is_isight (snd p))"

lemma process_packets_run: "process_packets now is_isight pkts s = run_all (packet_step now is_isight) pkts s"
proof (induction pkts arbitrary: s)
  case (Cons p pkts)
  then have "process_packets now is_isight pkts = run_all (packet_step now is_isight) pkts" by blast
  then show ?case by (cases p) (simp add: packet_step_def [of _ _ "(a, b)" for a b])
qed simp

interpretation pkt: refining_machine "packet_step now is_isight" "stream_inv s0" abs_stream
    "\<lambda>p. assemble (max_frame s0) (packet_kind is_isight p)" for now is_isight s0
proof
  fix s p assume inv: "stream_inv s0 s"
  then show "\<exists>t. packet_step now is_isight p s = Some t \<and> stream_inv s0 t \<and>
      abs_stream t = assemble (max_frame s0) (packet_kind is_isight p) (abs_stream s)"
    using pay.step_ok [of s0 s now is_isight "snd p"]
    by (auto simp: packet_step_def packet_kind_def stream_inv_def assemble_def stream_wf_def keeps_def abs_stream_def)
qed

text \<open>The payloads a transfer carries.\<close>

definition transfer_kinds :: "bool \<Rightarrow> libusb_transfer \<Rightarrow> payload_kind list" where
  "transfer_kinds is_isight tr =
     (if xf_status tr \<noteq> Completed then []
      else if xf_packets tr = [] then [classify is_isight (xf_data tr)]
      else map (packet_kind is_isight) (xf_packets tr))"

lemma completed_sim:
  assumes "stream_wf s" and "xf_status tr = Completed"
  shows "\<exists>t. (if xf_packets tr = [] then uvc_process_payload now is_isight (xf_data tr) s
      else process_packets now is_isight (xf_packets tr) s) = Some t \<and> stream_inv s t \<and>
    abs_stream t = fold (assemble (max_frame s)) (transfer_kinds is_isight tr) (abs_stream s)"
proof -
  have inv: "stream_inv s s" using assms by (simp add: stream_inv_def)
  show ?thesis
  proof (cases "xf_packets tr = []")
    case True
    then show ?thesis using pay.step_ok [OF inv, of now is_isight "xf_data tr"] assms(2)
      by (simp add: transfer_kinds_def)
  next
    case False
    then show ?thesis using pkt.run_ok [OF inv, of now is_isight "xf_packets tr"] assms(2)
      by (simp add: transfer_kinds_def process_packets_run fold_map comp_def)
  qed
qed

section \<open>Slots\<close>

definition live :: "uvc_stream_handle \<Rightarrow> nat set" where
  "live s = {t. Some t \<in> set (sh_transfers s)}"

text \<open>Every transfer has one slot.\<close>

definition slots_ok :: "uvc_stream_handle \<Rightarrow> bool" where
  "slots_ok s = distinct (filter (\<lambda>x. x \<noteq> None) (sh_transfers s))"

lemma clear_slot_None: "clear_slot t ts = None \<longleftrightarrow> Some t \<notin> set ts"
  by (induction ts) auto

lemma clear_slot_Some:
  assumes "clear_slot t ts = Some ts'"
  shows "length ts' = length ts \<and> filter (\<lambda>x. x \<noteq> None) ts' = remove1 (Some t) (filter (\<lambda>x. x \<noteq> None) ts)"
  using assms by (induction ts arbitrary: ts') (auto split: if_splits)

lemma delete_transfer_slots:
  assumes "slots_ok s"
  shows "slots_ok (delete_transfer t s) \<and> live (delete_transfer t s) = live s - {t} \<and>
    sh_freed (delete_transfer t s) = (if t \<in> live s then t # sh_freed s else sh_freed s)"
proof (cases "clear_slot t (sh_transfers s)")
  case None
  then show ?thesis using assms clear_slot_None [of t "sh_transfers s"] by (auto simp: delete_transfer_def live_def)
next
  case (Some ts)
  have live: "live u = {t. Some t \<in> set (filter (\<lambda>x. x \<noteq> None) (sh_transfers u))}" for u by (auto simp: live_def)
  have f: "filter (\<lambda>x. x \<noteq> None) ts = remove1 (Some t) (filter (\<lambda>x. x \<noteq> None) (sh_transfers s))"
    using clear_slot_Some [OF Some] by simp
  have "Some t \<in> set (sh_transfers s)" using Some clear_slot_None [of t "sh_transfers s"] by auto
  moreover have "set (filter (\<lambda>x. x \<noteq> None) ts) = set (filter (\<lambda>x. x \<noteq> None) (sh_transfers s)) - {Some t}"
    using assms unfolding f slots_ok_def by (rule set_remove1_eq)
  moreover have "distinct (filter (\<lambda>x. x \<noteq> None) ts)" using assms unfolding f slots_ok_def by (rule distinct_remove1)
  ultimately show ?thesis using Some by (auto simp: delete_transfer_def slots_ok_def live)
qed

lemma delete_transfer_wf [simp]: "stream_wf (delete_transfer t s) = stream_wf s"
  "abs_stream (delete_transfer t s) = abs_stream s"
  by (simp_all add: delete_transfer_def stream_wf_def abs_stream_def split: option.splits)

section \<open>Consumers\<close>

text \<open>The frame of the stream has buffers as large as it says.\<close>

definition frame_fits_buf :: "uvc_frame \<Rightarrow> bool" where
  "frame_fits_buf f = (f_data_bytes f \<le> length (mem_of (f_data f)) \<and> f_metadata_bytes f \<le> length (mem_of (f_metadata f)))"

definition hold_image :: "uvc_stream_handle \<Rightarrow> bytes" where
  "hold_image s = take (sh_hold_bytes s) (sh_holdbuf s)"

definition hold_meta :: "uvc_stream_handle \<Rightarrow> bytes" where
  "hold_meta s = take (sh_meta_hold_bytes s) (sh_meta_holdbuf s)"

lemma realloc_gives: "alloc_ok al \<Longrightarrow> al n \<noteq> None \<Longrightarrow> \<exists>d. realloc al p n = Some d \<and> length d = n"
  using realloc_length [of al p n] by (cases "al n") (auto simp: realloc_def)

lemma populate_data_ok:
  assumes al: "alloc_ok al" "al hold_bytes \<noteq> None" "al (unat (f_height f) * f_step f) \<noteq> None"
    and fits: "frame_fits_buf f" and hold: "hold_bytes \<le> length holdbuf"
  defines "nominal \<equiv> unat (f_height f) * f_step f"
  shows "\<exists>d b. populate_data al holdbuf hold_bytes f = Some (True, f\<lparr> f_data := d, f_data_bytes := b \<rparr>) \<and>
    b \<le> length (mem_of d) \<and> take hold_bytes (mem_of d) = take hold_bytes holdbuf \<and>
    b = (if hold_bytes < nominal \<and> f_data_bytes f < nominal then nominal else hold_bytes) \<and>
    (\<forall>k. hold_bytes \<le> k \<longrightarrow> k < b \<longrightarrow> mem_of d ! k = 0)"
proof -
  obtain d1 where d1: "realloc al (f_data f) hold_bytes = Some d1" "length d1 = hold_bytes"
    using realloc_gives [OF al(1,2)] by blast
  obtain d2 where d2: "realloc al (f_data f) nominal = Some d2" "length d2 = nominal"
    using realloc_gives [OF al(1,3)] unfolding nominal_def by blast
  have h: "length (take hold_bytes holdbuf) = hold_bytes" using hold by simp
  consider (received) "f_data_bytes f < hold_bytes \<or> f_data_bytes f < nominal" "nominal \<le> hold_bytes"
    | (cleared) "f_data_bytes f < hold_bytes \<or> f_data_bytes f < nominal" "hold_bytes < nominal"
    | (reused) "hold_bytes \<le> f_data_bytes f" "nominal \<le> f_data_bytes f" by linarith
  then show ?thesis
  proof cases
    case received
    then have "populate_data al holdbuf hold_bytes f =
        Some (True, f\<lparr> f_data := Some (take hold_bytes holdbuf), f_data_bytes := hold_bytes \<rparr>)"
      using d1 hold by (simp add: populate_data_def nominal_def mem_copy_def rd_bytes_def mem_put_def mem_of_def Let_def)
    then show ?thesis using received h by (auto simp: mem_of_def)
  next
    case cleared
    then have "populate_data al holdbuf hold_bytes f = Some (True, f\<lparr>
        f_data := Some (take hold_bytes holdbuf @ replicate (nominal - hold_bytes) 0), f_data_bytes := nominal \<rparr>)"
      using d2 hold by (simp add: populate_data_def nominal_def mem_copy_def rd_bytes_def mem_put_def mem_of_def Let_def)
    then show ?thesis using cleared h
      by (intro exI [of _ "Some (take hold_bytes holdbuf @ replicate (nominal - hold_bytes) 0)"] exI [of _ nominal])
        (auto simp: mem_of_def nth_append)
  next
    case reused
    obtain d where d: "mem_copy (mem_of (f_data f)) 0 holdbuf 0 hold_bytes = Some d" "length d = length (mem_of (f_data f))"
      "take hold_bytes d = take hold_bytes holdbuf"
      using mem_copy_whole [OF _ hold, of "mem_of (f_data f)"] fits reused by (auto simp: frame_fits_buf_def)
    then show ?thesis using reused fits unfolding nominal_def
      by (intro exI [of _ "if f_data f = None then None else Some d"] exI [of _ hold_bytes])
        (auto simp: populate_data_def frame_fits_buf_def mem_of_def Let_def split: option.splits)
  qed
qed

lemma populate_meta_ok:
  assumes al: "alloc_ok al" "al hold_bytes \<noteq> None" and fits: "frame_fits_buf f" and hold: "hold_bytes \<le> length holdbuf"
  shows "\<exists>m. populate_meta al holdbuf hold_bytes f = Some (if hold_bytes = 0 then f
      else f\<lparr> f_metadata := Some m, f_metadata_bytes := hold_bytes \<rparr>) \<and>
    (0 < hold_bytes \<longrightarrow> hold_bytes \<le> length m \<and> take hold_bytes m = take hold_bytes holdbuf)"
proof -
  let ?p = "if f_metadata_bytes f < hold_bytes then realloc al (f_metadata f) hold_bytes else f_metadata f"
  have len: "hold_bytes \<le> length (mem_of ?p)"
    using realloc_some [OF al] fits by (auto simp: frame_fits_buf_def)
  obtain m where m: "mem_copy (mem_of ?p) 0 holdbuf 0 hold_bytes = Some m" "length m = length (mem_of ?p)"
    "take hold_bytes m = take hold_bytes holdbuf" using mem_copy_whole [OF len hold] by blast
  then have "populate_meta al holdbuf hold_bytes f = Some (if hold_bytes = 0 then f
      else f\<lparr> f_metadata := Some m, f_metadata_bytes := hold_bytes \<rparr>)"
    by (cases "hold_bytes = 0") (simp_all add: populate_meta_def Let_def split del: if_split cong: if_cong)
  then show ?thesis using m len by metis
qed

text \<open>The frame description the negotiated indices name.\<close>

definition stream_frame_desc :: "uvc_device_info \<Rightarrow> uvc_stream_handle \<Rightarrow> uvc_frame_desc option" where
  "stream_frame_desc info s =
     uvc_find_frame_desc info (ucast (sc_bFormatIndex (sh_cur_ctrl s))) (ucast (sc_bFrameIndex (sh_cur_ctrl s)))"

text \<open>The sizes of the image and of the metadata a frame may be grown to, and whether memory for one of them is lacking.\<close>

definition nominal_bytes :: "uvc_device_info \<Rightarrow> uvc_stream_handle \<Rightarrow> nat" where
  "nominal_bytes info s = (case stream_frame_desc info s of None \<Rightarrow> 0
     | Some fd \<Rightarrow> unat (ucast (fr_wHeight fd) :: u32) * frame_step (sh_frame_format s) (unat (fr_wWidth fd)))"

definition memory_short :: "allocator \<Rightarrow> uvc_device_info \<Rightarrow> uvc_stream_handle \<Rightarrow> bool" where
  "memory_short al info s = (al (sh_hold_bytes s) = None \<or> al (nominal_bytes info s) = None \<or> al (sh_meta_hold_bytes s) = None)"

text \<open>What a consumer finds: the invariant, a description, and a frame whose buffers are as large as it says.\<close>

definition frame_ready :: "uvc_device_info \<Rightarrow> uvc_stream_handle \<Rightarrow> bool" where
  "frame_ready info s = (stream_wf s \<and> frame_fits_buf (sh_frame s) \<and> stream_frame_desc info s \<noteq> None)"

text \<open>With all the memory it may ask for.\<close>

definition consumer_ok :: "allocator \<Rightarrow> uvc_device_info \<Rightarrow> uvc_stream_handle \<Rightarrow> bool" where
  "consumer_ok al info s = (alloc_ok al \<and> (\<forall>n. al n \<noteq> None) \<and> stream_wf s \<and> frame_fits_buf (sh_frame s) \<and>
     stream_frame_desc info s \<noteq> None)"

text \<open>A frame shows what the hold buffers hold.\<close>

definition shows_hold :: "uvc_stream_handle \<Rightarrow> uvc_frame \<Rightarrow> bool" where
  "shows_hold s f = (f_sequence f = sh_hold_seq s \<and> f_frame_format f = sh_frame_format s \<and> frame_fits_buf f \<and>
     sh_hold_bytes s \<le> f_data_bytes f \<and> take (sh_hold_bytes s) (mem_of (f_data f)) = hold_image s \<and>
     (\<forall>k. sh_hold_bytes s \<le> k \<longrightarrow> k < f_data_bytes f \<longrightarrow> mem_of (f_data f) ! k = 0) \<and>
     (0 < sh_meta_hold_bytes s \<longrightarrow> f_metadata_bytes f = sh_meta_hold_bytes s \<and>
        take (sh_meta_hold_bytes s) (mem_of (f_metadata f)) = hold_meta s))"

lemma populate_frame_ok:
  assumes "frame_ready info s" and ok: "alloc_ok al" "\<not> memory_short al info s"
  shows "\<exists>f. uvc_populate_frame al info s = Some (s\<lparr> sh_frame := f \<rparr>) \<and> shows_hold s f"
proof -
  obtain fd where fd: "stream_frame_desc info s = Some fd" using assms(1) by (auto simp: frame_ready_def)
  define f0 where "f0 = (sh_frame s)\<lparr> f_frame_format := sh_frame_format s, f_width := ucast (fr_wWidth fd),
    f_height := ucast (fr_wHeight fd), f_step := frame_step (sh_frame_format s) (unat (fr_wWidth fd)),
    f_sequence := sh_hold_seq s, f_capture_time_finished := sh_capture_time_finished s \<rparr>"
  have f0: "f_sequence f0 = sh_hold_seq s" "f_frame_format f0 = sh_frame_format s" by (simp_all add: f0_def)
  have al: "al (sh_hold_bytes s) \<noteq> None" "al (unat (f_height f0) * f_step f0) \<noteq> None" "al (sh_meta_hold_bytes s) \<noteq> None"
    using ok(2) fd by (simp_all add: memory_short_def nominal_bytes_def f0_def)
  have fits: "frame_fits_buf f0" and wf: "stream_wf s" using assms(1) by (auto simp: frame_ready_def frame_fits_buf_def f0_def)
  have hold: "sh_hold_bytes s \<le> length (sh_holdbuf s)" "sh_meta_hold_bytes s \<le> length (sh_meta_holdbuf s)"
    using wf by (auto simp: stream_wf_def)
  obtain d b where d: "populate_data al (sh_holdbuf s) (sh_hold_bytes s) f0 = Some (True, f0\<lparr> f_data := d, f_data_bytes := b \<rparr>)"
    "b \<le> length (mem_of d)" "take (sh_hold_bytes s) (mem_of d) = hold_image s"
    "sh_hold_bytes s \<le> b" "\<forall>k. sh_hold_bytes s \<le> k \<longrightarrow> k < b \<longrightarrow> mem_of d ! k = 0"
    using populate_data_ok [OF ok(1) al(1,2) fits hold(1)] unfolding hold_image_def by (metis (no_types, lifting) less_imp_le order_refl)
  define f1 where "f1 = f0\<lparr> f_data := d, f_data_bytes := b \<rparr>"
  have f1: "frame_fits_buf f1" "f_sequence f1 = sh_hold_seq s" "f_frame_format f1 = sh_frame_format s"
    "f_data f1 = d" "f_data_bytes f1 = b" using fits d(2) f0 by (simp_all add: frame_fits_buf_def f1_def)
  obtain m where m: "populate_meta al (sh_meta_holdbuf s) (sh_meta_hold_bytes s) f1 =
      Some (if sh_meta_hold_bytes s = 0 then f1 else f1\<lparr> f_metadata := Some m, f_metadata_bytes := sh_meta_hold_bytes s \<rparr>)"
    "0 < sh_meta_hold_bytes s \<longrightarrow> sh_meta_hold_bytes s \<le> length m \<and> take (sh_meta_hold_bytes s) m = hold_meta s"
    using populate_meta_ok [OF ok(1) al(3) f1(1) hold(2)] unfolding hold_meta_def by metis
  let ?f2 = "if sh_meta_hold_bytes s = 0 then f1 else f1\<lparr> f_metadata := Some m, f_metadata_bytes := sh_meta_hold_bytes s \<rparr>"
  have "uvc_populate_frame al info s = Some (s\<lparr> sh_frame := ?f2 \<rparr>)"
    using fd d(1) m(1) unfolding uvc_populate_frame_def stream_frame_desc_def
    by (simp add: Let_def flip: f0_def f1_def split del: if_split)
  moreover have "shows_hold s ?f2"
    using f1 d m(2) by (cases "sh_meta_hold_bytes s = 0") (simp_all add: shows_hold_def frame_fits_buf_def mem_of_def)
  ultimately show ?thesis by blast
qed

lemma consumer_ready: "consumer_ok al info s \<Longrightarrow> frame_ready info s \<and> alloc_ok al \<and> \<not> memory_short al info s"
  by (simp add: consumer_ok_def frame_ready_def memory_short_def)

text \<open>
  Without it: a lost image buffer leaves a frame with no image; what the frame says of its other buffers stays true.
\<close>

definition frame_sound :: "uvc_frame \<Rightarrow> bool" where
  "frame_sound f = ((f_data f = None \<or> f_data_bytes f \<le> length (mem_of (f_data f))) \<and> f_metadata_bytes f \<le> length (mem_of (f_metadata f)))"

lemma populate_data_any:
  assumes al: "alloc_ok al" and sound: "frame_sound f" and hold: "hold_bytes \<le> length holdbuf"
    and run: "populate_data al holdbuf hold_bytes f = Some (ok, g)"
  shows "\<exists>d b. g = f\<lparr> f_data := d, f_data_bytes := b \<rparr> \<and> (d = None \<or> ok \<and> b \<le> length (mem_of d) \<and> hold_bytes \<le> b \<and>
    take hold_bytes (mem_of d) = take hold_bytes holdbuf \<and> (\<forall>k. hold_bytes \<le> k \<longrightarrow> k < b \<longrightarrow> mem_of d ! k = 0))"
proof -
  let ?nominal = "unat (f_height f) * f_step f"
  let ?grown = "f_data_bytes f < hold_bytes \<or> f_data_bytes f < ?nominal"
  let ?n = "if hold_bytes \<ge> ?nominal then hold_bytes else ?nominal"
  consider (lost) "?grown" "al ?n = None" | (none) "\<not> ?grown" "f_data f = None"
    | (grown) "?grown" "al ?n \<noteq> None" | (kept) "\<not> ?grown" "f_data f \<noteq> None" by blast
  then show ?thesis
  proof cases
    case lost
    then have "g = f\<lparr> f_data := None, f_data_bytes := f_data_bytes f \<rparr>"
      using run by (auto simp: populate_data_def realloc_def Let_def split: if_splits)
    then show ?thesis by blast
  next
    case none
    then have "g = f\<lparr> f_data := None, f_data_bytes := hold_bytes \<rparr>"
      using run by (intro uvc_frame.equality) (auto simp: populate_data_def Let_def bind_eq_Some_conv)
    then show ?thesis by blast
  next
    case grown
    then obtain d where d: "realloc al (f_data f) ?n = Some d" "length d = ?n"
      using realloc_gives [OF al grown(2)] by blast
    let ?d = "take hold_bytes holdbuf @ replicate (?nominal - hold_bytes) 0"
    have "populate_data al holdbuf hold_bytes f = Some (True, f\<lparr> f_data := Some ?d, f_data_bytes := ?n \<rparr>)"
    proof (cases "hold_bytes \<ge> ?nominal")
      case True
      then show ?thesis using grown(1) d hold
        by (simp add: populate_data_def mem_copy_def rd_bytes_def mem_put_def mem_of_def Let_def)
    next
      case False
      then show ?thesis using grown(1) d hold
        by (simp add: populate_data_def mem_copy_def rd_bytes_def mem_put_def mem_of_def Let_def)
    qed
    then have "g = f\<lparr> f_data := Some ?d, f_data_bytes := ?n \<rparr>" "ok" using run by simp_all
    then show ?thesis using hold by (intro exI [of _ "Some ?d"] exI [of _ ?n]) (auto simp: mem_of_def nth_append)
  next
    case kept
    then obtain d0 where d0: "f_data f = Some d0" by blast
    then have len: "hold_bytes \<le> length d0" using sound kept by (simp add: frame_sound_def mem_of_def)
    obtain d where d: "mem_copy d0 0 holdbuf 0 hold_bytes = Some d" "length d = length d0" "take hold_bytes d = take hold_bytes holdbuf"
      using mem_copy_whole [OF len hold] by blast
    then have "g = f\<lparr> f_data := Some d, f_data_bytes := hold_bytes \<rparr>" "ok"
      using run kept(1) d0 by (auto simp: populate_data_def Let_def mem_of_def)
    then show ?thesis using d len by (intro exI [of _ "Some d"] exI [of _ hold_bytes]) (simp add: mem_of_def)
  qed
qed

lemma populate_meta_any:
  assumes al: "alloc_ok al" and sound: "f_metadata_bytes f \<le> length (mem_of (f_metadata f))" and hold: "hold_bytes \<le> length holdbuf"
    and run: "populate_meta al holdbuf hold_bytes f = Some g"
  shows "\<exists>m b. g = f\<lparr> f_metadata := m, f_metadata_bytes := b \<rparr> \<and> b \<le> length (mem_of m) \<and>
    (0 < hold_bytes \<longrightarrow> b = hold_bytes \<and> take hold_bytes (mem_of m) = take hold_bytes holdbuf)"
proof (cases "hold_bytes = 0")
  case True
  then have "g = f\<lparr> f_metadata := f_metadata f, f_metadata_bytes := f_metadata_bytes f \<rparr>" using run by (simp add: populate_meta_def)
  then show ?thesis using True sound by blast
next
  case False
  let ?p = "if f_metadata_bytes f < hold_bytes then realloc al (f_metadata f) hold_bytes else f_metadata f"
  obtain m where m: "mem_copy (mem_of ?p) 0 holdbuf 0 hold_bytes = Some m" "g = f\<lparr> f_metadata := Some m, f_metadata_bytes := hold_bytes \<rparr>"
    using run False by (auto simp: populate_meta_def Let_def bind_eq_Some_conv)
  have len: "hold_bytes \<le> length (mem_of ?p)" using mem_copy_bounds [OF m(1)] by simp
  obtain m' where "mem_copy (mem_of ?p) 0 holdbuf 0 hold_bytes = Some m'" "length m' = length (mem_of ?p)"
    "take hold_bytes m' = take hold_bytes holdbuf" using mem_copy_whole [OF len hold] by blast
  then have "length m = length (mem_of ?p)" "take hold_bytes m = take hold_bytes holdbuf" unfolding m(1) by simp_all
  then show ?thesis using m(2) len False by (intro exI [of _ "Some m"] exI [of _ hold_bytes]) (simp add: mem_of_def)
qed

text \<open>So a frame that is handed out shows what the hold buffers hold, or it has no image and says so by its pointer.\<close>

lemma populate_frame_any:
  assumes wf: "stream_wf s" and sound: "frame_sound (sh_frame s)" and al: "alloc_ok al"
    and run: "uvc_populate_frame al info s = Some (s\<lparr> sh_frame := f \<rparr>)"
  shows "frame_sound f \<and> (f_data f = None \<or> shows_hold s f)"
proof -
  obtain fd where fd: "stream_frame_desc info s = Some fd"
    using run by (auto simp: uvc_populate_frame_def stream_frame_desc_def bind_eq_Some_conv)
  define f0 where "f0 = (sh_frame s)\<lparr> f_frame_format := sh_frame_format s, f_width := ucast (fr_wWidth fd),
    f_height := ucast (fr_wHeight fd), f_step := frame_step (sh_frame_format s) (unat (fr_wWidth fd)),
    f_sequence := sh_hold_seq s, f_capture_time_finished := sh_capture_time_finished s \<rparr>"
  have f0: "f_sequence f0 = sh_hold_seq s" "f_frame_format f0 = sh_frame_format s" "frame_sound f0"
    using sound by (simp_all add: f0_def frame_sound_def)
  have hold: "sh_hold_bytes s \<le> length (sh_holdbuf s)" "sh_meta_hold_bytes s \<le> length (sh_meta_holdbuf s)"
    using wf by (auto simp: stream_wf_def)
  have inj: "s\<lparr> sh_frame := g \<rparr> = s\<lparr> sh_frame := h \<rparr> \<longleftrightarrow> g = h" for g h
    by (auto dest: arg_cong [of _ _ sh_frame])
  obtain ok g where g: "populate_data al (sh_holdbuf s) (sh_hold_bytes s) f0 = Some (ok, g)"
    "if ok then populate_meta al (sh_meta_holdbuf s) (sh_meta_hold_bytes s) g = Some f else f = g"
    using run fd unfolding uvc_populate_frame_def stream_frame_desc_def
    by (auto simp: bind_eq_Some_conv Let_def inj simp flip: f0_def split: if_splits)
  obtain d b where d: "g = f0\<lparr> f_data := d, f_data_bytes := b \<rparr>" "d = None \<or> ok \<and> b \<le> length (mem_of d) \<and> sh_hold_bytes s \<le> b \<and>
      take (sh_hold_bytes s) (mem_of d) = hold_image s \<and> (\<forall>k. sh_hold_bytes s \<le> k \<longrightarrow> k < b \<longrightarrow> mem_of d ! k = 0)"
    using populate_data_any [OF al f0(3) hold(1) g(1)] unfolding hold_image_def by blast
  have meta: "f_metadata_bytes g \<le> length (mem_of (f_metadata g))" using f0(3) d(1) by (simp add: frame_sound_def)
  show ?thesis
  proof (cases ok)
    case True
    obtain m c where m: "f = g\<lparr> f_metadata := m, f_metadata_bytes := c \<rparr>" "c \<le> length (mem_of m)"
      "0 < sh_meta_hold_bytes s \<longrightarrow> c = sh_meta_hold_bytes s \<and> take (sh_meta_hold_bytes s) (mem_of m) = hold_meta s"
      using populate_meta_any [OF al meta hold(2)] g(2) True unfolding hold_meta_def by auto
    then show ?thesis using d f0(1,2) by (auto simp: frame_sound_def shows_hold_def frame_fits_buf_def)
  next
    case False
    then show ?thesis using g(2) d meta by (auto simp: frame_sound_def)
  qed
qed

section \<open>A frame cut into payloads\<close>

text \<open>What a camera sends for an image: a two-byte header before each chunk, the last one marked.\<close>

fun packetize :: "u8 \<Rightarrow> bytes list \<Rightarrow> bytes list" where
  "packetize fid [] = []"
| "packetize fid [c] = [[2, fid OR 2] @ c]"
| "packetize fid (c # cs) = ([2, fid] @ c) # packetize fid cs"

lemma classify_chunk:
  assumes "fid = 0 \<or> fid = 1"
  shows "classify False ([2, fid] @ c) = P_data (Some (fid, False, [])) c"
    "classify False ([2, fid OR 2] @ c) = P_data (Some (fid, True, [])) c"
  using assms by (auto simp: classify_def isight_data_def meta_offset_def)

lemma add_plain_header:
  assumes "as_fid a = fid \<or> as_image a = []" and "length (as_meta a) \<le> LIBUVC_XFER_META_BUF_SIZE"
  shows "add_header (Some (fid, eof, [])) a = a\<lparr> as_fid := fid \<rparr>"
  using assms by (auto simp: add_header_def Let_def)

lemma assemble_packetized:
  assumes "cs \<noteq> []" and "[] \<notin> set cs" and "fid = 0 \<or> fid = 1" and "as_fid a = fid \<or> as_image a = []"
    and "length (as_meta a) \<le> LIBUVC_XFER_META_BUF_SIZE" and "length (as_image a) + length (concat cs) \<le> limit"
  shows "fold (\<lambda>p. assemble limit (classify False p)) (packetize fid cs) a =
    close_frame (a\<lparr> as_fid := fid, as_image := as_image a @ concat cs \<rparr>)"
  using assms
proof (induction fid cs arbitrary: a rule: packetize.induct)
  case (2 fid c)
  then show ?case
    by (auto simp: classify_chunk assemble_def ends_frame_def add_plain_header add_image_def Let_def simp del: append_Cons append_Nil)
next
  case (3 fid c c' cs)
  let ?a = "a\<lparr> as_fid := fid, as_image := as_image a @ c \<rparr>"
  have "0 < length c'" using "3.prems"(2) by auto
  then have "length (as_image a @ c) < limit" using "3.prems"(6) by (simp del: length_greater_0_conv)
  then have "assemble limit (classify False ([2, fid] @ c)) a = ?a"
    using 3 by (auto simp: classify_chunk assemble_def ends_frame_def add_plain_header add_image_def Let_def simp del: append_Cons append_Nil)
  then show ?case using 3 3(1) [of ?a] by (simp del: append_Cons append_Nil)
qed simp

text \<open>A running stream of the sample camera, with room for its sixteen-byte frames.\<close>

definition sample_stream :: uvc_stream_handle where
  "sample_stream = \<lparr> sh_stream_if = hd (in_stream_ifs sample_info), sh_running = True,
     sh_cur_ctrl = stream_ctrl0\<lparr> sc_bFormatIndex := 1, sc_bFrameIndex := 1 \<rparr>, sh_fid = 0, sh_seq = 1, sh_hold_seq = 0,
     sh_pts = 0, sh_hold_pts = 0, sh_last_scr = 0, sh_hold_last_scr = 0, sh_got_bytes = 0, sh_hold_bytes = 0,
     sh_outbuf = replicate 16 0, sh_holdbuf = replicate 16 0, sh_last_polled_seq = 0, sh_user_cb = False,
     sh_transfers = [Some 1, Some 2, None], sh_frame = sample_out, sh_frame_format = FORMAT_YUYV,
     sh_capture_time_finished = 0, sh_meta_outbuf = replicate 4096 0, sh_meta_holdbuf = replicate 4096 0,
     sh_meta_got_bytes = 0, sh_meta_hold_bytes = 0, sh_frame_had_errors = False, sh_freed = [], sh_swaps = [] \<rparr>"

lemma sample_max: "unat (sc_dwMaxVideoFrameSize (sh_cur_ctrl sample_stream)) = 16"
  by (simp add: sample_stream_def stream_ctrl0_def)

lemma sample_stream_wf: "stream_wf sample_stream" "slots_ok sample_stream"
  by (simp_all add: stream_wf_def slots_ok_def sample_stream_def stream_ctrl0_def)

lemma sample_desc: "stream_frame_desc sample_info sample_stream \<noteq> None"
  unfolding stream_frame_desc_def by code_simp

lemma sample_consumer:
  assumes "stream_wf s" and "keeps sample_stream s"
  shows "consumer_ok zero_alloc sample_info s"
proof -
  have "stream_frame_desc sample_info s = stream_frame_desc sample_info sample_stream" "sh_frame s = sample_out"
    using assms(2) by (simp_all add: stream_frame_desc_def keeps_def sample_stream_def)
  then show ?thesis using assms(1) sample_desc
    by (simp add: consumer_ok_def frame_fits_buf_def sample_out_def uvc_frame0_def alloc_ok_def zero_alloc_def mem_of_def)
qed

section \<open>Properties\<close>

text \<open>
  C1: every payload, whatever its bytes, is processed inside the buffers: from a well-formed stream
  the call succeeds, leaves a well-formed stream, and does to the assembled frame exactly what the
  specification of the payload says (ignored, marks the frame bad, or extends and possibly closes it).
\<close>

theorem payload_refines:
  assumes "stream_wf s"
  shows "\<exists>t. uvc_process_payload now is_isight payload s = Some t \<and> stream_wf t \<and>
    sh_cur_ctrl t = sh_cur_ctrl s \<and> sh_transfers t = sh_transfers s \<and>
    abs_stream t = assemble (max_frame s) (classify is_isight payload) (abs_stream s)"
  using process_payload_sim [OF assms, of now is_isight payload] by (auto simp: sim_def keeps_def)

theorem payload_refines_witness:
  "\<exists>t. uvc_process_payload (\<lambda>_. 0) False [2, 2, 7, 8] sample_stream = Some t \<and>
     abs_stream t = \<lparr> as_fid = 0, as_image = [], as_meta = [], as_bad = False, as_seq = 2, as_done = [(True, 1, [7, 8], [])] \<rparr>"
proof -
  have "assemble 16 (classify False [2, 2, 7, 8]) (abs_stream sample_stream) =
      \<lparr> as_fid = 0, as_image = [], as_meta = [], as_bad = False, as_seq = 2, as_done = [(True, 1, [7, 8], [])] \<rparr>"
    by (simp add: classify_def isight_data_def assemble_def ends_frame_def add_header_def add_image_def meta_offset_def
      close_frame_def abs_stream_def sample_stream_def)
  then show ?thesis using payload_refines [OF sample_stream_wf(1), of "\<lambda>_. 0" False "[2, 2, 7, 8]"]
    by (simp only: sample_max) auto
qed

text \<open>
  C16: the transfer callback.  It stays inside the buffers; the frame data of a completed transfer
  is assembled payload by payload.  Afterwards either the transfer is in flight again and keeps its
  slot (the stream runs, libusb took it and it had not ended), or it is freed, exactly once if it had
  a slot, and its slot is empty; no other slot changes.
\<close>

theorem stream_callback_correct:
  assumes "stream_wf s" and "slots_ok s"
  shows "\<exists>again t. uvc_stream_callback now is_isight submit tr s = Some (again, t) \<and> stream_wf t \<and> slots_ok t \<and>
    abs_stream t = fold (assemble (max_frame s)) (transfer_kinds is_isight tr) (abs_stream s) \<and>
    (again \<longleftrightarrow> xf_status tr \<notin> {Cancelled, Error, No_device} \<and> sh_running s \<and> 0 \<le> submit) \<and>
    (if again then sh_transfers t = sh_transfers s \<and> sh_freed t = sh_freed s
     else live t = live s - {xf_id tr} \<and>
       sh_freed t = (if xf_id tr \<in> live s then xf_id tr # sh_freed s else sh_freed s))"
proof -
  obtain u where u: "xf_status tr = Completed \<Longrightarrow> (if xf_packets tr = [] then uvc_process_payload now is_isight (xf_data tr) s
      else process_packets now is_isight (xf_packets tr) s) = Some u"
    "xf_status tr \<noteq> Completed \<Longrightarrow> u = s"
    "stream_wf u" "keeps s u" "abs_stream u = fold (assemble (max_frame s)) (transfer_kinds is_isight tr) (abs_stream s)"
    using completed_sim [OF assms(1), of tr now is_isight] assms(1)
    by (cases "xf_status tr = Completed") (auto simp: stream_inv_def transfer_kinds_def)
  have k: "slots_ok u" "live u = live s" "sh_freed u = sh_freed s" "sh_transfers u = sh_transfers s" "sh_running u = sh_running s"
    using u(4) assms(2) by (auto simp: keeps_def slots_ok_def live_def)
  note del = delete_transfer_slots [OF k(1), of "xf_id tr"]
  have "uvc_stream_callback now is_isight submit tr s =
      Some (if xf_status tr \<notin> {Cancelled, Error, No_device} \<and> sh_running s \<and> 0 \<le> submit then (True, u)
        else (False, delete_transfer (xf_id tr) u))"
    using u(1,2) k(5) by (cases "xf_status tr") (auto simp: uvc_stream_callback_def)
  then show ?thesis using u k del by auto
qed

theorem stream_callback_correct_witness:
  "\<exists>t. uvc_stream_callback (\<lambda>_. 0) False 0 \<lparr> xf_id = 2, xf_status = Cancelled, xf_data = [], xf_packets = [] \<rparr>
       sample_stream = Some (False, t) \<and> live t = {1} \<and> sh_freed t = [2]"
proof -
  have "live sample_stream = {1, 2}" by (auto simp: live_def sample_stream_def)
  moreover have "sh_freed sample_stream = []" by (simp add: sample_stream_def)
  ultimately show ?thesis using stream_callback_correct [OF sample_stream_wf, of "\<lambda>_. 0" False 0
      "\<lparr> xf_id = 2, xf_status = Cancelled, xf_data = [], xf_packets = [] \<rparr>"] by (auto simp: insert_Diff_if)
qed

text \<open>
  C28: round trip: an image cut into payloads and sent over an idle stream ends up, whole and in
  order, in the hold buffer under the current sequence number, and the listeners are woken once.
\<close>

theorem frame_roundtrip:
  assumes "stream_wf s" and "sh_got_bytes s = 0" and "sh_meta_got_bytes s = 0" and "\<not> sh_frame_had_errors s"
    and "cs \<noteq> []" and "[] \<notin> set cs" and "fid = 0 \<or> fid = 1" and "length (concat cs) \<le> max_frame s"
  shows "\<exists>t. run_all (uvc_process_payload now False) (packetize fid cs) s = Some t \<and> stream_wf t \<and>
    hold_image t = concat cs \<and> sh_hold_seq t = sh_seq s \<and> sh_seq t = sh_seq s + 1 \<and>
    sh_swaps t = sh_swaps s @ [(True, sh_seq s, concat cs, [])]"
proof -
  have inv: "stream_inv s s" using assms(1) by (simp add: stream_inv_def)
  have idle: "as_image (abs_stream s) = []" "as_meta (abs_stream s) = []" "\<not> as_bad (abs_stream s)"
    using assms(2-4) by (simp_all add: abs_stream_def)
  obtain t where t: "run_all (uvc_process_payload now False) (packetize fid cs) s = Some t" "stream_wf t"
    "abs_stream t = fold (\<lambda>p. assemble (max_frame s) (classify False p)) (packetize fid cs) (abs_stream s)"
    using pay.run_ok [OF inv, of now False "packetize fid cs"] by (auto simp: stream_inv_def)
  have a: "abs_stream t = close_frame ((abs_stream s)\<lparr> as_fid := fid, as_image := concat cs \<rparr>)"
    using assemble_packetized [OF assms(5-7), of "abs_stream s" "max_frame s"] idle assms(8) t(3) by simp
  have "sh_swaps t = sh_swaps s @ [(True, sh_seq s, concat cs, [])]" "sh_seq t = sh_seq s + 1"
    using arg_cong [OF a, of as_done] arg_cong [OF a, of as_seq] idle by (simp_all add: close_frame_def abs_stream_def)
  then show ?thesis using t(1,2) by (simp add: stream_wf_def hold_image_def)
qed

definition poll_result :: "uvc_stream_handle \<Rightarrow> int \<times> uvc_frame option option \<times> uvc_stream_handle \<Rightarrow> bool" where
  "poll_result s res =
     (if sh_last_polled_seq s < sh_hold_seq s
      then \<exists>f. res = (UVC_SUCCESS, Some (Some f), s\<lparr> sh_frame := f, sh_last_polled_seq := sh_hold_seq s \<rparr>) \<and> shows_hold s f
      else res = (UVC_SUCCESS, Some None, s))"

lemma poll_take_ok:
  assumes "consumer_ok al info s"
  shows "\<exists>res. map_option (\<lambda>(f, s). (UVC_SUCCESS, Some f, s)) (poll_take al info s) = Some res \<and> poll_result s res"
  using populate_frame_ok consumer_ready [OF assms] by (fastforce simp: poll_take_def poll_result_def)

lemma poll_deadline_exact:
  assumes "0 \<le> timeout_us" and "0 \<le> nsec" and "nsec < 1000000000"
  shows "0 \<le> snd (poll_deadline (sec, nsec) timeout_us) \<and> snd (poll_deadline (sec, nsec) timeout_us) < 1000000000 \<and>
    fst (poll_deadline (sec, nsec) timeout_us) * 1000000000 + snd (poll_deadline (sec, nsec) timeout_us) =
      sec * 1000000000 + nsec + timeout_us * 1000"
proof -
  have s: "a sdiv b = a div b" "a smod b = a mod b" if "0 \<le> a" "0 < b" for a b :: int
    using that by (simp_all add: signed_divide_int_def signed_modulo_int_def sgn_if minus_div_mult_eq_mod)
  have "0 \<le> nsec + timeout_us mod 1000000 * 1000" using assms by simp
  then have "poll_deadline (sec, nsec) timeout_us = (sec + timeout_us div 1000000 + (nsec + timeout_us mod 1000000 * 1000) div 1000000000,
      (nsec + timeout_us mod 1000000 * 1000) mod 1000000000)"
    using assms by (simp add: poll_deadline_def s Let_def)
  moreover have "timeout_us div 1000000 * 1000000 + timeout_us mod 1000000 = timeout_us" by simp
  moreover have "(nsec + timeout_us mod 1000000 * 1000) div 1000000000 * 1000000000 +
      (nsec + timeout_us mod 1000000 * 1000) mod 1000000000 = nsec + timeout_us mod 1000000 * 1000" by simp
  ultimately show ?thesis
    by (simp only: fst_conv snd_conv distrib_right) (intro conjI, simp, simp, linarith)
qed

theorem frame_roundtrip_witness:
  "\<exists>t. run_all (uvc_process_payload (\<lambda>_. 0) False) [[2, 1, 7, 8], [2, 3, 9]] sample_stream = Some t \<and>
     hold_image t = [7, 8, 9] \<and> sh_hold_seq t = 1"
proof -
  have idle: "sh_got_bytes sample_stream = 0" "sh_meta_got_bytes sample_stream = 0" "\<not> sh_frame_had_errors sample_stream"
    "sh_seq sample_stream = 1" by (simp_all add: sample_stream_def)
  have "packetize 1 [[7, 8], [9]] = [[2, 1, 7, 8], [2, 3, 9]]" by simp
  with frame_roundtrip [OF sample_stream_wf(1) idle(1-3), of "[[7, 8], [9]]" 1 "\<lambda>_. 0"] show ?thesis
    by (auto simp: sample_max idle(4))
qed

text \<open>
  Polling for a frame, every branch.  A stopped stream and one with a callback are refused
  without touching the caller's pointer; a new frame is handed out at once; otherwise the call waits as
  asked, a failed wait gives an error and \<^verbatim>\<open>NULL\<close>, and a new frame is handed out if there is one now.
  The frame handed out shows the hold buffers: their bytes, zeros up to the stated size, inside its
  allocation.  A timed wait ends exactly the timeout after the clock, normalised.
\<close>

lemma poll_frame_correct:
  assumes "consumer_ok al info s" and "consumer_ok al info (wait s)" and "\<And>d. consumer_ok al info (snd (timedwait d s))"
    and "0 \<le> nsec" and "nsec < 1000000000" and "-1 \<le> timeout_us"
  shows "\<exists>deadline res. uvc_stream_get_frame al info (sec, nsec) wait timedwait timeout_us s = Some res \<and>
    (if \<not> sh_running s then res = (UVC_ERROR_INVALID_PARAM, None, s)
     else if sh_user_cb s then res = (UVC_ERROR_CALLBACK_EXISTS, None, s)
     else if sh_last_polled_seq s < sh_hold_seq s \<or> timeout_us = -1 then poll_result s res
     else if timeout_us = 0 then poll_result (wait s) res
     else fst deadline * 1000000000 + snd deadline = sec * 1000000000 + nsec + timeout_us * 1000 \<and>
       0 \<le> snd deadline \<and> snd deadline < 1000000000 \<and>
       (case timedwait deadline s of (err, s') \<Rightarrow>
          if err = 0 then poll_result s' res
          else res = (if err = 110 then UVC_ERROR_TIMEOUT else UVC_ERROR_OTHER, Some None, s')))"
proof -
  let ?d = "poll_deadline (sec, nsec) timeout_us"
  obtain err s' where w: "timedwait ?d s = (err, s')" by fastforce
  have ok': "consumer_ok al info s'" using assms(3) [of ?d] w by simp
  have d: "0 \<le> snd ?d" "snd ?d < 1000000000" "fst ?d * 1000000000 + snd ?d = sec * 1000000000 + nsec + timeout_us * 1000"
    if "timeout_us \<noteq> -1" using poll_deadline_exact [of timeout_us nsec sec] assms(4-6) that by auto
  obtain r0 where r0: "map_option (\<lambda>(f, s). (UVC_SUCCESS, Some f, s)) (poll_take al info s) = Some r0" "poll_result s r0"
    using poll_take_ok [OF assms(1)] by blast
  obtain r1 where r1: "map_option (\<lambda>(f, s). (UVC_SUCCESS, Some f, s)) (poll_take al info (wait s)) = Some r1" "poll_result (wait s) r1"
    using poll_take_ok [OF assms(2)] by blast
  obtain r2 where r2: "map_option (\<lambda>(f, s). (UVC_SUCCESS, Some f, s)) (poll_take al info s') = Some r2" "poll_result s' r2"
    using poll_take_ok [OF ok'] by blast
  have old: "r0 = (UVC_SUCCESS, Some None, s)" if "\<not> sh_last_polled_seq s < sh_hold_seq s"
    using r0(2) that by (simp add: poll_result_def)
  let ?res = "if \<not> sh_running s then (UVC_ERROR_INVALID_PARAM, None, s)
    else if sh_user_cb s then (UVC_ERROR_CALLBACK_EXISTS, None, s)
    else if sh_last_polled_seq s < sh_hold_seq s \<or> timeout_us = -1 then r0
    else if timeout_us = 0 then r1 else if err = 0 then r2
    else (if err = 110 then UVC_ERROR_TIMEOUT else UVC_ERROR_OTHER, Some None, s')"
  have "uvc_stream_get_frame al info (sec, nsec) wait timedwait timeout_us s = Some ?res"
    using r0(1) r1(1) r2(1) w old by (simp add: uvc_stream_get_frame_def)
  then show ?thesis using r0(2) r1(2) r2(2) w d by (intro exI [of _ ?d] exI [of _ ?res]) simp
qed

lemma poll_frame_correct_witness:
  "uvc_stream_get_frame zero_alloc sample_info (5, 0) id (\<lambda>d s. (110, s)) 1500000 sample_stream =
     Some (UVC_ERROR_TIMEOUT, Some None, sample_stream)"
proof -
  have ok: "consumer_ok zero_alloc sample_info sample_stream" by (simp add: sample_consumer sample_stream_wf)
  have s: "sh_running sample_stream" "\<not> sh_user_cb sample_stream" "\<not> sh_last_polled_seq sample_stream < sh_hold_seq sample_stream"
    by (simp_all add: sample_stream_def)
  show ?thesis
    using poll_frame_correct [of zero_alloc sample_info sample_stream id "\<lambda>d s. (110, s)" 0 1500000 5] ok s by auto
qed

text \<open>
  The error flag of a frame keeps the listeners asleep, but nothing else: a consumer that looks on
  its own, as polling does, gets the frame.
\<close>

theorem flagged_frame_is_polled:
  "\<exists>t f t'. run_all (uvc_process_payload (\<lambda>_. 0) False) [[2, 0, 7], [2, 0x40], [2, 2, 8]] sample_stream = Some t \<and>
     sh_swaps t = [(False, 1, [7, 8], [])] \<and>
     uvc_stream_get_frame zero_alloc sample_info (0, 0) id (\<lambda>d s. (0, s)) (-1) t = Some (UVC_SUCCESS, Some (Some f), t') \<and>
     take 2 (mem_of (f_data f)) = [7, 8]"
proof -
  have inv: "stream_inv sample_stream sample_stream" by (simp add: stream_inv_def sample_stream_wf)
  obtain t where t: "run_all (uvc_process_payload (\<lambda>_. 0) False) [[2, 0, 7], [2, 0x40], [2, 2, 8]] sample_stream = Some t"
    "stream_wf t" "keeps sample_stream t"
    "abs_stream t = fold (\<lambda>p. assemble 16 (classify False p)) [[2, 0, 7], [2, 0x40], [2, 2, 8]] (abs_stream sample_stream)"
    using pay.run_ok [OF inv, of "\<lambda>_. 0" False "[[2, 0, 7], [2, 0x40], [2, 2, 8]]"]
    unfolding sample_max stream_inv_def by blast
  have "abs_stream t = \<lparr> as_fid = 0, as_image = [], as_meta = [], as_bad = False, as_seq = 2, as_done = [(False, 1, [7, 8], [])] \<rparr>"
    unfolding t(4)
    by (simp add: classify_def isight_data_def assemble_def ends_frame_def add_header_def add_image_def meta_offset_def
      close_frame_def abs_stream_def sample_stream_def)
  then have sw: "sh_swaps t = [(False, 1, [7, 8], [])]" by (simp add: abs_stream_def)
  then have hold: "sh_hold_seq t = 1" "hold_image t = [7, 8]" using t(2) by (simp_all add: stream_wf_def hold_image_def)
  have "length (hold_image t) = 2" by (simp add: hold(2))
  then have h2: "2 \<le> sh_hold_bytes t" unfolding hold_image_def length_take by linarith
  have look: "sh_running t" "\<not> sh_user_cb t" "sh_last_polled_seq t < sh_hold_seq t"
    using t(3) hold by (simp_all add: keeps_def sample_stream_def)
  obtain res where r: "map_option (\<lambda>(f, s). (UVC_SUCCESS, Some f, s)) (poll_take zero_alloc sample_info t) = Some res" "poll_result t res"
    using poll_take_ok [OF sample_consumer [OF t(2,3)]] by blast
  obtain f where f: "res = (UVC_SUCCESS, Some (Some f), t\<lparr> sh_frame := f, sh_last_polled_seq := sh_hold_seq t \<rparr>)" "shows_hold t f"
    using r(2) look by (auto simp: poll_result_def)
  have "take 2 (mem_of (f_data f)) = take 2 (take (sh_hold_bytes t) (mem_of (f_data f)))" using h2 by (simp add: min_absorb1)
  also have "\<dots> = [7, 8]" using f(2) hold(2) by (simp add: shows_hold_def)
  finally show ?thesis using t(1) sw look r(1) f by (auto simp: uvc_stream_get_frame_def)
qed

text \<open>
  The callback thread, whatever states it meets as it wakes up: while the stream runs, every
  change of the hold sequence number it sees is delivered exactly once and in order, nothing is
  delivered twice in a row, and each frame shows the hold buffers it was taken from.
\<close>

lemma user_caller_delivers:
  assumes "\<forall>s \<in> set looks. consumer_ok al info s"
  shows "\<exists>fs. uvc_user_caller al info last_seq looks = Some fs \<and>
    map f_sequence fs = tl (remdups_adj (last_seq # map sh_hold_seq (takeWhile sh_running looks))) \<and>
    (\<forall>f \<in> set fs. \<exists>s \<in> set looks. shows_hold s f)"
  using assms
proof (induction looks arbitrary: last_seq)
  case (Cons s looks)
  then have ok: "consumer_ok al info s" and IH: "\<And>last_seq. \<exists>fs. uvc_user_caller al info last_seq looks = Some fs \<and>
    map f_sequence fs = tl (remdups_adj (last_seq # map sh_hold_seq (takeWhile sh_running looks))) \<and>
    (\<forall>f \<in> set fs. \<exists>s \<in> set looks. shows_hold s f)" by auto
  obtain f where f: "uvc_populate_frame al info s = Some (s\<lparr> sh_frame := f \<rparr>)" "shows_hold s f"
    using populate_frame_ok consumer_ready [OF ok] by blast
  show ?case
  proof (cases "sh_running s")
    case False
    then show ?thesis by (simp add: uvc_user_caller_turn_def)
  next
    case run: True
    obtain fs where fs: "uvc_user_caller al info (sh_hold_seq s) looks = Some fs"
      "map f_sequence fs = tl (remdups_adj (sh_hold_seq s # map sh_hold_seq (takeWhile sh_running looks)))"
      "\<forall>f \<in> set fs. \<exists>s \<in> set looks. shows_hold s f" using IH by blast
    show ?thesis
    proof (cases "last_seq = sh_hold_seq s")
      case True
      then show ?thesis using run fs by (auto simp: uvc_user_caller_turn_def)
    next
      case False
      then have "uvc_user_caller al info last_seq (s # looks) = Some (f # fs)"
        using run f fs by (simp add: uvc_user_caller_turn_def)
      moreover have "f_sequence f = sh_hold_seq s" using f(2) by (simp add: shows_hold_def)
      ultimately show ?thesis using run False f fs
        by (auto simp: remdups_adj_Cons_alt)
    qed
  qed
qed simp

lemma user_caller_delivers_witness:
  "\<exists>fs. uvc_user_caller zero_alloc sample_info 7 [sample_stream, sample_stream] = Some fs \<and> map f_sequence fs = [0]"
proof -
  have "\<forall>s \<in> set [sample_stream, sample_stream]. consumer_ok zero_alloc sample_info s"
    by (simp add: sample_consumer sample_stream_wf)
  from user_caller_delivers [OF this, of 7] show ?thesis by (auto simp: sample_stream_def)
qed

end
