(* ===== verification/Stream_Life.thy ===== *)
theory Stream_Life
  imports Payload
begin

text \<open>
  The life of a stream (stream.c): opening, choosing the alternate setting and starting,
  stopping with its bounded wait, and closing with its quarantine.  The callbacks that run while
  the stopping thread waits are those of theory \<open>Payload\<close>, in any order libusb completes the
  transfers.
\<close>

section \<open>State\<close>

text \<open>
  The device handle as the streams see it.  A stream of \<open>sd_streams\<close> is addressed by its interface
  number; the list holds one stream per interface.  \<open>sd_leaked\<close> and \<open>sd_freed\<close> record what became of
  closed handles: kept for ever, or freed in the state given.
\<close>

record 'u stream_dev =
  sd_claims :: "'u devh_claims"
  sd_info :: uvc_device_info
  sd_streams :: "uvc_stream_handle list"
  sd_is_isight :: bool
  sd_transfer_buffer_count :: u8
  sd_has_quarantined_stream :: bool
  sd_leaked :: "uvc_stream_handle list"
  sd_freed :: "uvc_stream_handle list"

abbreviation stream_num :: "uvc_stream_handle \<Rightarrow> u8" where
  "stream_num s \<equiv> si_bInterfaceNumber (sh_stream_if s)"

fun uvc_get_stream_by_interface :: "uvc_stream_handle list \<Rightarrow> u8 \<Rightarrow> uvc_stream_handle option" where
  "uvc_get_stream_by_interface [] idx = None"
| "uvc_get_stream_by_interface (s # ss) idx =
     (if stream_num s = idx then Some s else uvc_get_stream_by_interface ss idx)"

text \<open>A store through a stream pointer, and the removal of its node.\<close>

definition put_stream :: "uvc_stream_handle \<Rightarrow> 'u stream_dev \<Rightarrow> 'u stream_dev" where
  "put_stream s d = d\<lparr> sd_streams := map (\<lambda>x. if stream_num x = stream_num s then s else x) (sd_streams d) \<rparr>"

definition unlink_stream :: "uvc_stream_handle \<Rightarrow> 'u stream_dev \<Rightarrow> 'u stream_dev" where
  "unlink_stream s d = d\<lparr> sd_streams := filter (\<lambda>x. stream_num x \<noteq> stream_num s) (sd_streams d) \<rparr>"

section \<open>Opening\<close>

definition uvc_trigger_still ::
  "'u control_transfer \<Rightarrow> uvc_still_ctrl \<Rightarrow> 'u stream_dev \<Rightarrow> int \<times> 'u stream_dev" where
  "uvc_trigger_still ct still d =
     (case uvc_get_stream_by_interface (sd_streams d) (st_bInterfaceNumber still) of
        None \<Rightarrow> (UVC_ERROR_NOT_SUPPORTED, d)
      | Some s \<Rightarrow>
          if \<not> sh_running s then (UVC_ERROR_NOT_SUPPORTED, d)
          else (case uvc_get_stream_if (in_stream_ifs (sd_info d)) (st_bInterfaceNumber still) of
                  None \<Rightarrow> (UVC_ERROR_NOT_SUPPORTED, d)
                | Some si \<Rightarrow>
                    if si_bStillCaptureMethod si \<noteq> 2 then (UVC_ERROR_NOT_SUPPORTED, d)
                    else let (err, _, u) = ct 0x21 UVC_SET_CUR 0x0500 (ucast (st_bInterfaceNumber still)) [1]
                               (dc_usb (sd_claims d));
                             d = d\<lparr> sd_claims := (sd_claims d)\<lparr> dc_usb := u \<rparr> \<rparr>
                         in if err \<le> 0 then (err, d) else (UVC_SUCCESS, d)))"

text \<open>Committing a control block: result, stream, USB state.\<close>

definition uvc_stream_ctrl_set ::
  "'u control_transfer \<Rightarrow> uvc_device_info \<Rightarrow> uvc_stream_ctrl \<Rightarrow> uvc_stream_handle \<Rightarrow> 'u
   \<Rightarrow> (int \<times> uvc_stream_handle \<times> 'u) option" where
  "uvc_stream_ctrl_set ct info ctrl s u =
     (if stream_num s \<noteq> sc_bInterfaceNumber ctrl then Some (UVC_ERROR_INVALID_PARAM, s, u)
      else if sh_running s then Some (UVC_ERROR_BUSY, s, u)
      else do {
        (ret, ctrl, u) \<leftarrow> uvc_query_stream_ctrl ct info False UVC_SET_CUR ctrl u;
        if ret \<noteq> UVC_SUCCESS then Some (ret, s, u)
        else Some (UVC_SUCCESS, s\<lparr> sh_cur_ctrl := ctrl \<rparr>, u) })"

text \<open>What \<^verbatim>\<open>calloc\<close> gives, with the two fields set right after it.\<close>

definition stream0 :: "uvc_streaming_interface \<Rightarrow> uvc_stream_handle" where
  "stream0 si = \<lparr> sh_stream_if = si, sh_running = False,
     sh_cur_ctrl = \<lparr> sc_bmHint = 0, sc_bFormatIndex = 0, sc_bFrameIndex = 0, sc_dwFrameInterval = 0, sc_wKeyFrameRate = 0,
       sc_wPFrameRate = 0, sc_wCompQuality = 0, sc_wCompWindowSize = 0, sc_wDelay = 0, sc_dwMaxVideoFrameSize = 0,
       sc_dwMaxPayloadTransferSize = 0, sc_dwClockFrequency = 0, sc_bmFramingInfo = 0, sc_bPreferredVersion = 0,
       sc_bMinVersion = 0, sc_bMaxVersion = 0, sc_bInterfaceNumber = 0 \<rparr>,
     sh_fid = 0, sh_seq = 0, sh_hold_seq = 0, sh_pts = 0, sh_hold_pts = 0, sh_last_scr = 0, sh_hold_last_scr = 0,
     sh_got_bytes = 0, sh_hold_bytes = 0, sh_outbuf = [], sh_holdbuf = [], sh_last_polled_seq = 0, sh_user_cb = False,
     sh_transfers = replicate LIBUVC_NUM_TRANSFER_BUFS None, sh_frame = uvc_frame0\<lparr> f_library_owns_data := True \<rparr>,
     sh_frame_format = FORMAT_ANY, sh_capture_time_finished = 0, sh_meta_outbuf = [], sh_meta_holdbuf = [],
     sh_meta_got_bytes = 0, sh_meta_hold_bytes = 0, sh_frame_had_errors = False, sh_freed = [], sh_swaps = [] \<rparr>"

text \<open>
  \<open>handle_ok\<close> is whether the handle itself can be allocated, \<open>al i\<close> answers the \<open>i\<close>-th \<^verbatim>\<open>malloc\<close> of a buffer,
  whose result the code does not look at; the stream is \<^verbatim>\<open>*strmhp\<close>.
\<close>

definition uvc_stream_open_ctrl ::
  "'u libusb_if_ops \<Rightarrow> guard_source \<Rightarrow> 'u control_transfer \<Rightarrow> bool \<Rightarrow> (nat \<Rightarrow> allocator) \<Rightarrow> uvc_stream_ctrl \<Rightarrow> 'u stream_dev
   \<Rightarrow> (int \<times> uvc_stream_handle option \<times> 'u stream_dev) option" where
  "uvc_stream_open_ctrl ops gs ct handle_ok al ctrl d =
     (if uvc_get_stream_by_interface (sd_streams d) (sc_bInterfaceNumber ctrl) \<noteq> None then Some (UVC_ERROR_BUSY, None, d)
      else case uvc_get_stream_if (in_stream_ifs (sd_info d)) (sc_bInterfaceNumber ctrl) of
        None \<Rightarrow> Some (UVC_ERROR_INVALID_PARAM, None, d)
      | Some si \<Rightarrow>
          if \<not> handle_ok then Some (UVC_ERROR_NO_MEM, None, d)
          else do {
            (ret, claims) \<leftarrow> uvc_claim_if ops gs (unat (si_bInterfaceNumber si)) (sd_claims d);
            let d = d\<lparr> sd_claims := claims \<rparr>;
            if ret \<noteq> UVC_SUCCESS then Some (ret, None, d)
            else do {
              (ret, s, u) \<leftarrow> uvc_stream_ctrl_set ct (sd_info d) ctrl (stream0 si) (dc_usb (sd_claims d));
              let d = d\<lparr> sd_claims := (sd_claims d)\<lparr> dc_usb := u \<rparr> \<rparr>;
              if ret \<noteq> UVC_SUCCESS then Some (ret, None, d)
              else do {
                let s = s\<lparr> sh_running := False,
                  sh_outbuf := mem_of (al 0 (unat (sc_dwMaxVideoFrameSize ctrl))),
                  sh_holdbuf := mem_of (al 1 (unat (sc_dwMaxVideoFrameSize ctrl))),
                  sh_meta_outbuf := mem_of (al 2 LIBUVC_XFER_META_BUF_SIZE),
                  sh_meta_holdbuf := mem_of (al 3 LIBUVC_XFER_META_BUF_SIZE) \<rparr>;
                Some (UVC_SUCCESS, Some s, d\<lparr> sd_streams := sd_streams d @ [s] \<rparr>) } } })"

text \<open>\<open>devh\<close> is \<^term>\<open>None\<close> for \<^verbatim>\<open>NULL\<close>.\<close>

definition uvc_set_transfer_buffers :: "u8 \<Rightarrow> 'u stream_dev option \<Rightarrow> int \<times> 'u stream_dev option" where
  "uvc_set_transfer_buffers count devh = (case devh of
     None \<Rightarrow> (UVC_ERROR_INVALID_PARAM, None)
   | Some d \<Rightarrow>
       if list_ex sh_running (sd_streams d) then (UVC_ERROR_BUSY, Some d)
       else let count = (if count \<noteq> 0 then if count < 2 then 2 else if count > 100 then 100 else count else count)
            in (UVC_SUCCESS, Some (d\<lparr> sd_transfer_buffer_count := count \<rparr>)))"

section \<open>Starting\<close>

definition num_transfer_bufs :: "u8 \<Rightarrow> nat" where
  "num_transfer_bufs count =
     (if count \<noteq> 0
      then let n = unat count; n = (if n < 2 then 2 else n)
           in if n > LIBUVC_NUM_TRANSFER_BUFS then LIBUVC_NUM_TRANSFER_BUFS else n
      else LIBUVC_NUM_TRANSFER_BUFS)"

text \<open>The frame the indices name and its parent format.\<close>

fun find_format_frame :: "uvc_format_desc list \<Rightarrow> u16 \<Rightarrow> u16 \<Rightarrow> (uvc_format_desc \<times> uvc_frame_desc) option" where
  "find_format_frame [] format_id frame_id = None"
| "find_format_frame (f # fs) format_id frame_id =
     (if ucast (fo_bFormatIndex f) = format_id
      then (case find_frame (fo_frame_descs f) frame_id of
              Some fr \<Rightarrow> Some (f, fr) | None \<Rightarrow> find_format_frame fs format_id frame_id)
      else find_format_frame fs format_id frame_id)"

definition uvc_find_frame_desc_stream ::
  "uvc_stream_handle \<Rightarrow> u16 \<Rightarrow> u16 \<Rightarrow> (uvc_format_desc \<times> uvc_frame_desc) option" where
  "uvc_find_frame_desc_stream s format_id frame_id = find_format_frame (si_format_descs (sh_stream_if s)) format_id frame_id"

text \<open>The bytes per packet of an alternate setting's endpoint; 0 when it has none.\<close>

fun endpoint_bytes :: "u8 \<Rightarrow> libusb_endpoint_descriptor list \<Rightarrow> nat" where
  "endpoint_bytes addr [] = 0"
| "endpoint_bytes addr (e # es) =
     (case ep_ss_wBytesPerInterval e of
        Some b \<Rightarrow> unat b
      | None \<Rightarrow>
          if ep_bEndpointAddress e = addr
          then unat (ep_wMaxPacketSize e AND 0x07ff) * (unat (drop_bit 11 (ep_wMaxPacketSize e) AND 3) + 1)
          else endpoint_bytes addr es)"

text \<open>The first alternate setting with enough bandwidth, its packet size and packets per transfer.\<close>

fun select_alt ::
  "u8 \<Rightarrow> nat \<Rightarrow> nat \<Rightarrow> libusb_interface_descriptor list \<Rightarrow> (libusb_interface_descriptor \<times> nat \<times> nat) option option" where
  "select_alt addr per_packet max_size [] = Some None"
| "select_alt addr per_packet max_size (a # as) =
     (let b = endpoint_bytes addr (id_endpoint a) in
      if b \<ge> per_packet
      then if b = 0 then None
           else Some (Some (a, b, let n = (max_size + b - 1) div b in if n > 32 then 32 else n))
      else select_alt addr per_packet max_size as)"

function set_alt_attempts ::
  "'u libusb_if_ops \<Rightarrow> nat \<Rightarrow> nat \<Rightarrow> nat \<Rightarrow> 'u \<Rightarrow> int \<times> 'u" where
  "set_alt_attempts ops intf alt attempts u =
     (let (ret, u) = op_set_interface_alt_setting ops intf alt u in
      if ret \<noteq> UVC_SUCCESS \<and> attempts + 1 < 3 then set_alt_attempts ops intf alt (attempts + 1) u else (ret, u))"
  by pat_completeness auto
termination by (relation "measure (\<lambda>(ops, intf, alt, attempts, u). 3 - attempts)") auto

declare set_alt_attempts.simps [simp del]

text \<open>
  The transfers: \<open>alloc i\<close> is the address libusb gives the \<open>i\<close>-th, which the fill macros
  dereference unchecked.
\<close>

fun fill_transfers :: "(nat \<Rightarrow> nat option) \<Rightarrow> nat \<Rightarrow> nat option list \<Rightarrow> nat option list option" where
  "fill_transfers alloc 0 ts = Some ts"
| "fill_transfers alloc (Suc n) ts = do {
     ts \<leftarrow> fill_transfers alloc n ts;
     t \<leftarrow> alloc n;
     if n < length ts then Some (ts[n := Some t]) else None }"

text \<open>Submission in order, up to the first failure: the last answer and the index reached.\<close>

fun submit_transfers :: "(nat \<Rightarrow> int) \<Rightarrow> nat \<Rightarrow> nat \<Rightarrow> int \<times> nat" where
  "submit_transfers submit i 0 = (UVC_SUCCESS, i)"
| "submit_transfers submit i (Suc n) =
     (if submit i \<noteq> UVC_SUCCESS then (submit i, i) else submit_transfers submit (i + 1) n)"

text \<open>Freeing the slots from \<open>i\<close> up to the number in use.\<close>

definition drop_transfers :: "nat \<Rightarrow> nat \<Rightarrow> uvc_stream_handle \<Rightarrow> uvc_stream_handle" where
  "drop_transfers i n s = s\<lparr> sh_transfers := take i (sh_transfers s) @ replicate (n - i) None @ drop n (sh_transfers s),
     sh_freed := rev (map the (filter (\<lambda>x. x \<noteq> None) (take (n - i) (drop i (sh_transfers s))))) @ sh_freed s \<rparr>"

text \<open>Selecting the alternate setting, for an interface that has several.\<close>

definition prepare_alt ::
  "'u libusb_if_ops \<Rightarrow> uvc_device_info \<Rightarrow> uvc_stream_handle \<Rightarrow> 'u \<Rightarrow> (int \<times> 'u) option" where
  "prepare_alt ops info s u = do {
     alts \<leftarrow> rd (in_config info) (unat (stream_num s));
     if length alts > 1
     then do {
       chosen \<leftarrow> select_alt (si_bEndpointAddress (sh_stream_if s)) (unat (sc_dwMaxPayloadTransferSize (sh_cur_ctrl s)))
         (max_frame s) alts;
       case chosen of
         None \<Rightarrow> Some (UVC_ERROR_INVALID_MODE, u)
       | Some (a, b, packets) \<Rightarrow>
           Some (set_alt_attempts ops (unat (id_bInterfaceNumber a)) (unat (id_bAlternateSetting a)) 0 u) }
     else Some (UVC_SUCCESS, u) }"

text \<open>Setting up the transfers, the callback, and the submission.\<close>

definition launch_transfers ::
  "(nat \<Rightarrow> nat option) \<Rightarrow> (nat \<Rightarrow> int) \<Rightarrow> bool \<Rightarrow> nat \<Rightarrow> uvc_stream_handle \<Rightarrow> (int \<times> uvc_stream_handle) option" where
  "launch_transfers alloc submit cb n s = do {
     ts \<leftarrow> fill_transfers alloc n (sh_transfers s);
     let s = s\<lparr> sh_transfers := ts, sh_user_cb := cb \<rparr>;
     let (ret, i) = submit_transfers submit 0 n;
     if ret \<noteq> UVC_SUCCESS \<and> i > 0 then Some (UVC_SUCCESS, drop_transfers i n s)
     else if ret \<noteq> UVC_SUCCESS then Some (UVC_ERROR_IO, drop_transfers 0 n s)
     else Some (UVC_SUCCESS, s) }"

definition uvc_stream_start ::
  "'u libusb_if_ops \<Rightarrow> (nat \<Rightarrow> nat option) \<Rightarrow> (nat \<Rightarrow> int) \<Rightarrow> bool \<Rightarrow> u8 \<Rightarrow> uvc_device_info \<Rightarrow> uvc_stream_handle \<Rightarrow> 'u
   \<Rightarrow> (int \<times> uvc_stream_handle \<times> 'u) option" where
  "uvc_stream_start ops alloc submit cb count info s u =
     (if sh_running s then Some (UVC_ERROR_BUSY, s, u)
      else
        let s = s\<lparr> sh_running := True, sh_seq := 1, sh_fid := 0, sh_pts := 0, sh_last_scr := 0 \<rparr>;
            n = num_transfer_bufs count; ctrl = sh_cur_ctrl s
        in case uvc_find_frame_desc_stream s (ucast (sc_bFormatIndex ctrl)) (ucast (sc_bFrameIndex ctrl)) of
          None \<Rightarrow> Some (UVC_ERROR_INVALID_PARAM, s\<lparr> sh_running := False \<rparr>, u)
        | Some (format, frame) \<Rightarrow>
            let s = s\<lparr> sh_frame_format := uvc_frame_format_for_guid (fo_guidFormat format) \<rparr> in
            if sh_frame_format s = FORMAT_ANY then Some (UVC_ERROR_NOT_SUPPORTED, s\<lparr> sh_running := False \<rparr>, u)
            else do {
              (ret, u) \<leftarrow> prepare_alt ops info s u;
              if ret \<noteq> UVC_SUCCESS then Some (ret, s\<lparr> sh_running := False \<rparr>, u)
              else do { (ret, s) \<leftarrow> launch_transfers alloc submit cb n s; Some (ret, s, u) } })"

section \<open>Stopping and closing\<close>

text \<open>A batch of callbacks: each transfer with libusb's answer to a resubmission.\<close>

fun run_callbacks ::
  "(nat \<Rightarrow> int) \<Rightarrow> bool \<Rightarrow> (int \<times> libusb_transfer) list \<Rightarrow> uvc_stream_handle \<Rightarrow> uvc_stream_handle option" where
  "run_callbacks now is_isight [] s = Some s"
| "run_callbacks now is_isight ((submit, tr) # cbs) s = do {
     (_, s) \<leftarrow> uvc_stream_callback now is_isight submit tr s;
     run_callbacks now is_isight cbs s }"

abbreviation LIBUVC_STREAM_STOP_TIMEOUT_ATTEMPTS :: nat where "LIBUVC_STREAM_STOP_TIMEOUT_ATTEMPTS \<equiv> 5"

text \<open>
  The waiting loop.  Each element of the last list is one wait: the callbacks that ran, and whether
  the wait timed out.  The list at its end means that the thread is still waiting.
\<close>

type_synonym stop_waits = "(bool \<times> (int \<times> libusb_transfer) list) list"

datatype 'a waiting = Still_waiting | Returned int 'a

fun stop_wait ::
  "(nat \<Rightarrow> int) \<Rightarrow> bool \<Rightarrow> nat \<Rightarrow> stop_waits \<Rightarrow> uvc_stream_handle \<Rightarrow> uvc_stream_handle waiting option" where
  "stop_wait now is_isight attempts ws s =
     (if list_all (\<lambda>t. t = None) (sh_transfers s) then Some (Returned UVC_SUCCESS s)
      else case ws of
        [] \<Rightarrow> Some Still_waiting
      | (timed_out, cbs) # ws \<Rightarrow> do {
          s \<leftarrow> run_callbacks now is_isight cbs s;
          if timed_out
          then if attempts + 1 \<ge> LIBUVC_STREAM_STOP_TIMEOUT_ATTEMPTS then Some (Returned UVC_ERROR_TIMEOUT s)
               else stop_wait now is_isight (attempts + 1) ws s
          else stop_wait now is_isight attempts ws s })"

text \<open>
  What a stop meets: its waits, and whether the callback thread, once woken by the broadcast, comes to
  its end; \<^verbatim>\<open>pthread_join\<close> does not return before.  That a woken thread sees the stop and ends, unless
  the callback of the program itself does not return, is shown in theory \<open>Stream_Frames\<close>.
\<close>

record stop_env =
  sw_waits :: stop_waits
  sw_joined :: bool

definition uvc_stream_stop ::
  "(nat \<Rightarrow> int) \<Rightarrow> bool \<Rightarrow> stop_env \<Rightarrow> uvc_stream_handle \<Rightarrow> uvc_stream_handle waiting option" where
  "uvc_stream_stop now is_isight ws s =
     (if \<not> sh_running s then Some (Returned UVC_ERROR_INVALID_PARAM s)
      else do {
        r \<leftarrow> stop_wait now is_isight 0 (sw_waits ws) (s\<lparr> sh_running := False \<rparr>);
        case r of
          Still_waiting \<Rightarrow> Some Still_waiting
        | Returned ret s \<Rightarrow> if sh_user_cb s \<and> \<not> sw_joined ws then Some Still_waiting else Some (Returned ret s) })"

definition uvc_stream_close ::
  "'u libusb_if_ops \<Rightarrow> (nat \<Rightarrow> int) \<Rightarrow> stop_env \<Rightarrow> uvc_stream_handle \<Rightarrow> 'u stream_dev
   \<Rightarrow> 'u stream_dev waiting option" where
  "uvc_stream_close ops now ws s d = do {
     stopped \<leftarrow> (if sh_running s then uvc_stream_stop now (sd_is_isight d) ws s else Some (Returned UVC_SUCCESS s));
     case stopped of
       Still_waiting \<Rightarrow> Some Still_waiting
     | Returned _ s \<Rightarrow>
         let d = unlink_stream s d in
         if list_ex (\<lambda>t. t \<noteq> None) (sh_transfers s)
         then Some (Returned UVC_SUCCESS (d\<lparr> sd_has_quarantined_stream := True, sd_leaked := s # sd_leaked d \<rparr>))
         else do {
           (_, claims) \<leftarrow> uvc_release_if ops (unat (stream_num s)) (sd_claims d);
           Some (Returned UVC_SUCCESS (d\<lparr> sd_claims := claims, sd_freed := s # sd_freed d \<rparr>)) } }"

text \<open>\<^verbatim>\<open>uvc_stop_streaming\<close>: every stream of the list, each with its own waits.\<close>

fun stop_streams ::
  "'u libusb_if_ops \<Rightarrow> (nat \<Rightarrow> int) \<Rightarrow> (u8 \<Rightarrow> stop_env) \<Rightarrow> uvc_stream_handle list
   \<Rightarrow> 'u stream_dev \<Rightarrow> 'u stream_dev waiting option" where
  "stop_streams ops now ws [] d = Some (Returned UVC_SUCCESS d)"
| "stop_streams ops now ws (s # ss) d = do {
     r \<leftarrow> uvc_stream_close ops now (ws (stream_num s)) s d;
     case r of Still_waiting \<Rightarrow> Some Still_waiting | Returned _ d \<Rightarrow> stop_streams ops now ws ss d }"

definition uvc_stop_streaming ::
  "'u libusb_if_ops \<Rightarrow> (nat \<Rightarrow> int) \<Rightarrow> (u8 \<Rightarrow> stop_env) \<Rightarrow> 'u stream_dev
   \<Rightarrow> 'u stream_dev waiting option" where
  "uvc_stop_streaming ops now ws d = stop_streams ops now ws (sd_streams d) d"

text \<open>\<^verbatim>\<open>uvc_start_streaming\<close>: open, start, and close again when the start fails.\<close>

definition uvc_start_streaming ::
  "'u libusb_if_ops \<Rightarrow> guard_source \<Rightarrow> 'u control_transfer \<Rightarrow> bool \<Rightarrow> (nat \<Rightarrow> allocator) \<Rightarrow> (nat \<Rightarrow> nat option) \<Rightarrow> (nat \<Rightarrow> int) \<Rightarrow>
   (nat \<Rightarrow> int) \<Rightarrow> stop_env \<Rightarrow> uvc_stream_ctrl \<Rightarrow> bool \<Rightarrow> 'u stream_dev
   \<Rightarrow> (int \<times> 'u stream_dev) waiting option" where
  "uvc_start_streaming ops gs ct handle_ok al alloc submit now ws ctrl cb d = do {
     (ret, sp, d) \<leftarrow> uvc_stream_open_ctrl ops gs ct handle_ok al ctrl d;
     case sp of
       None \<Rightarrow> Some (Returned ret (ret, d))
     | Some s \<Rightarrow> do {
         (ret, s, u) \<leftarrow> uvc_stream_start ops alloc submit cb (sd_transfer_buffer_count d) (sd_info d) s (dc_usb (sd_claims d));
         let d = put_stream s (d\<lparr> sd_claims := (sd_claims d)\<lparr> dc_usb := u \<rparr> \<rparr>);
         if ret \<noteq> UVC_SUCCESS
         then do {
           r \<leftarrow> uvc_stream_close ops now ws s d;
           case r of Still_waiting \<Rightarrow> Some Still_waiting | Returned _ d \<Rightarrow> Some (Returned ret (ret, d)) }
         else Some (Returned ret (UVC_SUCCESS, d)) } }"

text \<open>The deprecated entry points; the type of the stream is decided by the interface.\<close>

definition uvc_stream_start_iso ::
  "'u libusb_if_ops \<Rightarrow> (nat \<Rightarrow> nat option) \<Rightarrow> (nat \<Rightarrow> int) \<Rightarrow> bool \<Rightarrow> u8 \<Rightarrow> uvc_device_info \<Rightarrow> uvc_stream_handle \<Rightarrow> 'u
   \<Rightarrow> (int \<times> uvc_stream_handle \<times> 'u) option" where
  "uvc_stream_start_iso ops alloc submit cb count info s u = uvc_stream_start ops alloc submit cb count info s u"

definition uvc_start_iso_streaming ::
  "'u libusb_if_ops \<Rightarrow> guard_source \<Rightarrow> 'u control_transfer \<Rightarrow> bool \<Rightarrow> (nat \<Rightarrow> allocator) \<Rightarrow> (nat \<Rightarrow> nat option) \<Rightarrow> (nat \<Rightarrow> int) \<Rightarrow>
   (nat \<Rightarrow> int) \<Rightarrow> stop_env \<Rightarrow> uvc_stream_ctrl \<Rightarrow> bool \<Rightarrow> 'u stream_dev
   \<Rightarrow> (int \<times> 'u stream_dev) waiting option" where
  "uvc_start_iso_streaming ops gs ct handle_ok al alloc submit now ws ctrl cb d =
     uvc_start_streaming ops gs ct handle_ok al alloc submit now ws ctrl cb d"

section \<open>Callbacks of a stopped stream\<close>

text \<open>The transfers a batch completes.\<close>

definition cb_ids :: "(int \<times> libusb_transfer) list \<Rightarrow> nat set" where
  "cb_ids cbs = xf_id ` snd ` set cbs"

definition stream_ok :: "uvc_stream_handle \<Rightarrow> bool" where
  "stream_ok s = (stream_wf s \<and> slots_ok s)"

text \<open>From \<open>s\<close> to \<open>t\<close> only callbacks of a stopped stream ran, completing the transfers \<open>ids\<close>.\<close>

definition drained :: "uvc_stream_handle \<Rightarrow> nat set \<Rightarrow> uvc_stream_handle \<Rightarrow> bool" where
  "drained s ids t = (stream_ok t \<and> \<not> sh_running t \<and> sh_stream_if t = sh_stream_if s \<and> sh_user_cb t = sh_user_cb s \<and>
     live t = live s - ids \<and> set (sh_freed t) = set (sh_freed s) \<union> (live s \<inter> ids))"

lemma drained_refl: "stream_ok s \<Longrightarrow> \<not> sh_running s \<Longrightarrow> drained s {} s"
  by (simp add: drained_def)

lemma drained_trans: "drained s a t \<Longrightarrow> drained t b u \<Longrightarrow> drained s (a \<union> b) u"
  by (auto simp: drained_def)

lemma callback_drains:
  assumes "stream_ok s" and "\<not> sh_running s"
  shows "\<exists>t. uvc_stream_callback now is_isight submit tr s = Some (False, t) \<and> drained s {xf_id tr} t"
proof -
  obtain u where u: "xf_status tr = Completed \<Longrightarrow> (if xf_packets tr = [] then uvc_process_payload now is_isight (xf_data tr) s
      else process_packets now is_isight (xf_packets tr) s) = Some u"
    "xf_status tr \<noteq> Completed \<Longrightarrow> u = s" "stream_wf u" "keeps s u"
    using completed_sim [of s tr now is_isight] assms(1)
    by (cases "xf_status tr = Completed") (auto simp: stream_inv_def stream_ok_def)
  have k: "slots_ok u" "live u = live s" "sh_freed u = sh_freed s" "\<not> sh_running u" "sh_stream_if u = sh_stream_if s" "sh_user_cb u = sh_user_cb s"
    using u(4) assms by (auto simp: keeps_def slots_ok_def live_def stream_ok_def)
  have "uvc_stream_callback now is_isight submit tr s = Some (False, delete_transfer (xf_id tr) u)"
    using u(1,2) k(4) by (cases "xf_status tr") (auto simp: uvc_stream_callback_def)
  moreover have "\<not> sh_running (delete_transfer (xf_id tr) u)" "sh_stream_if (delete_transfer (xf_id tr) u) = sh_stream_if s"
    "sh_user_cb (delete_transfer (xf_id tr) u) = sh_user_cb s"
    using k(4-6) by (simp_all add: delete_transfer_def split: option.splits)
  ultimately show ?thesis using delete_transfer_slots [OF k(1), of "xf_id tr"] u(3) k
    by (auto simp: drained_def stream_ok_def)
qed

lemma run_callbacks_drains:
  assumes "stream_ok s" and "\<not> sh_running s"
  shows "\<exists>t. run_callbacks now is_isight cbs s = Some t \<and> drained s (cb_ids cbs) t"
  using assms
proof (induction cbs arbitrary: s)
  case Nil
  then show ?case by (simp add: drained_refl cb_ids_def)
next
  case (Cons c cbs)
  obtain submit tr where c: "c = (submit, tr)" by fastforce
  obtain t where t: "uvc_stream_callback now is_isight submit tr s = Some (False, t)" "drained s {xf_id tr} t"
    using callback_drains [OF Cons.prems] by blast
  then obtain u where u: "run_callbacks now is_isight cbs t = Some u" "drained t (cb_ids cbs) u"
    using Cons.IH [of t] by (auto simp: drained_def)
  show ?case using t u drained_trans [OF t(2) u(2)] c by (auto simp: cb_ids_def)
qed

text \<open>The waits: the transfers they complete and how many of them time out.\<close>

definition wait_ids :: "stop_waits \<Rightarrow> nat set" where
  "wait_ids ws = (\<Union>w \<in> set ws. cb_ids (snd w))"

abbreviation timeouts :: "stop_waits \<Rightarrow> nat" where
  "timeouts ws \<equiv> length (filter fst ws)"

lemma all_None_live: "list_all (\<lambda>t. t = None) (sh_transfers s) \<longleftrightarrow> live s = {}"
  by (auto simp: list_all_iff live_def) (metis not_None_eq)

declare stop_wait.simps [simp del]

lemma stop_wait_Nil: "stop_wait now is_isight attempts [] s = Some (if live s = {} then Returned UVC_SUCCESS s else Still_waiting)"
  by (simp add: stop_wait.simps [of now is_isight attempts "[]"] all_None_live)

lemma stop_wait_Cons: "stop_wait now is_isight attempts ((timed_out, cbs) # ws) s =
   (if live s = {} then Some (Returned UVC_SUCCESS s)
    else do {
      s \<leftarrow> run_callbacks now is_isight cbs s;
      if timed_out
      then if attempts + 1 \<ge> LIBUVC_STREAM_STOP_TIMEOUT_ATTEMPTS then Some (Returned UVC_ERROR_TIMEOUT s)
           else stop_wait now is_isight (attempts + 1) ws s
      else stop_wait now is_isight attempts ws s })"
  by (subst stop_wait.simps) (simp add: all_None_live)

lemma stop_wait_ok:
  assumes "stream_ok s" and "\<not> sh_running s" and "attempts < LIBUVC_STREAM_STOP_TIMEOUT_ATTEMPTS"
  shows "\<exists>w. stop_wait now is_isight attempts ws s = Some w \<and>
    (w = Still_waiting \<longrightarrow> attempts + timeouts ws < LIBUVC_STREAM_STOP_TIMEOUT_ATTEMPTS \<and> \<not> live s \<subseteq> wait_ids ws) \<and>
    (\<forall>r t. w = Returned r t \<longrightarrow> (\<exists>ids \<subseteq> wait_ids ws. drained s ids t) \<and>
       (r = UVC_SUCCESS \<and> live t = {} \<or> r = UVC_ERROR_TIMEOUT \<and> LIBUVC_STREAM_STOP_TIMEOUT_ATTEMPTS \<le> attempts + timeouts ws))"
  using assms
proof (induction ws arbitrary: attempts s)
  case Nil
  then show ?case using drained_refl [of s]
    by (auto simp: stop_wait_Nil wait_ids_def)
next
  case (Cons w ws)
  show ?case
  proof (cases "live s = {}")
    case True
    then show ?thesis using drained_refl [OF Cons.prems(1,2)]
      by (cases w) (auto simp: stop_wait_Cons)
  next
    case False
    obtain timed_out cbs where w: "w = (timed_out, cbs)" by fastforce
    obtain t where t: "run_callbacks now is_isight cbs s = Some t" "drained s (cb_ids cbs) t"
      using run_callbacks_drains [OF Cons.prems(1,2)] by blast
    then have ok: "stream_ok t" "\<not> sh_running t" and l: "live t = live s - cb_ids cbs" by (auto simp: drained_def)
    have ids: "wait_ids (w # ws) = cb_ids cbs \<union> wait_ids ws" by (simp add: wait_ids_def w)
    let ?a = "if timed_out then attempts + 1 else attempts"
    show ?thesis
    proof (cases "timed_out \<and> attempts + 1 \<ge> LIBUVC_STREAM_STOP_TIMEOUT_ATTEMPTS")
      case True
      then have "stop_wait now is_isight attempts (w # ws) s = Some (Returned UVC_ERROR_TIMEOUT t)"
        using False t w by (simp add: stop_wait_Cons)
      then show ?thesis using True t(2) w ids by auto
    next
      case go: False
      then have step: "stop_wait now is_isight attempts (w # ws) s = stop_wait now is_isight ?a ws t"
        using False t w by (auto simp: stop_wait_Cons)
      have n: "?a + timeouts ws = attempts + timeouts (w # ws)" by (simp add: w)
      have lt: "?a < LIBUVC_STREAM_STOP_TIMEOUT_ATTEMPTS" using go Cons.prems(3) by auto
      obtain v where v: "stop_wait now is_isight ?a ws t = Some v"
        "v = Still_waiting \<longrightarrow> ?a + timeouts ws < LIBUVC_STREAM_STOP_TIMEOUT_ATTEMPTS \<and> \<not> live t \<subseteq> wait_ids ws"
        "\<forall>r u. v = Returned r u \<longrightarrow> (\<exists>ids \<subseteq> wait_ids ws. drained t ids u) \<and>
          (r = UVC_SUCCESS \<and> live u = {} \<or> r = UVC_ERROR_TIMEOUT \<and> LIBUVC_STREAM_STOP_TIMEOUT_ATTEMPTS \<le> ?a + timeouts ws)"
        using Cons.IH [OF ok lt] by blast
      show ?thesis unfolding step
      proof (intro exI [of _ v] conjI allI impI)
        show "stop_wait now is_isight ?a ws t = Some v" by (rule v(1))
        assume "v = Still_waiting"
        then show "attempts + timeouts (w # ws) < LIBUVC_STREAM_STOP_TIMEOUT_ATTEMPTS" "\<not> live s \<subseteq> wait_ids (w # ws)"
          using v(2) n l ids by auto
      next
        fix r u assume "v = Returned r u"
        then show "\<exists>ids \<subseteq> wait_ids (w # ws). drained s ids u"
          "r = UVC_SUCCESS \<and> live u = {} \<or> r = UVC_ERROR_TIMEOUT \<and> LIBUVC_STREAM_STOP_TIMEOUT_ATTEMPTS \<le> attempts + timeouts (w # ws)"
          using v(3) n ids drained_trans [OF t(2)] by (metis Un_mono order_refl)+
      qed
    qed
  qed
qed

section \<open>Alternate settings and transfers\<close>

lemma set_alt_attempts_bounded:
  "attempts < 3 \<Longrightarrow> \<exists>k. k \<le> 3 - attempts \<and> 0 < k \<and>
     snd (set_alt_attempts ops intf alt attempts u) = ((\<lambda>u. snd (op_set_interface_alt_setting ops intf alt u)) ^^ k) u"
proof (induction ops intf alt attempts u rule: set_alt_attempts.induct)
  case (1 ops intf alt attempts u)
  obtain r v where rv: "op_set_interface_alt_setting ops intf alt u = (r, v)" by fastforce
  show ?case
  proof (cases "r \<noteq> UVC_SUCCESS \<and> attempts + 1 < 3")
    case True
    then obtain k where "k \<le> 3 - (attempts + 1)" "0 < k"
      "snd (set_alt_attempts ops intf alt (attempts + 1) v) = ((\<lambda>u. snd (op_set_interface_alt_setting ops intf alt u)) ^^ k) v"
      using 1(1) [OF rv [symmetric] refl True] by blast
    then show ?thesis using True rv
      by (intro exI [of _ "Suc k"]) (auto simp: set_alt_attempts.simps [of _ _ _ attempts] funpow_Suc_right simp del: funpow.simps)
  next
    case False
    then show ?thesis using rv 1(2) by (intro exI [of _ 1]) (auto simp: set_alt_attempts.simps [of _ _ _ attempts])
  qed
qed

lemma find_format_frame_snd:
  "map_option snd (find_format_frame fs format_id frame_id) = find_in_formats fs format_id frame_id"
  by (induction fs) (auto split: option.splits)

lemma num_transfer_bufs_range: "2 \<le> num_transfer_bufs count \<and> num_transfer_bufs count \<le> LIBUVC_NUM_TRANSFER_BUFS"
  by (simp add: num_transfer_bufs_def Let_def)

lemma fill_transfers_ok:
  assumes "\<And>i. alloc i = Some (f i)" and "n \<le> length ts"
  shows "fill_transfers alloc n ts = Some (map (Some \<circ> f) [0..<n] @ drop n ts)"
  using assms(2)
proof (induction n)
  case (Suc n)
  then have "drop n ts = ts ! n # drop (Suc n) ts" by (simp add: Cons_nth_drop_Suc)
  with Suc show ?case by (simp add: assms(1) list_update_append)
qed simp

lemma submit_transfers_ok:
  "\<exists>k \<le> n. (\<forall>j < k. submit (i + j) = UVC_SUCCESS) \<and>
     (if k = n then submit_transfers submit i n = (UVC_SUCCESS, i + n)
      else submit (i + k) \<noteq> UVC_SUCCESS \<and> submit_transfers submit i n = (submit (i + k), i + k))"
proof (induction n arbitrary: i)
  case (Suc n)
  show ?case
  proof (cases "submit i = UVC_SUCCESS")
    case False
    then show ?thesis by (intro exI [of _ 0]) simp
  next
    case True
    obtain k where k: "k \<le> n" "\<forall>j < k. submit (i + 1 + j) = UVC_SUCCESS"
      "if k = n then submit_transfers submit (i + 1) n = (UVC_SUCCESS, i + 1 + n)
       else submit (i + 1 + k) \<noteq> UVC_SUCCESS \<and> submit_transfers submit (i + 1) n = (submit (i + 1 + k), i + 1 + k)"
      using Suc.IH [of "i + 1"] by blast
    have "\<forall>j < Suc k. submit (i + j) = UVC_SUCCESS" using True k(2) by (auto simp: less_Suc_eq_0_disj)
    then show ?thesis using True k(1,3) by (intro exI [of _ "Suc k"]) auto
  qed
qed simp

lemma drop_transfers_slots:
  assumes "sh_transfers s = map (Some \<circ> f) [0..<n] @ rest" and "k \<le> n"
  shows "sh_transfers (drop_transfers k n s) = map (Some \<circ> f) [0..<k] @ replicate (n - k) None @ rest"
    and "sh_freed (drop_transfers k n s) = rev (map f [k..<n]) @ sh_freed s"
proof -
  have "take k (map (Some \<circ> f) [0..<n]) = map (Some \<circ> f) [0..<k]" using assms(2) by (simp add: take_map take_upt)
  then show "sh_transfers (drop_transfers k n s) = map (Some \<circ> f) [0..<k] @ replicate (n - k) None @ rest"
    using assms by (simp add: drop_transfers_def)
  have "take (n - k) (drop k (map (Some \<circ> f) [0..<n])) = map (Some \<circ> f) [k..<n]"
    using assms(2) by (simp add: drop_map)
  moreover have "map the (filter (\<lambda>x. x \<noteq> None) (map (Some \<circ> f) xs)) = map f xs" for xs by (induction xs) auto
  ultimately show "sh_freed (drop_transfers k n s) = rev (map f [k..<n]) @ sh_freed s"
    using assms by (simp add: drop_transfers_def)
qed

section \<open>The streams of a device\<close>

text \<open>
  Every open stream is well formed and has an interface of its own; nothing is freed that libusb may
  still call back; what is kept back is well formed, so a late callback finds it intact.
\<close>

definition dev_ok :: "'u stream_dev \<Rightarrow> bool" where
  "dev_ok d = ((\<forall>s \<in> set (sd_streams d). stream_ok s) \<and> distinct (map stream_num (sd_streams d)) \<and>
     (\<forall>s \<in> set (sd_freed d). live s = {}) \<and> (\<forall>s \<in> set (sd_leaked d). stream_ok s \<and> live s \<noteq> {}) \<and>
     (sd_leaked d = [] \<or> sd_has_quarantined_stream d))"

lemma get_stream_None: "uvc_get_stream_by_interface ss idx = None \<longleftrightarrow> idx \<notin> stream_num ` set ss"
  by (induction ss) auto

lemma get_stream_if_num: "uvc_get_stream_if sis idx = Some si \<Longrightarrow> si_bInterfaceNumber si = idx"
  by (induction sis) (auto split: if_splits)

lemma drained_running [simp]: "drained (s\<lparr> sh_running := b \<rparr>) ids t = drained s ids t"
  by (simp add: drained_def live_def)

text \<open>A stop that ends: by five timeouts, or by the completion of every transfer, and by the end of the callback thread.\<close>

definition stop_ends :: "stop_env \<Rightarrow> uvc_stream_handle \<Rightarrow> bool" where
  "stop_ends ws s = ((LIBUVC_STREAM_STOP_TIMEOUT_ATTEMPTS \<le> timeouts (sw_waits ws) \<or> live s \<subseteq> wait_ids (sw_waits ws)) \<and>
     (sh_user_cb s \<longrightarrow> sw_joined ws))"

lemma stop_ok:
  assumes "stream_ok s" and "sh_running s"
  shows "\<exists>w. uvc_stream_stop now is_isight ws s = Some w \<and> (stop_ends ws s \<longrightarrow> w \<noteq> Still_waiting) \<and>
    (sh_user_cb s \<and> \<not> sw_joined ws \<longrightarrow> w = Still_waiting) \<and>
    (\<forall>r t. w = Returned r t \<longrightarrow> (\<exists>ids \<subseteq> wait_ids (sw_waits ws). drained s ids t) \<and>
       (r = UVC_SUCCESS \<and> live t = {} \<or> r = UVC_ERROR_TIMEOUT \<and> LIBUVC_STREAM_STOP_TIMEOUT_ATTEMPTS \<le> timeouts (sw_waits ws)))"
proof -
  let ?s = "s\<lparr> sh_running := False \<rparr>" and ?ws = "sw_waits ws"
  have ok: "stream_ok ?s" using assms(1) by (simp add: stream_ok_def stream_wf_def slots_ok_def)
  have live: "live ?s = live s" by (simp add: live_def)
  have run: "\<not> sh_running ?s" "0 < LIBUVC_STREAM_STOP_TIMEOUT_ATTEMPTS" by simp_all
  obtain w where w: "stop_wait now is_isight 0 ?ws ?s = Some w"
    "w = Still_waiting \<longrightarrow> 0 + timeouts ?ws < LIBUVC_STREAM_STOP_TIMEOUT_ATTEMPTS \<and> \<not> live ?s \<subseteq> wait_ids ?ws"
    "\<forall>r t. w = Returned r t \<longrightarrow> (\<exists>ids \<subseteq> wait_ids ?ws. drained ?s ids t) \<and>
       (r = UVC_SUCCESS \<and> live t = {} \<or> r = UVC_ERROR_TIMEOUT \<and> LIBUVC_STREAM_STOP_TIMEOUT_ATTEMPTS \<le> 0 + timeouts ?ws)"
    using stop_wait_ok [OF ok run, of now is_isight ?ws] by blast
  show ?thesis
  proof (cases w)
    case Still_waiting
    then show ?thesis using w(1,2) assms(2) live by (auto simp: uvc_stream_stop_def stop_ends_def)
  next
    case (Returned r t)
    then have t: "\<exists>ids \<subseteq> wait_ids ?ws. drained s ids t"
      "r = UVC_SUCCESS \<and> live t = {} \<or> r = UVC_ERROR_TIMEOUT \<and> LIBUVC_STREAM_STOP_TIMEOUT_ATTEMPTS \<le> timeouts ?ws" using w(3) by simp_all
    then have cb: "sh_user_cb t = sh_user_cb s" by (auto simp: drained_def)
    show ?thesis
    proof (cases "sh_user_cb s \<and> \<not> sw_joined ws")
      case True
      then show ?thesis using w(1) Returned cb assms(2) by (simp add: uvc_stream_stop_def stop_ends_def)
    next
      case False
      then have "uvc_stream_stop now is_isight ws s = Some (Returned r t)" using w(1) Returned cb assms(2) by (auto simp: uvc_stream_stop_def)
      then show ?thesis using t False by auto
    qed
  qed
qed

lemma list_ex_live: "list_ex (\<lambda>t. t \<noteq> None) (sh_transfers s) \<longleftrightarrow> live s \<noteq> {}"
  using all_None_live [of s] by (auto simp: list_ex_iff list_all_iff)

text \<open>
  What becomes of a stream that is closed: \<open>t\<close> is its handle after the stop, when it was running; its
  slots were emptied by completions that the waits saw, and by nothing else.
\<close>

definition closed_as :: "stop_env \<Rightarrow> uvc_stream_handle \<Rightarrow> uvc_stream_handle \<Rightarrow> bool" where
  "closed_as ws s t = (stream_ok t \<and> sh_stream_if t = sh_stream_if s \<and> \<not> sh_running t \<and>
     (\<exists>ids. ids \<subseteq> (if sh_running s then wait_ids (sw_waits ws) else {}) \<and>
        live t = live s - ids \<and> set (sh_freed t) = set (sh_freed s) \<union> (live s \<inter> ids)))"

lemma close_ok:
  assumes ok: "stream_ok s" and num: "unat (stream_num s) < 32" and ends: "sh_running s \<longrightarrow> stop_ends ws s"
  shows "\<exists>r t c. closed_as ws s t \<and> uvc_stream_close ops now ws s d = Some (Returned r
    (if live t = {} then (unlink_stream s d)\<lparr> sd_claims := c, sd_freed := t # sd_freed d \<rparr>
     else (unlink_stream s d)\<lparr> sd_has_quarantined_stream := True, sd_leaked := t # sd_leaked d \<rparr>))"
proof -
  obtain r t where t: "(if sh_running s then uvc_stream_stop now (sd_is_isight d) ws s else Some (Returned UVC_SUCCESS s)) = Some (Returned r t)"
    "closed_as ws s t"
  proof (cases "sh_running s")
    case True
    obtain w where w: "uvc_stream_stop now (sd_is_isight d) ws s = Some w" "w \<noteq> Still_waiting"
      "\<forall>r t. w = Returned r t \<longrightarrow> (\<exists>ids \<subseteq> wait_ids (sw_waits ws). drained s ids t)"
      using stop_ok [OF ok True, of now "sd_is_isight d" ws] ends True by metis
    obtain r t where rt: "w = Returned r t" using w(2) by (cases w) auto
    then obtain ids where "ids \<subseteq> wait_ids (sw_waits ws)" "drained s ids t" using w(3) by blast
    then have "closed_as ws s t" using True by (auto simp: closed_as_def drained_def)
    then show thesis using that w(1) rt True by simp
  next
    case False
    then show thesis using that [of UVC_SUCCESS s] ok by (simp add: closed_as_def)
  qed
  have if_eq: "sh_stream_if t = sh_stream_if s" using t(2) by (simp add: closed_as_def)
  obtain ret c where c: "uvc_release_if ops (unat (stream_num s)) (sd_claims d) = Some (ret, c)"
    using release_if_Some [OF num] by blast
  have "uvc_stream_close ops now ws s d = Some (Returned UVC_SUCCESS
      (if live t = {} then (unlink_stream s d)\<lparr> sd_claims := c, sd_freed := t # sd_freed d \<rparr>
       else (unlink_stream s d)\<lparr> sd_has_quarantined_stream := True, sd_leaked := t # sd_leaked d \<rparr>))"
    using t(1) if_eq c by (simp add: uvc_stream_close_def list_ex_live [simplified] unlink_stream_def Let_def)
  then show ?thesis using t(2) by blast
qed

lemma close_dev_ok:
  assumes "dev_ok d" and "stream_ok t" and "num = stream_num s"
    and "d' = (if live t = {} then (unlink_stream s d)\<lparr> sd_claims := c, sd_freed := t # sd_freed d \<rparr>
      else (unlink_stream s d)\<lparr> sd_has_quarantined_stream := True, sd_leaked := t # sd_leaked d \<rparr>)"
  shows "dev_ok d' \<and> sd_streams d' = filter (\<lambda>x. stream_num x \<noteq> num) (sd_streams d) \<and>
    (sd_has_quarantined_stream d' \<longleftrightarrow> sd_has_quarantined_stream d \<or> live t \<noteq> {})"
  using assms by (auto simp: dev_ok_def unlink_stream_def distinct_map inj_on_def)

lemma stop_streams_ok:
  assumes "dev_ok d" and "sd_streams d = ss" and "\<forall>s \<in> set ss. unat (stream_num s) < 32"
    and "\<forall>s \<in> set ss. sh_running s \<longrightarrow> stop_ends (ws (stream_num s)) s"
  shows "\<exists>r d' ts. stop_streams ops now ws ss d = Some (Returned r d') \<and> dev_ok d' \<and> sd_streams d' = [] \<and>
    list_all2 (\<lambda>s t. closed_as (ws (stream_num s)) s t) ss ts \<and>
    sd_freed d' = rev (filter (\<lambda>t. live t = {}) ts) @ sd_freed d \<and>
    sd_leaked d' = rev (filter (\<lambda>t. live t \<noteq> {}) ts) @ sd_leaked d \<and>
    (sd_has_quarantined_stream d' \<longleftrightarrow> sd_has_quarantined_stream d \<or> (\<exists>t \<in> set ts. live t \<noteq> {}))"
  using assms
proof (induction ss arbitrary: d)
  case (Cons s ss)
  have ok: "stream_ok s" and dist: "stream_num s \<notin> stream_num ` set ss" using Cons.prems(1,2) by (auto simp: dev_ok_def)
  have num: "unat (stream_num s) < 32" and ends: "sh_running s \<longrightarrow> stop_ends (ws (stream_num s)) s" using Cons.prems(3,4) by simp_all
  obtain r t c where t: "closed_as (ws (stream_num s)) s t" and close: "uvc_stream_close ops now (ws (stream_num s)) s d = Some (Returned r
    (if live t = {} then (unlink_stream s d)\<lparr> sd_claims := c, sd_freed := t # sd_freed d \<rparr>
     else (unlink_stream s d)\<lparr> sd_has_quarantined_stream := True, sd_leaked := t # sd_leaked d \<rparr>))"
    using close_ok [OF ok num ends] by blast
  define d1 where "d1 = (if live t = {} then (unlink_stream s d)\<lparr> sd_claims := c, sd_freed := t # sd_freed d \<rparr>
     else (unlink_stream s d)\<lparr> sd_has_quarantined_stream := True, sd_leaked := t # sd_leaked d \<rparr>)"
  have "stream_ok t" using t by (simp add: closed_as_def)
  note d1 = close_dev_ok [OF Cons.prems(1) this refl d1_def]
  have "filter (\<lambda>x. stream_num x \<noteq> stream_num s) ss = ss" using dist by (intro filter_True ballI) (metis imageI)
  then have ss: "sd_streams d1 = ss" using d1 Cons.prems(2) by simp
  have rest: "\<forall>s \<in> set ss. unat (stream_num s) < 32" "\<forall>s \<in> set ss. sh_running s \<longrightarrow> stop_ends (ws (stream_num s)) s"
    using Cons.prems(3,4) by simp_all
  obtain r' d2 ts where ts: "stop_streams ops now ws ss d1 = Some (Returned r' d2)" "dev_ok d2" "sd_streams d2 = []"
    "list_all2 (\<lambda>s t. closed_as (ws (stream_num s)) s t) ss ts"
    "sd_freed d2 = rev (filter (\<lambda>t. live t = {}) ts) @ sd_freed d1"
    "sd_leaked d2 = rev (filter (\<lambda>t. live t \<noteq> {}) ts) @ sd_leaked d1"
    "sd_has_quarantined_stream d2 \<longleftrightarrow> sd_has_quarantined_stream d1 \<or> (\<exists>t \<in> set ts. live t \<noteq> {})"
    using Cons.IH [OF conjunct1 [OF d1] ss rest] by blast
  have f: "sd_freed d1 = (if live t = {} then t # sd_freed d else sd_freed d)"
    "sd_leaked d1 = (if live t = {} then sd_leaked d else t # sd_leaked d)" by (simp_all add: d1_def unlink_stream_def)
  show ?case
  proof (intro exI conjI)
    show "stop_streams ops now ws (s # ss) d = Some (Returned r' d2)" using close [folded d1_def] ts(1) by simp
    show "list_all2 (\<lambda>s t. closed_as (ws (stream_num s)) s t) (s # ss) (t # ts)" using t ts(4) by simp
    show "sd_freed d2 = rev (filter (\<lambda>t. live t = {}) (t # ts)) @ sd_freed d" using ts(5) f(1) by simp
    show "sd_leaked d2 = rev (filter (\<lambda>t. live t \<noteq> {}) (t # ts)) @ sd_leaked d" using ts(6) f(2) by simp
    show "sd_has_quarantined_stream d2 \<longleftrightarrow> sd_has_quarantined_stream d \<or> (\<exists>t \<in> set (t # ts). live t \<noteq> {})" using ts(7) d1 by auto
  qed (use ts in simp_all)
qed simp

text \<open>The sample camera with no stream, and the control block for its only frame.\<close>

definition sample_dev :: "bytes stream_dev" where
  "sample_dev = \<lparr> sd_claims = plain_devh [], sd_info = sample_info, sd_streams = [], sd_is_isight = False,
     sd_transfer_buffer_count = 0, sd_has_quarantined_stream = False, sd_leaked = [], sd_freed = [] \<rparr>"

abbreviation sample_ctrl :: uvc_stream_ctrl where
  "sample_ctrl \<equiv> stream_ctrl0\<lparr> sc_bFormatIndex := 1, sc_bFrameIndex := 1 \<rparr>"

lemma sample_dev_ok: "dev_ok sample_dev"
  by (simp add: dev_ok_def sample_dev_def)

lemma zero_alloc_ok: "alloc_ok zero_alloc" "zero_alloc n \<noteq> None"
  by (simp_all add: alloc_ok_def zero_alloc_def)

section \<open>Properties\<close>

lemma query_set_keeps_ctrl:
  assumes "uvc_query_stream_ctrl ct info probe UVC_SET_CUR ctrl u = Some (r, ctrl', u')"
  shows "ctrl' = ctrl"
  using assms by (auto simp: uvc_query_stream_ctrl_def Let_def split: prod.splits if_splits)

text \<open>The \<^verbatim>\<open>malloc\<close> of a buffer of \<open>n\<close> bytes gave what is needed.\<close>

definition buffer_got :: "allocator \<Rightarrow> nat \<Rightarrow> bool" where
  "buffer_got al n = (al n \<noteq> None \<or> n = 0)"

lemma buffer_length: "alloc_ok al \<Longrightarrow> length (mem_of (al n)) = (if buffer_got al n then n else 0)"
  by (auto simp: buffer_got_def alloc_ok_def mem_of_def split: option.splits)

lemma buffer_fits: "alloc_ok al \<Longrightarrow> n \<le> length (mem_of (al n)) \<longleftrightarrow> buffer_got al n"
  by (auto simp: buffer_length) (simp add: buffer_got_def)

text \<open>
  C33: opening a stream.  Success gives exactly one new stream, on the interface asked for, which is
  claimed and had no stream before; the stream is idle, without transfers, and holds the control block
  committed.  It is well formed, so that every statement about payloads applies to it and the device
  stays in order, exactly when the four buffers were obtained: the code does not look, and reports
  success without them.  A failure adds no stream and keeps the device in order.
\<close>

theorem stream_open_correct:
  assumes "uvc_stream_open_ctrl ops gs ct handle_ok al ctrl d = Some (ret, sp, d')"
    and "\<And>i. alloc_ok (al i)" and "dev_ok d"
  shows "case sp of
      None \<Rightarrow> ret \<noteq> UVC_SUCCESS \<and> sd_streams d' = sd_streams d \<and> dev_ok d'
    | Some s \<Rightarrow> ret = UVC_SUCCESS \<and> sd_streams d' = sd_streams d @ [s] \<and> stream_num s = sc_bInterfaceNumber ctrl \<and>
        stream_num s \<notin> stream_num ` set (sd_streams d) \<and>
        slots_ok s \<and> live s = {} \<and> \<not> sh_running s \<and> sh_cur_ctrl s = ctrl \<and>
        bit (dc_claimed (sd_claims d')) (unat (sc_bInterfaceNumber ctrl)) \<and>
        (stream_wf s \<longleftrightarrow> buffer_got (al 0) (unat (sc_dwMaxVideoFrameSize ctrl)) \<and> buffer_got (al 1) (unat (sc_dwMaxVideoFrameSize ctrl)) \<and>
           buffer_got (al 2) LIBUVC_XFER_META_BUF_SIZE \<and> buffer_got (al 3) LIBUVC_XFER_META_BUF_SIZE) \<and>
        (dev_ok d' \<longleftrightarrow> stream_wf s)"
proof -
  have keep: "dev_ok (d\<lparr> sd_claims := c \<rparr>)" for c using assms(3) by (simp add: dev_ok_def)
  show ?thesis
  proof (cases "ret = UVC_SUCCESS")
    case False
    then show ?thesis using assms(1,3) keep
      by (auto simp: uvc_stream_open_ctrl_def bind_eq_Some_conv Let_def split: if_splits option.splits)
  next
    case True
    let ?n = "unat (sc_dwMaxVideoFrameSize ctrl)"
    obtain si c s0 u where o: "uvc_get_stream_by_interface (sd_streams d) (sc_bInterfaceNumber ctrl) = None"
      "uvc_get_stream_if (in_stream_ifs (sd_info d)) (sc_bInterfaceNumber ctrl) = Some si"
      "uvc_claim_if ops gs (unat (si_bInterfaceNumber si)) (sd_claims d) = Some (UVC_SUCCESS, c)"
      "uvc_stream_ctrl_set ct (sd_info d) ctrl (stream0 si) (dc_usb c) = Some (UVC_SUCCESS, s0, u)"
      "sp = Some (s0\<lparr> sh_running := False, sh_outbuf := mem_of (al 0 ?n), sh_holdbuf := mem_of (al 1 ?n),
         sh_meta_outbuf := mem_of (al 2 LIBUVC_XFER_META_BUF_SIZE), sh_meta_holdbuf := mem_of (al 3 LIBUVC_XFER_META_BUF_SIZE) \<rparr>)"
      "d' = d\<lparr> sd_claims := c\<lparr> dc_usb := u \<rparr>, sd_streams := sd_streams d @ [the sp] \<rparr>"
      using assms(1) True by (auto simp: uvc_stream_open_ctrl_def bind_eq_Some_conv Let_def split: if_splits option.splits)
    have s0: "s0 = stream0 si\<lparr> sh_cur_ctrl := ctrl \<rparr>"
      using o(4) by (auto simp: uvc_stream_ctrl_set_def bind_eq_Some_conv dest!: query_set_keeps_ctrl split: if_splits)
    have num: "si_bInterfaceNumber si = sc_bInterfaceNumber ctrl" using get_stream_if_num [OF o(2)] .
    have "bit (dc_claimed c) (unat (sc_bInterfaceNumber ctrl))" using claim_if_claimed [OF o(3)] num by simp
    moreover have "sc_bInterfaceNumber ctrl \<notin> stream_num ` set (sd_streams d)" using o(1) by (simp add: get_stream_None)
    moreover have "stream_num (the sp) = sc_bInterfaceNumber ctrl" "\<not> sh_running (the sp)" "sh_cur_ctrl (the sp) = ctrl"
      "live (the sp) = {}" "slots_ok (the sp)" using num by (simp_all add: o(5) s0 stream0_def live_def slots_ok_def)
    moreover have "stream_wf (the sp) \<longleftrightarrow> buffer_got (al 0) ?n \<and> buffer_got (al 1) ?n \<and>
       buffer_got (al 2) LIBUVC_XFER_META_BUF_SIZE \<and> buffer_got (al 3) LIBUVC_XFER_META_BUF_SIZE"
      using buffer_length [OF assms(2)] buffer_fits [OF assms(2)] by (auto simp: o(5) s0 stream0_def stream_wf_def)
    ultimately show ?thesis using True assms(3) o(5,6) by (auto simp: dev_ok_def stream_ok_def)
  qed
qed

theorem stream_open_correct_witness:
  "\<exists>s d'. uvc_stream_open_ctrl ok_ops sample_source mirror True (\<lambda>i. if i = 0 then zero_alloc else (\<lambda>_. None)) sample_ctrl sample_dev =
     Some (UVC_SUCCESS, Some s, d') \<and> sd_streams d' = [s] \<and> \<not> stream_wf s"
proof -
  let ?al = "\<lambda>i::nat. if i = 0 then zero_alloc else (\<lambda>_. None)"
  have "map_option (\<lambda>(r, sp, d). (r, Option.is_none sp)) (uvc_stream_open_ctrl ok_ops sample_source mirror True ?al sample_ctrl sample_dev) =
      Some (UVC_SUCCESS, False)" by code_simp
  then obtain s d' where o: "uvc_stream_open_ctrl ok_ops sample_source mirror True ?al sample_ctrl sample_dev =
      Some (UVC_SUCCESS, Some s, d')" by (auto simp: Option.is_none_def)
  have ok: "alloc_ok (?al i)" for i using zero_alloc_ok(1) by (simp add: alloc_ok_def)
  show ?thesis using stream_open_correct [OF o ok sample_dev_ok] o by (auto simp: sample_dev_def buffer_got_def)
qed

text \<open>
  C34: committing a new control block on an open, stopped stream keeps the buffers of the open and
  what has arrived of a frame.  The stream stays well formed, and safe for every payload, exactly when
  the new frame size still fits the buffers and is not less than the bytes that wait in them, which
  neither the stop nor the start of the stream takes away.
\<close>

theorem reconfigure_bounds:
  assumes "uvc_stream_ctrl_set ct info ctrl s u = Some (UVC_SUCCESS, s', u')"
    and "stream_wf s" and "length (sh_holdbuf s) = length (sh_outbuf s)"
  defines "fits \<equiv> unat (sc_dwMaxVideoFrameSize ctrl) \<le> length (sh_outbuf s) \<and> sh_got_bytes s \<le> unat (sc_dwMaxVideoFrameSize ctrl)"
  shows "sh_cur_ctrl s' = ctrl \<and> \<not> sh_running s' \<and> (stream_wf s' \<longleftrightarrow> fits) \<and>
    ((\<forall>now is_isight payload. uvc_process_payload now is_isight payload s' \<noteq> None) \<longleftrightarrow> fits)"
proof -
  let ?n = "unat (sc_dwMaxVideoFrameSize ctrl)" and ?g = "sh_got_bytes s" and ?l = "length (sh_outbuf s)"
  have s': "s' = s\<lparr> sh_cur_ctrl := ctrl \<rparr>" "\<not> sh_running s"
    using assms(1) by (auto simp: uvc_stream_ctrl_set_def bind_eq_Some_conv dest!: query_set_keeps_ctrl split: if_splits)
  have wf: "stream_wf s' \<longleftrightarrow> fits" using assms(2,3) by (auto simp: s' stream_wf_def fits_def)
  have safe: "uvc_process_payload now is_isight payload s' \<noteq> None" if fits for now is_isight payload
    using that wf process_payload_sim [of s' now is_isight payload] by auto
  have old: "?g \<le> ?l" "?g < 2 ^ 32"
    using assms(2) unsigned_less [of "sc_dwMaxVideoFrameSize (sh_cur_ctrl s)", where 'a = nat] by (simp_all add: stream_wf_def)
  have step: "uvc_process_payload now False (1 # replicate m 0) s' = process_data now (1 # replicate m 0) 1 m 0 s'" for now m
    by (simp add: uvc_process_payload_def rd_def isight_data_def process_header_def)
  have large: "uvc_process_payload now False (1 # replicate (Suc ?l) 0) s' = None" if "?l < ?n" for now
    unfolding step using that old(1) by (auto simp: s' process_data_def size_sub_def mem_copy_def rd_bytes_def mem_put_def Let_def)
  have wraps: "uvc_process_payload now False (1 # replicate 1 0) s' = None" if "?n < ?g" for now
    unfolding step using that old(2) by (auto simp: s' process_data_def size_sub_def mem_copy_def rd_bytes_def Let_def)
  have "(\<forall>now is_isight payload. uvc_process_payload now is_isight payload s' \<noteq> None) \<longleftrightarrow> fits"
    using safe large wraps unfolding fits_def by (meson not_le)
  then show ?thesis using s' wf by simp
qed

text \<open>Ten bytes of a frame have arrived when the stream is stopped, and a frame size of eight is committed.\<close>

theorem reconfigure_bounds_witness:
  "\<exists>s' u'. uvc_stream_ctrl_set mirror sample_info (sample_ctrl\<lparr> sc_dwMaxVideoFrameSize := 8 \<rparr>)
       (sample_stream\<lparr> sh_running := False, sh_got_bytes := 10 \<rparr>) [] = Some (UVC_SUCCESS, s', u') \<and>
     \<not> (\<forall>now is_isight payload. uvc_process_payload now is_isight payload s' \<noteq> None)"
proof -
  let ?s = "sample_stream\<lparr> sh_running := False, sh_got_bytes := 10 \<rparr>" and ?c = "sample_ctrl\<lparr> sc_dwMaxVideoFrameSize := 8 \<rparr>"
  have "map_option (\<lambda>(r, s, u). r) (uvc_stream_ctrl_set mirror sample_info ?c ?s []) = Some UVC_SUCCESS" by code_simp
  then obtain s' u' where o: "uvc_stream_ctrl_set mirror sample_info ?c ?s [] = Some (UVC_SUCCESS, s', u')" by auto
  have s: "stream_wf ?s" "length (sh_holdbuf ?s) = length (sh_outbuf ?s)"
    using sample_stream_wf(1) sample_max by (simp_all add: stream_wf_def sample_stream_def)
  show ?thesis using reconfigure_bounds [OF o s] o by simp
qed

text \<open>
  The choice of the alternate setting.  The first one whose endpoint carries the negotiated
  payload is taken, with one frame, or 32 packets if that is less, per transfer; there is none
  exactly when all are too small; and the choice divides by zero exactly when the negotiated payload
  size is zero and the first setting has no usable endpoint.
\<close>

lemma select_alt_correct:
  "case select_alt addr per_packet max_size alts of
     None \<Rightarrow> per_packet = 0 \<and> (\<exists>a as. alts = a # as \<and> endpoint_bytes addr (id_endpoint a) = 0)
   | Some None \<Rightarrow> list_all (\<lambda>a. endpoint_bytes addr (id_endpoint a) < per_packet) alts
   | Some (Some (a, b, packets)) \<Rightarrow>
       (\<exists>i. i < length alts \<and> a = alts ! i \<and> list_all (\<lambda>a. endpoint_bytes addr (id_endpoint a) < per_packet) (take i alts)) \<and>
       b = endpoint_bytes addr (id_endpoint a) \<and> per_packet \<le> b \<and> 0 < b \<and>
       packets = min 32 ((max_size + b - 1) div b)"
proof (induction alts)
  case (Cons a as)
  show ?case
  proof (cases "per_packet \<le> endpoint_bytes addr (id_endpoint a)")
    case True
    then show ?thesis by (auto simp: Let_def min_def intro!: exI [of _ 0])
  next
    case False
    then show ?thesis using Cons
      by (auto simp: Let_def split: option.splits)
  qed
qed simp

lemma start_cases:
  assumes start: "uvc_stream_start ops alloc submit cb count info s u = Some (ret, s', u')" and idle: "\<not> sh_running s"
  shows "\<not> sh_running s' \<and> ret \<noteq> UVC_SUCCESS \<and> sh_transfers s' = sh_transfers s \<and> sh_freed s' = sh_freed s \<or>
    (\<exists>s1. launch_transfers alloc submit cb (num_transfer_bufs count) s1 = Some (ret, s') \<and>
       sh_transfers s1 = sh_transfers s \<and> sh_freed s1 = sh_freed s \<and> sh_running s1)"
proof -
  define s2 where "s2 = s\<lparr> sh_running := True, sh_seq := 1, sh_fid := 0, sh_pts := 0, sh_last_scr := 0 \<rparr>"
  have s2: "sh_running s2" "sh_transfers s2 = sh_transfers s" "sh_freed s2 = sh_freed s" by (simp_all add: s2_def)
  note start = start [unfolded uvc_stream_start_def, folded s2_def]
  show ?thesis
  proof (cases "uvc_find_frame_desc_stream s2 (ucast (sc_bFormatIndex (sh_cur_ctrl s2))) (ucast (sc_bFrameIndex (sh_cur_ctrl s2)))")
    case None
    then show ?thesis using start idle s2 by (auto simp: Let_def)
  next
    case (Some ff)
    obtain format frame where ff: "ff = (format, frame)" by fastforce
    define s3 where "s3 = s2\<lparr> sh_frame_format := uvc_frame_format_for_guid (fo_guidFormat format) \<rparr>"
    have s3: "sh_running s3" "sh_transfers s3 = sh_transfers s" "sh_freed s3 = sh_freed s" using s2 by (simp_all add: s3_def)
    have start: "(if sh_frame_format s3 = FORMAT_ANY then Some (UVC_ERROR_NOT_SUPPORTED, s3\<lparr> sh_running := False \<rparr>, u)
      else do { (ret, u) \<leftarrow> prepare_alt ops info s3 u;
                if ret \<noteq> UVC_SUCCESS then Some (ret, s3\<lparr> sh_running := False \<rparr>, u)
                else do { (ret, s) \<leftarrow> launch_transfers alloc submit cb (num_transfer_bufs count) s3; Some (ret, s, u) } }) = Some (ret, s', u')"
      using start idle Some ff unfolding s3_def by (simp add: Let_def split del: if_split)
    show ?thesis
    proof (cases "sh_frame_format s3 = FORMAT_ANY")
      case True
      then show ?thesis using start s3 by auto
    next
      case False
      then obtain r u1 where r: "prepare_alt ops info s3 u = Some (r, u1)" using start by (cases "prepare_alt ops info s3 u") auto
      show ?thesis using start s3 False r by (cases "r = UVC_SUCCESS") (auto simp: bind_eq_Some_conv)
    qed
  qed
qed

lemma launch_ok:
  assumes "length (sh_transfers s) = LIBUVC_NUM_TRANSFER_BUFS" and "n \<le> LIBUVC_NUM_TRANSFER_BUFS" and "\<And>i. alloc i = Some (f i)"
  shows "\<exists>k s'. k \<le> n \<and> (\<forall>i < k. submit i = UVC_SUCCESS) \<and> (k < n \<longrightarrow> submit k \<noteq> UVC_SUCCESS) \<and>
    launch_transfers alloc submit cb n s = Some (if k = 0 \<and> 0 < n then UVC_ERROR_IO else UVC_SUCCESS, s') \<and>
    sh_running s' = sh_running s \<and>
    sh_transfers s' = map (Some \<circ> f) [0..<k] @ replicate (n - k) None @ drop n (sh_transfers s) \<and>
    sh_freed s' = rev (map f [k..<n]) @ sh_freed s"
proof -
  let ?s = "s\<lparr> sh_transfers := map (Some \<circ> f) [0..<n] @ drop n (sh_transfers s), sh_user_cb := cb \<rparr>"
  have fill: "fill_transfers alloc n (sh_transfers s) = Some (map (Some \<circ> f) [0..<n] @ drop n (sh_transfers s))"
    using fill_transfers_ok [OF assms(3)] assms(1,2) by simp
  obtain k where k: "k \<le> n" "\<forall>j < k. submit (0 + j) = UVC_SUCCESS"
    "if k = n then submit_transfers submit 0 n = (UVC_SUCCESS, 0 + n)
     else submit (0 + k) \<noteq> UVC_SUCCESS \<and> submit_transfers submit 0 n = (submit (0 + k), 0 + k)"
    using submit_transfers_ok [of n submit 0] by blast
  let ?s' = "if k = n then ?s else drop_transfers k n ?s"
  have "launch_transfers alloc submit cb n s = Some (if k = 0 \<and> 0 < n then UVC_ERROR_IO else UVC_SUCCESS, ?s')"
    using k(3) by (auto simp: launch_transfers_def fill split: if_splits)
  moreover have "sh_running ?s' = sh_running s" by (simp add: drop_transfers_def)
  moreover have "sh_transfers ?s' = map (Some \<circ> f) [0..<k] @ replicate (n - k) None @ drop n (sh_transfers s)"
    "sh_freed ?s' = rev (map f [k..<n]) @ sh_freed s"
    using drop_transfers_slots [of ?s f n "drop n (sh_transfers s)" k] k(1) by auto
  ultimately show ?thesis using k by (intro exI [of _ k] exI [of _ ?s']) (auto split: if_splits)
qed

text \<open>
  C19: starting a stream on a device that allocates transfers at distinct addresses.  Between 2 and
  100 transfers are set up.  On success the stream runs and the slots hold exactly the transfers
  submitted before the first refusal, at least one; the others are freed.  When none could be
  submitted the answer is an I/O error and all are freed; on every earlier failure the stream is
  stopped as before and its slots are untouched.
\<close>

theorem stream_start_correct:
  assumes "uvc_stream_start ops alloc submit cb count info s u = Some (ret, s', u')"
    and "\<not> sh_running s" and "length (sh_transfers s) = LIBUVC_NUM_TRANSFER_BUFS"
    and "\<And>i. alloc i = Some (f i)"
  defines "n \<equiv> num_transfer_bufs count"
  shows "2 \<le> n \<and> n \<le> LIBUVC_NUM_TRANSFER_BUFS \<and>
    (if sh_running s'
     then \<exists>k \<le> n. (\<forall>i < k. submit i = UVC_SUCCESS) \<and> (k < n \<longrightarrow> submit k \<noteq> UVC_SUCCESS) \<and>
       ret = (if k = 0 then UVC_ERROR_IO else UVC_SUCCESS) \<and>
       sh_transfers s' = map (Some \<circ> f) [0..<k] @ replicate (n - k) None @ drop n (sh_transfers s) \<and>
       sh_freed s' = rev (map f [k..<n]) @ sh_freed s
     else ret \<noteq> UVC_SUCCESS \<and> sh_transfers s' = sh_transfers s \<and> sh_freed s' = sh_freed s)"
proof -
  have n: "2 \<le> n" "n \<le> LIBUVC_NUM_TRANSFER_BUFS" using num_transfer_bufs_range [of count] by (auto simp: n_def)
  note cases = start_cases [OF assms(1,2), folded n_def]
  from cases show ?thesis
  proof (elim disjE exE conjE)
    assume "\<not> sh_running s'" "ret \<noteq> UVC_SUCCESS" "sh_transfers s' = sh_transfers s" "sh_freed s' = sh_freed s"
    then show ?thesis using n by simp
  next
    fix s1 assume l: "launch_transfers alloc submit cb n s1 = Some (ret, s')" "sh_transfers s1 = sh_transfers s"
      "sh_freed s1 = sh_freed s" "sh_running s1"
    have len: "length (sh_transfers s1) = LIBUVC_NUM_TRANSFER_BUFS" using l(2) assms(3) by simp
    obtain k s2 where k: "k \<le> n" "\<forall>i < k. submit i = UVC_SUCCESS" "k < n \<longrightarrow> submit k \<noteq> UVC_SUCCESS"
      "launch_transfers alloc submit cb n s1 = Some (if k = 0 \<and> 0 < n then UVC_ERROR_IO else UVC_SUCCESS, s2)"
      "sh_running s2 = sh_running s1"
      "sh_transfers s2 = map (Some \<circ> f) [0..<k] @ replicate (n - k) None @ drop n (sh_transfers s1)"
      "sh_freed s2 = rev (map f [k..<n]) @ sh_freed s1"
      using launch_ok [where submit = submit and cb = cb and alloc = alloc and f = f, OF len n(2) assms(4)] by (elim exE conjE)
    have "s2 = s'" "ret = (if k = 0 then UVC_ERROR_IO else UVC_SUCCESS)" using l(1) k(4) n(1) by simp_all
    moreover have run: "sh_running s'" using calculation(1) k(5) l(4) by simp
    ultimately have "k \<le> n \<and> (\<forall>i < k. submit i = UVC_SUCCESS) \<and> (k < n \<longrightarrow> submit k \<noteq> UVC_SUCCESS) \<and>
       ret = (if k = 0 then UVC_ERROR_IO else UVC_SUCCESS) \<and>
       sh_transfers s' = map (Some \<circ> f) [0..<k] @ replicate (n - k) None @ drop n (sh_transfers s) \<and>
       sh_freed s' = rev (map f [k..<n]) @ sh_freed s"
      using k(1-3,6,7) l(2,3) by (intro conjI) simp_all
    then show ?thesis using n unfolding if_P [OF run] by (intro conjI exI [of _ k]) simp_all
  qed
qed

theorem stream_start_correct_witness:
  "\<exists>s' u'. uvc_stream_start ok_ops (\<lambda>i. Some (i + 7)) (\<lambda>i. if i < 3 then 0 else -1) True 4 sample_info
       (stream0 (hd (in_stream_ifs sample_info))\<lparr> sh_cur_ctrl := sample_ctrl \<rparr>) () = Some (UVC_SUCCESS, s', u') \<and>
     sh_running s' \<and> take 4 (sh_transfers s') = [Some 7, Some 8, Some 9, None] \<and> sh_freed s' = [10]"
proof -
  let ?s = "stream0 (hd (in_stream_ifs sample_info))\<lparr> sh_cur_ctrl := sample_ctrl \<rparr>"
  let ?go = "uvc_stream_start ok_ops (\<lambda>i. Some (i + 7)) (\<lambda>i. if i < 3 then 0 else -1) True 4 sample_info ?s ()"
  have "map_option (\<lambda>(r, s, u). (r, sh_running s)) ?go = Some (UVC_SUCCESS, True)" by code_simp
  then obtain s' u' where o: "?go = Some (UVC_SUCCESS, s', u')" "sh_running s'" by auto
  have s: "\<not> sh_running ?s" "length (sh_transfers ?s) = LIBUVC_NUM_TRANSFER_BUFS" "sh_freed ?s = []" by (simp_all add: stream0_def)
  have n: "num_transfer_bufs 4 = 4" by (simp add: num_transfer_bufs_def)
  obtain k where k: "k \<le> 4" "\<forall>i < k. (if i < 3 then 0 else -1) = UVC_SUCCESS" "k < 4 \<longrightarrow> (if k < 3 then 0 else -1) \<noteq> UVC_SUCCESS"
    "sh_transfers s' = map (Some \<circ> (\<lambda>i. i + 7)) [0..<k] @ replicate (4 - k) None @ drop 4 (sh_transfers ?s)"
    "sh_freed s' = rev (map (\<lambda>i. i + 7) [k..<4]) @ sh_freed ?s"
    using stream_start_correct [OF o(1) s(1,2), of "\<lambda>i. i + 7"] o(2) unfolding n by auto
  have "k = 3"
  proof (rule ccontr)
    assume "k \<noteq> 3"
    with k(1) consider "k < 3" | "k = 4" by linarith
    then show False using k(2,3) by cases (auto dest: spec [of _ 3])
  qed
  then show ?thesis using o k s(3) by (auto simp: upt_rec)
qed

text \<open>
  C18: stopping ends.  Whatever completions arrive while it waits, the call stays inside the buffers.  It
  has returned once five waits in all have timed out, or once every transfer in the slots has completed,
  and the callback thread, if there is one, has ended; while that thread has not ended it does not return.
  It reports success only with all slots empty, and a timeout only after five timed-out waits; each
  transfer that completed was freed and its slot emptied, and none that did not.
\<close>

theorem stream_stop_bounded:
  assumes "stream_wf s" and "slots_ok s" and "sh_running s"
  shows "\<exists>w. uvc_stream_stop now is_isight ws s = Some w \<and>
    ((LIBUVC_STREAM_STOP_TIMEOUT_ATTEMPTS \<le> timeouts (sw_waits ws) \<or> live s \<subseteq> wait_ids (sw_waits ws)) \<and> (sh_user_cb s \<longrightarrow> sw_joined ws) \<longrightarrow>
       w \<noteq> Still_waiting) \<and>
    (sh_user_cb s \<and> \<not> sw_joined ws \<longrightarrow> w = Still_waiting) \<and>
    (\<forall>r t. w = Returned r t \<longrightarrow> stream_wf t \<and> slots_ok t \<and> \<not> sh_running t \<and>
       (\<exists>ids \<subseteq> wait_ids (sw_waits ws). live t = live s - ids \<and> set (sh_freed t) = set (sh_freed s) \<union> (live s \<inter> ids)) \<and>
       (r = UVC_SUCCESS \<and> live t = {} \<or> r = UVC_ERROR_TIMEOUT \<and> LIBUVC_STREAM_STOP_TIMEOUT_ATTEMPTS \<le> timeouts (sw_waits ws)))"
proof -
  have ok: "stream_ok s" using assms by (simp add: stream_ok_def)
  obtain w where w: "uvc_stream_stop now is_isight ws s = Some w" "stop_ends ws s \<longrightarrow> w \<noteq> Still_waiting"
    "sh_user_cb s \<and> \<not> sw_joined ws \<longrightarrow> w = Still_waiting"
    "\<And>r t. w = Returned r t \<Longrightarrow> (\<exists>ids \<subseteq> wait_ids (sw_waits ws). drained s ids t) \<and>
       (r = UVC_SUCCESS \<and> live t = {} \<or> r = UVC_ERROR_TIMEOUT \<and> LIBUVC_STREAM_STOP_TIMEOUT_ATTEMPTS \<le> timeouts (sw_waits ws))"
    using stop_ok [OF ok assms(3), of now is_isight ws] by blast
  have ret: "stream_wf t \<and> slots_ok t \<and> \<not> sh_running t \<and>
       (\<exists>ids \<subseteq> wait_ids (sw_waits ws). live t = live s - ids \<and> set (sh_freed t) = set (sh_freed s) \<union> (live s \<inter> ids))"
    if "drained s ids t" "ids \<subseteq> wait_ids (sw_waits ws)" for ids t
    using that unfolding drained_def stream_ok_def by blast
  show ?thesis
  proof (intro exI [of _ w] conjI allI impI)
    fix r t assume rt: "w = Returned r t"
    obtain ids where "ids \<subseteq> wait_ids (sw_waits ws)" "drained s ids t" using w(4) [OF rt] by blast
    then show "stream_wf t" "slots_ok t" "\<not> sh_running t"
      "\<exists>ids \<subseteq> wait_ids (sw_waits ws). live t = live s - ids \<and> set (sh_freed t) = set (sh_freed s) \<union> (live s \<inter> ids)"
      using ret by blast+
    show "r = UVC_SUCCESS \<and> live t = {} \<or> r = UVC_ERROR_TIMEOUT \<and> LIBUVC_STREAM_STOP_TIMEOUT_ATTEMPTS \<le> timeouts (sw_waits ws)"
      using w(4) [OF rt] by blast
  qed (use w(1-3) in \<open>auto simp: stop_ends_def\<close>)
qed

theorem stream_stop_bounded_witness:
  "\<exists>t. uvc_stream_stop (\<lambda>_. 0) False \<lparr> sw_waits = replicate 5 (True, []), sw_joined = True \<rparr> sample_stream =
     Some (Returned UVC_ERROR_TIMEOUT t) \<and> live t = {1, 2}"
proof -
  let ?ws = "\<lparr> sw_waits = replicate 5 (True, []), sw_joined = True \<rparr>"
  have n: "timeouts (sw_waits ?ws) = 5" and ids: "wait_ids (sw_waits ?ws) = {}" by (simp_all add: wait_ids_def cb_ids_def)
  have live: "live sample_stream = {1, 2}" by (auto simp: live_def sample_stream_def)
  have run: "sh_running sample_stream" by (simp add: sample_stream_def)
  from stream_stop_bounded [OF sample_stream_wf run, of "\<lambda>_. 0" False ?ws, unfolded n ids live]
  obtain w where w: "uvc_stream_stop (\<lambda>_. 0) False ?ws sample_stream = Some w" "w \<noteq> Still_waiting"
    and ret: "\<And>r t. w = Returned r t \<Longrightarrow> live t = {1, 2} \<and> (r = UVC_SUCCESS \<and> live t = {} \<or> r = UVC_ERROR_TIMEOUT)"
    by (elim exE conjE) fastforce
  then obtain r t where rt: "w = Returned r t" by (cases w) auto
  have "live t = {1, 2}" "r = UVC_ERROR_TIMEOUT" using ret [OF rt] by auto
  then show ?thesis using w(1) rt by blast
qed

text \<open>
  C12: stopping all streams of a device whose interface numbers fit the claim mask and whose stops end,
  as the statement before has it: the call returns and no stream is left open.  The handles \<open>ts\<close> the
  streams end with are stopped and well formed, and what left the slots of a stream were transfers that
  completed while its stop waited; of a stream that was not running nothing did.  Exactly the handles
  whose slots are empty are freed, so every transfer in the slots of a stream completed before its handle
  was freed; exactly the others are kept back, and the device is marked as quarantined if there is one.
\<close>

theorem stop_streaming_safe:
  assumes "dev_ok d" and "\<forall>s \<in> set (sd_streams d). unat (stream_num s) < 32"
    and "\<forall>s \<in> set (sd_streams d). sh_running s \<longrightarrow> stop_ends (ws (stream_num s)) s"
  shows "\<exists>r d' ts. uvc_stop_streaming ops now ws d = Some (Returned r d') \<and> sd_streams d' = [] \<and>
    list_all2 (\<lambda>s t. stream_num t = stream_num s \<and> stream_wf t \<and> slots_ok t \<and> \<not> sh_running t \<and>
      (\<exists>ids. ids \<subseteq> (if sh_running s then wait_ids (sw_waits (ws (stream_num s))) else {}) \<and>
         live t = live s - ids \<and> set (sh_freed t) = set (sh_freed s) \<union> (live s \<inter> ids))) (sd_streams d) ts \<and>
    sd_freed d' = rev (filter (\<lambda>t. live t = {}) ts) @ sd_freed d \<and>
    sd_leaked d' = rev (filter (\<lambda>t. live t \<noteq> {}) ts) @ sd_leaked d \<and>
    (sd_has_quarantined_stream d' \<longleftrightarrow> sd_has_quarantined_stream d \<or> (\<exists>t \<in> set ts. live t \<noteq> {}))"
proof -
  obtain r d' ts where o: "stop_streams ops now ws (sd_streams d) d = Some (Returned r d')" "sd_streams d' = []"
    "list_all2 (\<lambda>s t. closed_as (ws (stream_num s)) s t) (sd_streams d) ts"
    "sd_freed d' = rev (filter (\<lambda>t. live t = {}) ts) @ sd_freed d" "sd_leaked d' = rev (filter (\<lambda>t. live t \<noteq> {}) ts) @ sd_leaked d"
    "sd_has_quarantined_stream d' \<longleftrightarrow> sd_has_quarantined_stream d \<or> (\<exists>t \<in> set ts. live t \<noteq> {})"
    using stop_streams_ok [OF assms(1) refl assms(2,3), of ops now] by blast
  have "list_all2 (\<lambda>s t. stream_num t = stream_num s \<and> stream_wf t \<and> slots_ok t \<and> \<not> sh_running t \<and>
      (\<exists>ids. ids \<subseteq> (if sh_running s then wait_ids (sw_waits (ws (stream_num s))) else {}) \<and>
         live t = live s - ids \<and> set (sh_freed t) = set (sh_freed s) \<union> (live s \<inter> ids))) (sd_streams d) ts"
    by (rule list_all2_mono [OF o(3)]) (unfold closed_as_def stream_ok_def, metis)
  with o show ?thesis unfolding uvc_stop_streaming_def by blast
qed

text \<open>No transfer of the sample stream comes back: its handle is kept.\<close>

theorem stop_streaming_safe_witness:
  "\<exists>r d' t. uvc_stop_streaming ok_ops (\<lambda>_. 0) (\<lambda>_. \<lparr> sw_waits = replicate 5 (True, []), sw_joined = False \<rparr>)
       (sample_dev\<lparr> sd_streams := [sample_stream] \<rparr>) = Some (Returned r d') \<and> sd_leaked d' = [t] \<and> live t = {1, 2} \<and>
     sd_has_quarantined_stream d'"
proof -
  let ?d = "sample_dev\<lparr> sd_streams := [sample_stream] \<rparr>" and ?ws = "\<lparr> sw_waits = replicate 5 (True, []), sw_joined = False \<rparr>"
  have "dev_ok ?d" using sample_stream_wf by (simp add: dev_ok_def stream_ok_def sample_dev_def)
  moreover have "\<forall>s \<in> set (sd_streams ?d). unat (stream_num s) < 32"
  proof -
    have "unat (si_bInterfaceNumber (hd (in_stream_ifs sample_info))) < 32" by code_simp
    then show ?thesis by (simp add: sample_stream_def)
  qed
  moreover have "stop_ends ?ws sample_stream" by (simp add: stop_ends_def sample_stream_def)
  moreover have "live sample_stream = {1, 2}" "wait_ids (replicate 5 (True, [])) = {}"
    by (auto simp: live_def sample_stream_def wait_ids_def cb_ids_def)
  ultimately show ?thesis
    using stop_streaming_safe [of ?d "\<lambda>_. ?ws" ok_ops "\<lambda>_. 0"]
    by (auto simp: list_all2_Cons1 sample_dev_def split: if_splits)
qed

end
