(* ===== verification/Stream_Threads.thy ===== *)
theory Stream_Threads
  imports Stream_Life
begin

text \<open>
  The threads of a stream (stream.c): the application thread that starts, stops and closes it, the
  event thread in \<^verbatim>\<open>_uvc_stream_callback\<close>, the callback thread \<^verbatim>\<open>_uvc_user_caller\<close>, and a thread that
  polls with \<^verbatim>\<open>uvc_stream_get_frame\<close>.  They share the stream handle and \<^verbatim>\<open>cb_mutex\<close>; every access to
  shared memory outside the mutex, every lock, unlock and wait, and every libusb call is a step of its own,
  and the steps of the threads interleave in any order.  Work under the mutex between two such points is
  one step, since all the fields it touches are protected or belong to the thread.

  Nothing is assumed of the schedule: waits may end at any time, libusb may refuse any submission and
  complete any transfer it holds with any status and any data, and memory may be short at any time.
\<close>

section \<open>The payload between two swaps\<close>

text \<open>
  \<^verbatim>\<open>_uvc_swap_buffers\<close> takes the mutex in the middle of a payload.  The two halves of a swap, and the
  code of \<^verbatim>\<open>_uvc_process_payload\<close> cut at its two calls of it.
\<close>

definition swap_locked :: "(nat \<Rightarrow> int) \<Rightarrow> uvc_stream_handle \<Rightarrow> uvc_stream_handle" where
  "swap_locked now s =
     (let s = s\<lparr> sh_capture_time_finished := now (length (sh_swaps s)) \<rparr>;
          s = s\<lparr> sh_hold_bytes := sh_got_bytes s, sh_holdbuf := sh_outbuf s, sh_outbuf := sh_holdbuf s,
                 sh_hold_last_scr := sh_last_scr s, sh_hold_pts := sh_pts s, sh_hold_seq := sh_seq s,
                 sh_meta_holdbuf := sh_meta_outbuf s, sh_meta_outbuf := sh_meta_holdbuf s,
                 sh_meta_hold_bytes := sh_meta_got_bytes s \<rparr>
      in s\<lparr> sh_swaps := sh_swaps s @ [(\<not> sh_frame_had_errors s, sh_hold_seq s,
                take (sh_hold_bytes s) (sh_holdbuf s), take (sh_meta_hold_bytes s) (sh_meta_holdbuf s))],
            sh_frame_had_errors := False \<rparr>)"

definition swap_reset :: "uvc_stream_handle \<Rightarrow> uvc_stream_handle" where
  "swap_reset s = s\<lparr> sh_seq := sh_seq s + 1, sh_got_bytes := 0, sh_meta_got_bytes := 0, sh_last_scr := 0, sh_pts := 0 \<rparr>"

lemma swap_halves: "uvc_swap_buffers now s = swap_reset (swap_locked now s)"
  by (simp add: uvc_swap_buffers_def swap_locked_def swap_reset_def Let_def)

text \<open>The rest of a payload: not begun, header fields next, data next, done.\<close>

datatype payload_pc =
    PP_start bytes
  | PP_fields bytes nat nat u8 \<comment> \<open>payload, header length, data length, info byte\<close>
  | PP_data bytes nat nat u8
  | PP_done

text \<open>The next part of a payload; the first result is whether a swap comes before the rest.\<close>

fun payload_step :: "bool \<Rightarrow> payload_pc \<Rightarrow> uvc_stream_handle \<Rightarrow> (bool \<times> payload_pc \<times> uvc_stream_handle) option" where
  "payload_step is_isight (PP_start payload) s =
     (if payload = [] then Some (False, PP_done, s)
      else do {
        b0 \<leftarrow> rd payload 0;
        let whole = isight_data is_isight payload;
        let header_len = (if whole then 0 else unat b0);
        if \<not> whole \<and> header_len > length payload then Some (False, PP_done, s)
        else do {
          let data_len = (if whole then length payload else if is_isight then 0 else length payload - header_len);
          if header_len < 2 then Some (False, PP_data payload header_len data_len 0, s)
          else do {
            info \<leftarrow> rd payload 1;
            if bit info 6 then Some (False, PP_done, s\<lparr> sh_frame_had_errors := True \<rparr>)
            else Some (sh_fid s \<noteq> info AND 1 \<and> sh_got_bytes s \<noteq> 0, PP_fields payload header_len data_len info, s) } } })"
| "payload_step is_isight (PP_fields payload header_len data_len info) s = do {
     let s = s\<lparr> sh_fid := info AND 1 \<rparr>;
     (off, s) \<leftarrow> header_pts payload header_len info 2 s;
     (off, s) \<leftarrow> header_scr payload header_len info off s;
     s \<leftarrow> header_meta payload header_len off s;
     Some (False, PP_data payload header_len data_len info, s) }"
| "payload_step is_isight (PP_data payload header_len data_len info) s =
     (if data_len > 0
      then let data_len = (if sh_got_bytes s + data_len > max_frame s
                           then size_sub (max_frame s) (sh_got_bytes s) else data_len)
           in do {
             buf \<leftarrow> mem_copy (sh_outbuf s) (sh_got_bytes s) payload header_len data_len;
             let s = s\<lparr> sh_outbuf := buf, sh_got_bytes := sh_got_bytes s + data_len \<rparr>;
             Some (bit info 1 \<or> sh_got_bytes s = max_frame s, PP_done, s) }
      else Some (False, PP_done, s))"
| "payload_step is_isight PP_done s = Some (False, PP_done, s)"

text \<open>What is left of a payload, run without interruption.\<close>

fun payload_rest :: "(nat \<Rightarrow> int) \<Rightarrow> bool \<Rightarrow> payload_pc \<Rightarrow> uvc_stream_handle \<Rightarrow> uvc_stream_handle option" where
  "payload_rest now is_isight (PP_start payload) s = uvc_process_payload now is_isight payload s"
| "payload_rest now is_isight (PP_fields payload header_len data_len info) s = do {
     let s = s\<lparr> sh_fid := info AND 1 \<rparr>;
     (off, s) \<leftarrow> header_pts payload header_len info 2 s;
     (off, s) \<leftarrow> header_scr payload header_len info off s;
     s \<leftarrow> header_meta payload header_len off s;
     process_data now payload header_len data_len info s }"
| "payload_rest now is_isight (PP_data payload header_len data_len info) s = process_data now payload header_len data_len info s"
| "payload_rest now is_isight PP_done s = Some s"

text \<open>Cutting the payload at its swaps does not change what it does.\<close>

lemma payload_rest_step:
  "payload_rest now is_isight pp s = do {
     (swap, pp, s) \<leftarrow> payload_step is_isight pp s;
     payload_rest now is_isight pp (if swap then uvc_swap_buffers now s else s) }"
proof (cases pp)
  case (PP_start payload)
  show ?thesis unfolding PP_start
    by (auto simp: uvc_process_payload_def process_header_def rd_def Let_def case_prod_unfold)
next
  case (PP_fields payload h n info)
  then show ?thesis by (auto simp: Let_def split: prod.splits Option.bind_splits)
next
  case (PP_data payload h n info)
  then show ?thesis by (auto simp: process_data_def Let_def split: Option.bind_splits)
qed simp

section \<open>State\<close>

datatype stream_thread = T_main | T_event | T_user | T_poller

text \<open>
  Where the application thread stands: in \<^verbatim>\<open>uvc_stream_start\<close> (submitting transfer \<open>i\<close>; freeing from \<open>i\<close> on after a
  refusal), streaming, in \<^verbatim>\<open>uvc_stream_stop\<close>, stopped, or in \<^verbatim>\<open>uvc_stream_close\<close>.  The argument of the points
  after the scan of the slots is \<^verbatim>\<open>transfers_pending\<close>.
\<close>

datatype stream_main_pc =
    SM_submit nat | SM_drop nat | SM_drop_all nat | SM_streaming
  | SM_stop_flag | SM_stop_lock | SM_cancel | SM_scan | SM_waiting | SM_woken | SM_timed_out
  | SM_broadcast | SM_stop_unlock | SM_join | SM_stopped
  | SM_close | SM_close_lock | SM_close_scan | SM_close_unlock bool | SM_unlink bool
  | SM_quarantine | SM_quarantined | SM_release | SM_free | SM_gone

text \<open>
  The event thread: the transfer of the callback, the packets and the part of the payload that are left.
  The three copies of the code that deletes a transfer are \<open>EV_delete_lock\<close> to \<open>EV_delete_unlock\<close>.
\<close>

datatype stream_event_pc =
    EV_idle | EV_callback libusb_transfer
  | EV_packets libusb_transfer "(int \<times> bytes) list"
  | EV_payload libusb_transfer "(int \<times> bytes) list" payload_pc
  | EV_swap_lock libusb_transfer "(int \<times> bytes) list" payload_pc
  | EV_swap libusb_transfer "(int \<times> bytes) list" payload_pc
  | EV_swap_unlock libusb_transfer "(int \<times> bytes) list" payload_pc
  | EV_swap_reset libusb_transfer "(int \<times> bytes) list" payload_pc
  | EV_resubmit libusb_transfer | EV_submit libusb_transfer
  | EV_delete_lock libusb_transfer | EV_delete libusb_transfer | EV_delete_unlock

text \<open>The callback thread; \<open>U_none\<close> before it is created and after it is joined.\<close>

datatype user_pc =
    U_none | U_lock | U_check | U_wait_enter | U_waiting | U_woken | U_unlock | U_call | U_exit_unlock | U_done

text \<open>The polling thread; the argument is \<^verbatim>\<open>timeout_us\<close>.\<close>

datatype poll_pc =
    G_idle | G_user_cb int | G_lock int | G_check int | G_waiting int | G_woken int | G_timed_out | G_recheck | G_unlock

text \<open>
  The handle, the mutex and the threads with their local variables (\<^verbatim>\<open>num_transfer_bufs\<close>, \<^verbatim>\<open>timeout_attempts\<close>,
  \<^verbatim>\<open>ret\<close>, \<^verbatim>\<open>last_seq\<close>; \<open>y_closing\<close> is whether the stop was called by the close); what libusb holds; the outside.
  The last fields are history: \<open>y_log\<close> are the completions since the last start and \<open>y_base\<close> the assembly it
  began with, \<open>y_frames\<close> the frames given to the application, \<open>y_stale\<close> whether a stream was started again
  while a transfer or a poll of its last run was still under way, \<open>y_nomem\<close> whether memory was short when a consumer
  asked for it, \<open>y_fault\<close> an access outside an object.
\<close>

record stream_sys =
  y_sh :: uvc_stream_handle
  y_mutex :: "stream_thread option"
  y_main :: stream_main_pc
  y_event :: stream_event_pc
  y_user :: user_pc
  y_poll :: poll_pc
  y_n :: nat
  y_attempts :: nat
  y_ret :: int
  y_closing :: bool
  y_last_seq :: u32
  y_flight :: "nat set"
  y_linked :: bool
  y_claimed :: bool
  y_quarantined :: bool
  y_freed :: bool
  y_log :: "libusb_transfer list"
  y_base :: assembly
  y_frames :: "uvc_frame list"
  y_stale :: bool
  y_nomem :: bool
  y_fault :: bool

text \<open>The clock, the camera, its description, and the stream as it was opened.\<close>

record stream_env =
  se_now :: "nat \<Rightarrow> int"
  se_is_isight :: bool
  se_info :: uvc_device_info
  se_open :: uvc_stream_handle

text \<open>\<^verbatim>\<open>pthread_cond_broadcast\<close>: whoever waits has to take the mutex again.\<close>

definition wake_all :: "stream_sys \<Rightarrow> stream_sys" where
  "wake_all s = s\<lparr> y_main := (if y_main s = SM_waiting then SM_woken else y_main s),
     y_user := (if y_user s = U_waiting then U_woken else y_user s),
     y_poll := (case y_poll s of G_waiting n \<Rightarrow> G_woken n | p \<Rightarrow> p) \<rparr>"

text \<open>The transfer the running callback was called for and has not given up yet.\<close>

fun event_xfer :: "stream_event_pc \<Rightarrow> nat set" where
  "event_xfer EV_idle = {}"
| "event_xfer (EV_callback tr) = {xf_id tr}"
| "event_xfer (EV_packets tr ps) = {xf_id tr}"
| "event_xfer (EV_payload tr ps pp) = {xf_id tr}"
| "event_xfer (EV_swap_lock tr ps pp) = {xf_id tr}"
| "event_xfer (EV_swap tr ps pp) = {xf_id tr}"
| "event_xfer (EV_swap_unlock tr ps pp) = {xf_id tr}"
| "event_xfer (EV_swap_reset tr ps pp) = {xf_id tr}"
| "event_xfer (EV_resubmit tr) = {xf_id tr}"
| "event_xfer (EV_submit tr) = {xf_id tr}"
| "event_xfer (EV_delete_lock tr) = {xf_id tr}"
| "event_xfer (EV_delete tr) = {xf_id tr}"
| "event_xfer EV_delete_unlock = {}"

section \<open>Steps of the application thread\<close>

text \<open>What \<^verbatim>\<open>uvc_stream_start\<close> has stored when the transfers are filled.\<close>

definition start_setup :: "uvc_frame_format \<Rightarrow> nat option list \<Rightarrow> bool \<Rightarrow> uvc_stream_handle \<Rightarrow> uvc_stream_handle" where
  "start_setup fmt ts cb s = s\<lparr> sh_running := True, sh_seq := 1, sh_fid := 0, sh_pts := 0, sh_last_scr := 0,
     sh_frame_format := fmt, sh_transfers := ts, sh_user_cb := cb \<rparr>"

text \<open>One slot of the loops that free transfers after a refused submission.\<close>

definition drop_slot :: "nat \<Rightarrow> nat \<Rightarrow> uvc_stream_handle \<Rightarrow> uvc_stream_handle" where
  "drop_slot i t s = s\<lparr> sh_transfers := (sh_transfers s)[i := None], sh_freed := t # sh_freed s \<rparr>"

text \<open>
  \<^verbatim>\<open>uvc_stream_start\<close>.  \<open>launch\<close> is the call up to the first submission, when it gets that far; \<open>f i\<close> is the address of
  the \<open>i\<close>-th new transfer, which no transfer in use has.
\<close>

inductive start_step :: "stream_sys \<Rightarrow> stream_sys \<Rightarrow> bool" where
  launch: "y_main s = SM_stopped \<Longrightarrow> \<not> sh_running (y_sh s) \<Longrightarrow> n = num_transfer_bufs count \<Longrightarrow>
     fill_transfers (\<lambda>i. Some (f i)) n (sh_transfers (y_sh s)) = Some ts \<Longrightarrow> inj_on f {..<n} \<Longrightarrow>
     f ` {..<n} \<inter> (live (y_sh s) \<union> y_flight s \<union> event_xfer (y_event s)) = {} \<Longrightarrow> sh = start_setup fmt ts cb (y_sh s) \<Longrightarrow>
     start_step s (s\<lparr> y_sh := sh, y_n := n, y_main := SM_submit 0, y_user := (if cb then U_lock else U_none),
       y_last_seq := 0, y_stale := y_stale s \<or> live (y_sh s) \<noteq> {} \<or> y_poll s \<noteq> G_idle,
       y_log := [], y_base := abs_stream sh \<rparr>)"
| accepted: "y_main s = SM_submit i \<Longrightarrow> i < y_n s \<Longrightarrow> sh_transfers (y_sh s) ! i = Some t \<Longrightarrow>
     start_step s (s\<lparr> y_flight := insert t (y_flight s), y_main := SM_submit (i + 1) \<rparr>)"
| refused: "y_main s = SM_submit i \<Longrightarrow> i < y_n s \<Longrightarrow>
     start_step s (s\<lparr> y_main := (if i > 0 then SM_drop i else SM_drop_all 0) \<rparr>)"
| submit_null: "y_main s = SM_submit i \<Longrightarrow> i < y_n s \<Longrightarrow> sh_transfers (y_sh s) ! i = None \<Longrightarrow> start_step s (s\<lparr> y_fault := True \<rparr>)"
| submitted: "y_main s = SM_submit i \<Longrightarrow> i = y_n s \<Longrightarrow> start_step s (s\<lparr> y_main := SM_streaming \<rparr>)"
| drop: "y_main s = SM_drop i \<Longrightarrow> i < y_n s \<Longrightarrow> sh_transfers (y_sh s) ! i = Some t \<Longrightarrow>
     start_step s (s\<lparr> y_sh := drop_slot i t (y_sh s), y_main := SM_drop (i + 1) \<rparr>)"
| drop_null: "y_main s = SM_drop i \<Longrightarrow> i < y_n s \<Longrightarrow> sh_transfers (y_sh s) ! i = None \<Longrightarrow> start_step s (s\<lparr> y_fault := True \<rparr>)"
| dropped: "y_main s = SM_drop i \<Longrightarrow> i = y_n s \<Longrightarrow> start_step s (s\<lparr> y_main := SM_streaming \<rparr>)"
| drop_any: "y_main s = SM_drop_all i \<Longrightarrow> i < y_n s \<Longrightarrow>
     start_step s (s\<lparr> y_sh := (case sh_transfers (y_sh s) ! i of None \<Rightarrow> y_sh s | Some t \<Rightarrow> drop_slot i t (y_sh s)),
       y_main := SM_drop_all (i + 1) \<rparr>)"
| dropped_all: "y_main s = SM_drop_all i \<Longrightarrow> i = y_n s \<Longrightarrow> start_step s (s\<lparr> y_main := SM_streaming \<rparr>)"

text \<open>
  \<^verbatim>\<open>uvc_stream_stop\<close>, called on a running stream.  Cancelling only asks libusb; the wait ends by a broadcast, by
  itself or by its timeout.
\<close>

inductive halt_step :: "stream_sys \<Rightarrow> stream_sys \<Rightarrow> bool" where
  call: "y_main s = SM_streaming \<Longrightarrow> halt_step s (s\<lparr> y_closing := False, y_main := SM_stop_flag \<rparr>)"
| flag: "y_main s = SM_stop_flag \<Longrightarrow> halt_step s (s\<lparr> y_sh := (y_sh s)\<lparr> sh_running := False \<rparr>, y_main := SM_stop_lock \<rparr>)"
| lock: "y_main s = SM_stop_lock \<Longrightarrow> y_mutex s = None \<Longrightarrow>
     halt_step s (s\<lparr> y_mutex := Some T_main, y_attempts := 0, y_ret := UVC_SUCCESS, y_main := SM_cancel \<rparr>)"
| cancel: "y_main s = SM_cancel \<Longrightarrow> halt_step s (s\<lparr> y_main := SM_scan \<rparr>)"
| scan_empty: "y_main s = SM_scan \<Longrightarrow> list_all (\<lambda>t. t = None) (sh_transfers (y_sh s)) \<Longrightarrow> halt_step s (s\<lparr> y_main := SM_broadcast \<rparr>)"
| scan_wait: "y_main s = SM_scan \<Longrightarrow> \<not> list_all (\<lambda>t. t = None) (sh_transfers (y_sh s)) \<Longrightarrow>
     halt_step s (s\<lparr> y_mutex := None, y_main := SM_waiting \<rparr>)"
| wake: "y_main s = SM_waiting \<Longrightarrow> halt_step s (s\<lparr> y_main := SM_woken \<rparr>)"
| time_out: "y_main s = SM_waiting \<Longrightarrow> halt_step s (s\<lparr> y_main := SM_timed_out \<rparr>)"
| woken: "y_main s = SM_woken \<Longrightarrow> y_mutex s = None \<Longrightarrow> halt_step s (s\<lparr> y_mutex := Some T_main, y_main := SM_scan \<rparr>)"
| timed_out: "y_main s = SM_timed_out \<Longrightarrow> y_mutex s = None \<Longrightarrow> y_attempts s + 1 < LIBUVC_STREAM_STOP_TIMEOUT_ATTEMPTS \<Longrightarrow>
     halt_step s (s\<lparr> y_mutex := Some T_main, y_attempts := y_attempts s + 1, y_main := SM_scan \<rparr>)"
| give_up: "y_main s = SM_timed_out \<Longrightarrow> y_mutex s = None \<Longrightarrow> y_attempts s + 1 \<ge> LIBUVC_STREAM_STOP_TIMEOUT_ATTEMPTS \<Longrightarrow>
     halt_step s (s\<lparr> y_mutex := Some T_main, y_attempts := y_attempts s + 1, y_ret := UVC_ERROR_TIMEOUT, y_main := SM_broadcast \<rparr>)"
| broadcast: "y_main s = SM_broadcast \<Longrightarrow> halt_step s ((wake_all s)\<lparr> y_main := SM_stop_unlock \<rparr>)"
| unlock: "y_main s = SM_stop_unlock \<Longrightarrow> halt_step s (s\<lparr> y_mutex := None, y_main := SM_join \<rparr>)"
| join: "y_main s = SM_join \<Longrightarrow> sh_user_cb (y_sh s) \<Longrightarrow> y_user s = U_done \<Longrightarrow>
     halt_step s (s\<lparr> y_user := U_none, y_main := (if y_closing s then SM_close_lock else SM_stopped) \<rparr>)"
| no_join: "y_main s = SM_join \<Longrightarrow> \<not> sh_user_cb (y_sh s) \<Longrightarrow>
     halt_step s (s\<lparr> y_main := (if y_closing s then SM_close_lock else SM_stopped) \<rparr>)"

text \<open>\<^verbatim>\<open>uvc_stream_close\<close>, called on a running or a stopped stream.\<close>

inductive shut_step :: "stream_sys \<Rightarrow> stream_sys \<Rightarrow> bool" where
  call: "y_main s = SM_streaming \<or> y_main s = SM_stopped \<Longrightarrow> shut_step s (s\<lparr> y_closing := True, y_main := SM_close \<rparr>)"
| enter: "y_main s = SM_close \<Longrightarrow> shut_step s (s\<lparr> y_main := (if sh_running (y_sh s) then SM_stop_flag else SM_close_lock) \<rparr>)"
| lock: "y_main s = SM_close_lock \<Longrightarrow> y_mutex s = None \<Longrightarrow> shut_step s (s\<lparr> y_mutex := Some T_main, y_main := SM_close_scan \<rparr>)"
| scan: "y_main s = SM_close_scan \<Longrightarrow>
     shut_step s (s\<lparr> y_main := SM_close_unlock (list_ex (\<lambda>t. t \<noteq> None) (sh_transfers (y_sh s))) \<rparr>)"
| unlock: "y_main s = SM_close_unlock pending \<Longrightarrow> shut_step s (s\<lparr> y_mutex := None, y_main := SM_unlink pending \<rparr>)"
| unlink: "y_main s = SM_unlink pending \<Longrightarrow>
     shut_step s (s\<lparr> y_linked := False, y_main := (if pending then SM_quarantine else SM_release) \<rparr>)"
| quarantine: "y_main s = SM_quarantine \<Longrightarrow> shut_step s (s\<lparr> y_quarantined := True, y_main := SM_quarantined \<rparr>)"
| release: "y_main s = SM_release \<Longrightarrow> shut_step s (s\<lparr> y_claimed := False, y_main := SM_free \<rparr>)"
| free: "y_main s = SM_free \<Longrightarrow> shut_step s (s\<lparr> y_freed := True, y_main := SM_gone \<rparr>)"

section \<open>Steps of the event thread\<close>

text \<open>\<^verbatim>\<open>_uvc_stream_callback\<close> with \<^verbatim>\<open>_uvc_process_payload\<close> and \<^verbatim>\<open>_uvc_swap_buffers\<close>.\<close>

inductive event_step :: "stream_env \<Rightarrow> stream_sys \<Rightarrow> stream_sys \<Rightarrow> bool" for env where
  completed: "y_event s = EV_callback tr \<Longrightarrow> xf_status tr = Completed \<Longrightarrow>
     event_step env s (s\<lparr> y_event := EV_packets tr (if xf_packets tr = [] then [(0, xf_data tr)] else xf_packets tr) \<rparr>)"
| ended: "y_event s = EV_callback tr \<Longrightarrow> xf_status tr = Cancelled \<or> xf_status tr = Error \<or> xf_status tr = No_device \<Longrightarrow>
     event_step env s (s\<lparr> y_event := EV_delete_lock tr \<rparr>)"
| retry: "y_event s = EV_callback tr \<Longrightarrow> xf_status tr = Timed_out \<or> xf_status tr = Stall \<or> xf_status tr = Overflow \<Longrightarrow>
     event_step env s (s\<lparr> y_event := EV_resubmit tr \<rparr>)"
| packets_done: "y_event s = EV_packets tr [] \<Longrightarrow> event_step env s (s\<lparr> y_event := EV_resubmit tr \<rparr>)"
| bad_packet: "y_event s = EV_packets tr ((status, p) # ps) \<Longrightarrow> status \<noteq> 0 \<Longrightarrow>
     event_step env s (s\<lparr> y_sh := (y_sh s)\<lparr> sh_frame_had_errors := True \<rparr>, y_event := EV_packets tr ps \<rparr>)"
| good_packet: "y_event s = EV_packets tr ((status, p) # ps) \<Longrightarrow> status = 0 \<Longrightarrow>
     event_step env s (s\<lparr> y_event := EV_payload tr ps (PP_start p) \<rparr>)"
| payload: "y_event s = EV_payload tr ps pp \<Longrightarrow> pp \<noteq> PP_done \<Longrightarrow>
     payload_step (se_is_isight env) pp (y_sh s) = Some (swap, pp', sh) \<Longrightarrow>
     event_step env s (s\<lparr> y_sh := sh, y_event := (if swap then EV_swap_lock tr ps pp' else EV_payload tr ps pp') \<rparr>)"
| payload_fault: "y_event s = EV_payload tr ps pp \<Longrightarrow> payload_step (se_is_isight env) pp (y_sh s) = None \<Longrightarrow>
     event_step env s (s\<lparr> y_fault := True \<rparr>)"
| payload_done: "y_event s = EV_payload tr ps PP_done \<Longrightarrow> event_step env s (s\<lparr> y_event := EV_packets tr ps \<rparr>)"
| swap_lock: "y_event s = EV_swap_lock tr ps pp \<Longrightarrow> y_mutex s = None \<Longrightarrow>
     event_step env s (s\<lparr> y_mutex := Some T_event, y_event := EV_swap tr ps pp \<rparr>)"
| swap: "y_event s = EV_swap tr ps pp \<Longrightarrow>
     event_step env s ((if sh_frame_had_errors (y_sh s) then s else wake_all s)
       \<lparr> y_sh := swap_locked (se_now env) (y_sh s), y_event := EV_swap_unlock tr ps pp \<rparr>)"
| swap_unlock: "y_event s = EV_swap_unlock tr ps pp \<Longrightarrow>
     event_step env s (s\<lparr> y_mutex := None, y_event := EV_swap_reset tr ps pp \<rparr>)"
| swap_reset: "y_event s = EV_swap_reset tr ps pp \<Longrightarrow>
     event_step env s (s\<lparr> y_sh := swap_reset (y_sh s), y_event := EV_payload tr ps pp \<rparr>)"
| resubmit: "y_event s = EV_resubmit tr \<Longrightarrow>
     event_step env s (s\<lparr> y_event := (if sh_running (y_sh s) then EV_submit tr else EV_delete_lock tr) \<rparr>)"
| submit: "y_event s = EV_submit tr \<Longrightarrow> event_step env s (s\<lparr> y_flight := insert (xf_id tr) (y_flight s), y_event := EV_idle \<rparr>)"
| submit_fails: "y_event s = EV_submit tr \<Longrightarrow> event_step env s (s\<lparr> y_event := EV_delete_lock tr \<rparr>)"
| delete_lock: "y_event s = EV_delete_lock tr \<Longrightarrow> y_mutex s = None \<Longrightarrow>
     event_step env s (s\<lparr> y_mutex := Some T_event, y_event := EV_delete tr \<rparr>)"
| delete: "y_event s = EV_delete tr \<Longrightarrow>
     event_step env s ((wake_all s)\<lparr> y_sh := delete_transfer (xf_id tr) (y_sh s), y_event := EV_delete_unlock \<rparr>)"
| delete_unlock: "y_event s = EV_delete_unlock \<Longrightarrow> event_step env s (s\<lparr> y_mutex := None, y_event := EV_idle \<rparr>)"

text \<open>libusb completes a transfer it holds, with any status and contents, and calls the callback.\<close>

inductive complete_step :: "stream_sys \<Rightarrow> stream_sys \<Rightarrow> bool" where
  "xf_id tr \<in> y_flight s \<Longrightarrow> y_event s = EV_idle \<Longrightarrow>
     complete_step s (s\<lparr> y_flight := y_flight s - {xf_id tr}, y_log := y_log s @ [tr], y_event := EV_callback tr \<rparr>)"

section \<open>Steps of the consumers\<close>

text \<open>
  \<^verbatim>\<open>_uvc_user_caller\<close>; the application's callback returns at some time.  Which allocations succeed, \<open>al\<close>, may differ from
  turn to turn.
\<close>

inductive user_step :: "stream_env \<Rightarrow> stream_sys \<Rightarrow> stream_sys \<Rightarrow> bool" for env where
  lock: "y_user s = U_lock \<Longrightarrow> y_mutex s = None \<Longrightarrow> user_step env s (s\<lparr> y_mutex := Some T_user, y_user := U_check \<rparr>)"
| check_wait: "y_user s = U_check \<Longrightarrow> alloc_ok al \<Longrightarrow>
     uvc_user_caller_turn al (se_info env) (y_last_seq s) (y_sh s) = Some Turn_wait \<Longrightarrow>
     user_step env s (s\<lparr> y_user := U_wait_enter \<rparr>)"
| check_exit: "y_user s = U_check \<Longrightarrow> alloc_ok al \<Longrightarrow>
     uvc_user_caller_turn al (se_info env) (y_last_seq s) (y_sh s) = Some Turn_exit \<Longrightarrow>
     user_step env s (s\<lparr> y_user := U_exit_unlock \<rparr>)"
| check_deliver: "y_user s = U_check \<Longrightarrow> alloc_ok al \<Longrightarrow>
     uvc_user_caller_turn al (se_info env) (y_last_seq s) (y_sh s) = Some (Turn_deliver last_seq sh) \<Longrightarrow>
     user_step env s (s\<lparr> y_last_seq := last_seq, y_sh := sh, y_nomem := y_nomem s \<or> memory_short al (se_info env) (y_sh s),
       y_user := U_unlock \<rparr>)"
| check_fault: "y_user s = U_check \<Longrightarrow> alloc_ok al \<Longrightarrow>
     uvc_user_caller_turn al (se_info env) (y_last_seq s) (y_sh s) = None \<Longrightarrow>
     user_step env s (s\<lparr> y_nomem := y_nomem s \<or> memory_short al (se_info env) (y_sh s), y_fault := True \<rparr>)"
| wait_enter: "y_user s = U_wait_enter \<Longrightarrow> user_step env s (s\<lparr> y_mutex := None, y_user := U_waiting \<rparr>)"
| wake: "y_user s = U_waiting \<Longrightarrow> user_step env s (s\<lparr> y_user := U_woken \<rparr>)"
| woken: "y_user s = U_woken \<Longrightarrow> y_mutex s = None \<Longrightarrow> user_step env s (s\<lparr> y_mutex := Some T_user, y_user := U_check \<rparr>)"
| unlock: "y_user s = U_unlock \<Longrightarrow> user_step env s (s\<lparr> y_mutex := None, y_user := U_call \<rparr>)"
| call: "y_user s = U_call \<Longrightarrow> user_step env s (s\<lparr> y_frames := sh_frame (y_sh s) # y_frames s, y_user := U_lock \<rparr>)"
| exit_unlock: "y_user s = U_exit_unlock \<Longrightarrow> user_step env s (s\<lparr> y_mutex := None, y_user := U_done \<rparr>)"

text \<open>\<^verbatim>\<open>uvc_stream_get_frame\<close>, called on a stream that is not being closed.\<close>

definition poll_return :: "bool \<Rightarrow> (uvc_frame option \<times> uvc_stream_handle) \<Rightarrow> stream_sys \<Rightarrow> stream_sys" where
  "poll_return nomem r s = s\<lparr> y_sh := snd r, y_nomem := y_nomem s \<or> nomem, y_frames := (case fst r of None \<Rightarrow> y_frames s | Some f \<Rightarrow> f # y_frames s),
     y_poll := G_unlock \<rparr>"

inductive poll_step :: "stream_env \<Rightarrow> stream_sys \<Rightarrow> stream_sys \<Rightarrow> bool" for env where
  call: "y_poll s = G_idle \<Longrightarrow> \<not> y_closing s \<Longrightarrow> sh_running (y_sh s) \<Longrightarrow> poll_step env s (s\<lparr> y_poll := G_user_cb timeout_us \<rparr>)"
| user_cb: "y_poll s = G_user_cb timeout_us \<Longrightarrow>
     poll_step env s (s\<lparr> y_poll := (if sh_user_cb (y_sh s) then G_idle else G_lock timeout_us) \<rparr>)"
| lock: "y_poll s = G_lock timeout_us \<Longrightarrow> y_mutex s = None \<Longrightarrow>
     poll_step env s (s\<lparr> y_mutex := Some T_poller, y_poll := G_check timeout_us \<rparr>)"
| take: "y_poll s = G_check timeout_us \<Longrightarrow> sh_last_polled_seq (y_sh s) < sh_hold_seq (y_sh s) \<Longrightarrow>
     alloc_ok al \<Longrightarrow> poll_take al (se_info env) (y_sh s) = Some r \<Longrightarrow>
     poll_step env s (poll_return (memory_short al (se_info env) (y_sh s)) r s)"
| take_fault: "y_poll s = G_check timeout_us \<or> y_poll s = G_recheck \<Longrightarrow>
     alloc_ok al \<Longrightarrow> poll_take al (se_info env) (y_sh s) = None \<Longrightarrow>
     poll_step env s (s\<lparr> y_nomem := y_nomem s \<or> memory_short al (se_info env) (y_sh s), y_fault := True \<rparr>)"
| no_wait: "y_poll s = G_check timeout_us \<Longrightarrow> \<not> sh_last_polled_seq (y_sh s) < sh_hold_seq (y_sh s) \<Longrightarrow> timeout_us = -1 \<Longrightarrow>
     poll_step env s (s\<lparr> y_poll := G_unlock \<rparr>)"
| wait: "y_poll s = G_check timeout_us \<Longrightarrow> \<not> sh_last_polled_seq (y_sh s) < sh_hold_seq (y_sh s) \<Longrightarrow> timeout_us \<noteq> -1 \<Longrightarrow>
     poll_step env s (s\<lparr> y_mutex := None, y_poll := G_waiting timeout_us \<rparr>)"
| wake: "y_poll s = G_waiting timeout_us \<Longrightarrow> poll_step env s (s\<lparr> y_poll := G_woken timeout_us \<rparr>)"
| time_out: "y_poll s = G_waiting timeout_us \<Longrightarrow> timeout_us \<noteq> 0 \<Longrightarrow> poll_step env s (s\<lparr> y_poll := G_timed_out \<rparr>)"
| woken: "y_poll s = G_woken timeout_us \<Longrightarrow> y_mutex s = None \<Longrightarrow>
     poll_step env s (s\<lparr> y_mutex := Some T_poller, y_poll := G_recheck \<rparr>)"
| timed_out: "y_poll s = G_timed_out \<Longrightarrow> y_mutex s = None \<Longrightarrow>
     poll_step env s (s\<lparr> y_mutex := Some T_poller, y_poll := G_unlock \<rparr>)"
| retake: "y_poll s = G_recheck \<Longrightarrow> alloc_ok al \<Longrightarrow> poll_take al (se_info env) (y_sh s) = Some r \<Longrightarrow>
     poll_step env s (poll_return (memory_short al (se_info env) (y_sh s)) r s)"
| unlock: "y_poll s = G_unlock \<Longrightarrow> poll_step env s (s\<lparr> y_mutex := None, y_poll := G_idle \<rparr>)"

section \<open>Reachable states\<close>

inductive app_step :: "stream_sys \<Rightarrow> stream_sys \<Rightarrow> bool" where
  "start_step s t \<Longrightarrow> app_step s t"
| "halt_step s t \<Longrightarrow> app_step s t"
| "shut_step s t \<Longrightarrow> app_step s t"

inductive threads_step :: "stream_env \<Rightarrow> stream_sys \<Rightarrow> stream_sys \<Rightarrow> bool" for env where
  "app_step s t \<Longrightarrow> threads_step env s t"
| "event_step env s t \<Longrightarrow> threads_step env s t"
| "complete_step s t \<Longrightarrow> threads_step env s t"
| "user_step env s t \<Longrightarrow> threads_step env s t"
| "poll_step env s t \<Longrightarrow> threads_step env s t"

text \<open>A stream as \<^verbatim>\<open>uvc_stream_open_ctrl\<close> leaves it: stopped, its slots empty, nothing published.\<close>

definition fresh_stream :: "uvc_stream_handle \<Rightarrow> bool" where
  "fresh_stream sh = (\<not> sh_running sh \<and> sh_transfers sh = replicate LIBUVC_NUM_TRANSFER_BUFS None \<and> sh_swaps sh = [] \<and> sh_hold_seq sh = 0)"

definition threads_init :: "uvc_stream_handle \<Rightarrow> stream_sys" where
  "threads_init sh = \<lparr> y_sh = sh, y_mutex = None, y_main = SM_stopped, y_event = EV_idle, y_user = U_none, y_poll = G_idle,
     y_n = 0, y_attempts = 0, y_ret = 0, y_closing = False, y_last_seq = 0, y_flight = {}, y_linked = True, y_claimed = True,
     y_quarantined = False, y_freed = False, y_log = [], y_base = abs_stream sh, y_frames = [], y_stale = False, y_nomem = False,
     y_fault = False \<rparr>"

inductive threads_reachable :: "stream_env \<Rightarrow> stream_sys \<Rightarrow> bool" for env where
  init: "fresh_stream (se_open env) \<Longrightarrow> threads_reachable env (threads_init (se_open env))"
| step: "threads_reachable env s \<Longrightarrow> threads_step env s t \<Longrightarrow> threads_reachable env t"

section \<open>The mutex\<close>

text \<open>The points at which each thread holds \<^verbatim>\<open>cb_mutex\<close>.\<close>

fun main_locks :: "stream_main_pc \<Rightarrow> bool" where
  "main_locks SM_cancel = True"
| "main_locks SM_scan = True"
| "main_locks SM_broadcast = True"
| "main_locks SM_stop_unlock = True"
| "main_locks SM_close_scan = True"
| "main_locks (SM_close_unlock pending) = True"
| "main_locks _ = False"

fun event_locks :: "stream_event_pc \<Rightarrow> bool" where
  "event_locks (EV_swap tr ps pp) = True"
| "event_locks (EV_swap_unlock tr ps pp) = True"
| "event_locks (EV_delete tr) = True"
| "event_locks EV_delete_unlock = True"
| "event_locks _ = False"

fun user_locks :: "user_pc \<Rightarrow> bool" where
  "user_locks U_check = True"
| "user_locks U_wait_enter = True"
| "user_locks U_unlock = True"
| "user_locks U_exit_unlock = True"
| "user_locks _ = False"

fun poll_locks :: "poll_pc \<Rightarrow> bool" where
  "poll_locks (G_check n) = True"
| "poll_locks G_recheck = True"
| "poll_locks G_unlock = True"
| "poll_locks _ = False"

definition lock_inv :: "stream_sys \<Rightarrow> bool" where
  "lock_inv s = ((y_mutex s = Some T_main \<longleftrightarrow> main_locks (y_main s)) \<and> (y_mutex s = Some T_event \<longleftrightarrow> event_locks (y_event s)) \<and>
     (y_mutex s = Some T_user \<longleftrightarrow> user_locks (y_user s)) \<and> (y_mutex s = Some T_poller \<longleftrightarrow> poll_locks (y_poll s)))"

lemma wake_locks [simp]:
  "main_locks (y_main (wake_all s)) = main_locks (y_main s)" "user_locks (y_user (wake_all s)) = user_locks (y_user s)"
  "poll_locks (y_poll (wake_all s)) = poll_locks (y_poll s)"
  by (auto simp: wake_all_def split: poll_pc.splits)

lemma wake_fields [simp]:
  "y_sh (wake_all s) = y_sh s" "y_mutex (wake_all s) = y_mutex s" "y_event (wake_all s) = y_event s" "y_n (wake_all s) = y_n s"
  "y_attempts (wake_all s) = y_attempts s" "y_closing (wake_all s) = y_closing s" "y_last_seq (wake_all s) = y_last_seq s"
  "y_flight (wake_all s) = y_flight s" "y_claimed (wake_all s) = y_claimed s" "y_quarantined (wake_all s) = y_quarantined s"
  "y_freed (wake_all s) = y_freed s" "y_log (wake_all s) = y_log s" "y_base (wake_all s) = y_base s"
  "y_frames (wake_all s) = y_frames s" "y_stale (wake_all s) = y_stale s" "y_fault (wake_all s) = y_fault s"
  "y_ret (wake_all s) = y_ret s" "y_nomem (wake_all s) = y_nomem s" "y_linked (wake_all s) = y_linked s"
  by (simp_all add: wake_all_def)

section \<open>What the steps leave alone\<close>

text \<open>The event thread writes neither the flags nor the slots nor the frame; consumers write only the frame.\<close>

lemma header_keeps:
  "header_pts payload h info off s = Some (off', t) \<Longrightarrow> keeps s t"
  "header_scr payload h info off s = Some (off', t) \<Longrightarrow> keeps s t"
  "header_meta payload h off s = Some t \<Longrightarrow> keeps s t"
  by (auto simp: header_pts_def header_scr_def header_meta_def keeps_def Let_def bind_eq_Some_conv split: if_splits)

lemma keeps_fid: "keeps (s\<lparr> sh_fid := f \<rparr>) t \<Longrightarrow> keeps s t"
  by (simp add: keeps_def)

lemma payload_step_keeps:
  assumes "payload_step is_isight pp s = Some (swap, pp', t)"
  shows "keeps s t"
proof (cases pp)
  case (PP_start payload)
  then have "t = s \<or> t = s\<lparr> sh_frame_had_errors := True \<rparr>" using assms by (auto simp: Let_def bind_eq_Some_conv split: if_splits)
  then show ?thesis by (auto simp: keeps_def)
next
  case (PP_fields payload h n info)
  then obtain o1 s1 o2 s2 where "header_pts payload h info 2 (s\<lparr> sh_fid := info AND 1 \<rparr>) = Some (o1, s1)"
    "header_scr payload h info o1 s1 = Some (o2, s2)" "header_meta payload h o2 s2 = Some t"
    using assms by (auto simp: Let_def bind_eq_Some_conv)
  then show ?thesis by (blast intro: keeps_fid keeps_trans header_keeps)
next
  case (PP_data payload h n info)
  then have "t = s \<or> (\<exists>buf k. t = s\<lparr> sh_outbuf := buf, sh_got_bytes := k \<rparr>)"
    using assms by (auto simp: Let_def bind_eq_Some_conv split: if_splits)
  then show ?thesis by (auto simp: keeps_def)
qed (use assms in simp)

lemma swap_keeps: "keeps s (swap_locked now s)" "keeps s (swap_reset s)"
  by (simp_all add: keeps_def swap_locked_def swap_reset_def Let_def)

lemma delete_fields [simp]:
  "sh_running (delete_transfer t s) = sh_running s" "sh_user_cb (delete_transfer t s) = sh_user_cb s"
  "sh_swaps (delete_transfer t s) = sh_swaps s" "sh_hold_seq (delete_transfer t s) = sh_hold_seq s"
  "sh_frame (delete_transfer t s) = sh_frame s" "sh_cur_ctrl (delete_transfer t s) = sh_cur_ctrl s"
  "sh_stream_if (delete_transfer t s) = sh_stream_if s"
  by (simp_all add: delete_transfer_def split: option.splits)

lemma drop_slot_fields [simp]:
  "sh_running (drop_slot i t s) = sh_running s" "sh_user_cb (drop_slot i t s) = sh_user_cb s"
  "sh_transfers (drop_slot i t s) = (sh_transfers s)[i := None]" "sh_swaps (drop_slot i t s) = sh_swaps s"
  "sh_hold_seq (drop_slot i t s) = sh_hold_seq s" "abs_stream (drop_slot i t s) = abs_stream s"
  by (simp_all add: drop_slot_def abs_stream_def)

lemma start_setup_fields [simp]:
  "sh_running (start_setup fmt ts cb s)" "sh_user_cb (start_setup fmt ts cb s) = cb" "sh_transfers (start_setup fmt ts cb s) = ts"
  "sh_swaps (start_setup fmt ts cb s) = sh_swaps s" "sh_hold_seq (start_setup fmt ts cb s) = sh_hold_seq s"
  by (simp_all add: start_setup_def)

lemma populate_only_frame: "uvc_populate_frame al info s = Some t \<Longrightarrow> \<exists>f. t = s\<lparr> sh_frame := f \<rparr>"
  by (auto simp: uvc_populate_frame_def Let_def bind_eq_Some_conv split: if_splits)

lemma turn_cases:
  assumes "uvc_user_caller_turn al info last_seq s = Some turn"
  obtains "turn = Turn_wait" "sh_running s" "last_seq = sh_hold_seq s"
  | "turn = Turn_exit" "\<not> sh_running s"
  | f where "turn = Turn_deliver (sh_hold_seq s) (s\<lparr> sh_frame := f \<rparr>)" "sh_running s" "last_seq \<noteq> sh_hold_seq s"
    "uvc_populate_frame al info s = Some (s\<lparr> sh_frame := f \<rparr>)"
proof (cases "sh_running s \<and> last_seq \<noteq> sh_hold_seq s")
  case True
  then obtain t where t: "uvc_populate_frame al info s = Some t" "turn = Turn_deliver (sh_hold_seq s) t"
    using assms by (auto simp: uvc_user_caller_turn_def Let_def bind_eq_Some_conv)
  then obtain f where f: "t = s\<lparr> sh_frame := f \<rparr>" using populate_only_frame by blast
  show ?thesis by (rule that(3) [of f]) (use t [unfolded f] True in simp_all)
next
  case False
  then show ?thesis using that(1,2) assms by (simp add: uvc_user_caller_turn_def split: if_splits)
qed

lemma poll_take_cases:
  assumes "poll_take al info s = Some r"
  obtains f where "r = (Some f, s\<lparr> sh_frame := f, sh_last_polled_seq := sh_hold_seq s \<rparr>)" "sh_last_polled_seq s < sh_hold_seq s"
    "uvc_populate_frame al info s = Some (s\<lparr> sh_frame := f \<rparr>)"
  | "r = (None, s)"
proof (cases "sh_last_polled_seq s < sh_hold_seq s")
  case True
  then obtain t where t: "uvc_populate_frame al info s = Some t" "r = (Some (sh_frame t), t\<lparr> sh_last_polled_seq := sh_hold_seq t \<rparr>)"
    using assms by (auto simp: poll_take_def bind_eq_Some_conv)
  then obtain f where f: "t = s\<lparr> sh_frame := f \<rparr>" using populate_only_frame by blast
  show ?thesis by (rule that(1) [of f]) (use t [unfolded f] True in simp_all)
next
  case False
  then show ?thesis using that(2) assms by (simp add: poll_take_def)
qed

section \<open>Running and joining\<close>

text \<open>The points at which the stream is marked as running, at which it is not, and those past the join.\<close>

fun marked_running :: "stream_main_pc \<Rightarrow> bool" where
  "marked_running (SM_submit i) = True"
| "marked_running (SM_drop i) = True"
| "marked_running (SM_drop_all i) = True"
| "marked_running SM_streaming = True"
| "marked_running SM_stop_flag = True"
| "marked_running _ = False"

fun joined :: "stream_main_pc \<Rightarrow> bool" where
  "joined SM_stopped = True"
| "joined SM_close_lock = True"
| "joined SM_close_scan = True"
| "joined (SM_close_unlock pending) = True"
| "joined (SM_unlink pending) = True"
| "joined SM_quarantine = True"
| "joined SM_quarantined = True"
| "joined SM_release = True"
| "joined SM_free = True"
| "joined SM_gone = True"
| "joined _ = False"

text \<open>The callback thread exists from the start to the join if there is a callback, and not otherwise.\<close>

definition run_inv :: "stream_sys \<Rightarrow> bool" where
  "run_inv s = ((y_main s \<noteq> SM_close \<longrightarrow> sh_running (y_sh s) = marked_running (y_main s)) \<and>
     (if joined (y_main s) \<or> y_main s = SM_close \<and> \<not> sh_running (y_sh s) then y_user s = U_none
      else y_user s = U_none \<longleftrightarrow> \<not> sh_user_cb (y_sh s)))"

lemma wake_user [simp]: "y_user (wake_all s) = U_none \<longleftrightarrow> y_user s = U_none" "y_user (wake_all s) \<noteq> U_waiting"
  "y_user (wake_all s) = U_done \<longleftrightarrow> y_user s = U_done" "y_user (wake_all s) = U_exit_unlock \<longleftrightarrow> y_user s = U_exit_unlock"
  "y_user (wake_all s) = U_wait_enter \<longleftrightarrow> y_user s = U_wait_enter"
  by (simp_all add: wake_all_def)

lemma wake_main [simp]: "joined (y_main (wake_all s)) = joined (y_main s)" "marked_running (y_main (wake_all s)) = marked_running (y_main s)"
  "y_main (wake_all s) = SM_close \<longleftrightarrow> y_main s = SM_close"
  by (simp_all add: wake_all_def)

lemma keeps_run: "keeps s t \<Longrightarrow> sh_running t = sh_running s" "keeps s t \<Longrightarrow> sh_user_cb t = sh_user_cb s"
  by (simp_all add: keeps_def)

lemma swap_run [simp]:
  "sh_running (swap_locked now s) = sh_running s" "sh_user_cb (swap_locked now s) = sh_user_cb s"
  "sh_running (swap_reset s) = sh_running s" "sh_user_cb (swap_reset s) = sh_user_cb s"
  by (simp_all add: keeps_run [OF swap_keeps(1)] keeps_run [OF swap_keeps(2)])

lemma start_step_run: "start_step s t \<Longrightarrow> run_inv s \<Longrightarrow> run_inv t"
  by (induction rule: start_step.induct) (simp_all add: run_inv_def split: option.splits)

lemma halt_step_run: "halt_step s t \<Longrightarrow> run_inv s \<Longrightarrow> run_inv t"
  by (induction rule: halt_step.induct) (simp_all add: run_inv_def)

lemma shut_step_run: "shut_step s t \<Longrightarrow> run_inv s \<Longrightarrow> run_inv t"
  by (induction rule: shut_step.induct) (auto simp: run_inv_def split: if_splits)

lemma event_step_run: "event_step env s t \<Longrightarrow> run_inv s \<Longrightarrow> run_inv t"
  by (induction rule: event_step.induct) (simp_all add: run_inv_def keeps_run [OF payload_step_keeps])

lemma user_step_run: "user_step env s t \<Longrightarrow> run_inv s \<Longrightarrow> run_inv t"
  by (induction rule: user_step.induct) (auto simp: run_inv_def elim: turn_cases split: if_splits)

lemma poll_step_run: "poll_step env s t \<Longrightarrow> run_inv s \<Longrightarrow> run_inv t"
  by (induction rule: poll_step.induct) (auto simp: run_inv_def poll_return_def elim!: poll_take_cases split: if_splits)

lemma start_step_lock: "start_step s t \<Longrightarrow> run_inv s \<Longrightarrow> lock_inv s \<Longrightarrow> lock_inv t"
  by (induction rule: start_step.induct) (simp_all add: lock_inv_def run_inv_def)

lemma halt_step_lock: "halt_step s t \<Longrightarrow> lock_inv s \<Longrightarrow> lock_inv t"
  by (induction rule: halt_step.induct) (auto simp: lock_inv_def)

lemma shut_step_lock: "shut_step s t \<Longrightarrow> lock_inv s \<Longrightarrow> lock_inv t"
  by (induction rule: shut_step.induct) (auto simp: lock_inv_def)

lemma event_step_lock: "event_step env s t \<Longrightarrow> lock_inv s \<Longrightarrow> lock_inv t"
  by (induction rule: event_step.induct) (auto simp: lock_inv_def)

lemma user_step_lock: "user_step env s t \<Longrightarrow> lock_inv s \<Longrightarrow> lock_inv t"
  by (induction rule: user_step.induct) (auto simp: lock_inv_def)

lemma poll_step_lock: "poll_step env s t \<Longrightarrow> lock_inv s \<Longrightarrow> lock_inv t"
  by (induction rule: poll_step.induct) (auto simp: lock_inv_def poll_return_def)

text \<open>
  No wake-up is lost: once the stop has broadcast, the callback thread does not wait any more, and it never
  ends before the stream is marked as stopped.
\<close>

definition wait_inv :: "stream_sys \<Rightarrow> bool" where
  "wait_inv s = ((y_main s = SM_stop_unlock \<or> y_main s = SM_join \<longrightarrow> y_user s \<noteq> U_waiting \<and> y_user s \<noteq> U_wait_enter) \<and>
     (y_user s = U_done \<or> y_user s = U_exit_unlock \<longrightarrow> \<not> sh_running (y_sh s)))"

lemma start_step_wait: "start_step s t \<Longrightarrow> wait_inv s \<Longrightarrow> wait_inv t"
  by (induction rule: start_step.induct) (simp_all add: wait_inv_def split: option.splits)

lemma halt_step_wait: "halt_step s t \<Longrightarrow> lock_inv s \<Longrightarrow> wait_inv s \<Longrightarrow> wait_inv t"
  by (induction rule: halt_step.induct) (auto simp: wait_inv_def lock_inv_def)

lemma shut_step_wait: "shut_step s t \<Longrightarrow> wait_inv s \<Longrightarrow> wait_inv t"
  by (induction rule: shut_step.induct) (simp_all add: wait_inv_def)

lemma wake_wait [simp]: "y_main (wake_all s) = SM_stop_unlock \<longleftrightarrow> y_main s = SM_stop_unlock" "y_main (wake_all s) = SM_join \<longleftrightarrow> y_main s = SM_join"
  by (simp_all add: wake_all_def)

lemma event_step_wait: "event_step env s t \<Longrightarrow> wait_inv s \<Longrightarrow> wait_inv t"
  by (induction rule: event_step.induct) (auto simp: wait_inv_def keeps_run [OF payload_step_keeps])

lemma user_step_wait: "user_step env s t \<Longrightarrow> run_inv s \<Longrightarrow> wait_inv s \<Longrightarrow> wait_inv t"
  by (induction rule: user_step.induct) (auto simp: wait_inv_def run_inv_def elim!: turn_cases)

lemma poll_step_wait: "poll_step env s t \<Longrightarrow> wait_inv s \<Longrightarrow> wait_inv t"
  by (induction rule: poll_step.induct) (auto simp: wait_inv_def poll_return_def elim!: poll_take_cases)

definition sync_inv :: "stream_sys \<Rightarrow> bool" where
  "sync_inv s = (run_inv s \<and> lock_inv s \<and> wait_inv s)"

lemma complete_step_sync:
  assumes "complete_step s t" and "sync_inv s"
  shows "sync_inv t"
proof -
  have "run_inv s \<Longrightarrow> run_inv t" "wait_inv s \<Longrightarrow> wait_inv t" "lock_inv s \<Longrightarrow> lock_inv t"
    using assms(1) by (induction, simp add: run_inv_def, simp add: wait_inv_def, simp add: lock_inv_def)
  then show ?thesis using assms(2) by (simp add: sync_inv_def)
qed

lemma start_step_sync: "start_step s t \<Longrightarrow> sync_inv s \<Longrightarrow> sync_inv t"
  unfolding sync_inv_def using start_step_run start_step_lock start_step_wait by blast

lemma halt_step_sync: "halt_step s t \<Longrightarrow> sync_inv s \<Longrightarrow> sync_inv t"
  unfolding sync_inv_def using halt_step_run halt_step_lock halt_step_wait by blast

lemma shut_step_sync: "shut_step s t \<Longrightarrow> sync_inv s \<Longrightarrow> sync_inv t"
  unfolding sync_inv_def using shut_step_run shut_step_lock shut_step_wait by blast

lemma event_step_sync: "event_step env s t \<Longrightarrow> sync_inv s \<Longrightarrow> sync_inv t"
  unfolding sync_inv_def using event_step_run event_step_lock event_step_wait by blast

lemma user_step_sync: "user_step env s t \<Longrightarrow> sync_inv s \<Longrightarrow> sync_inv t"
  unfolding sync_inv_def using user_step_run user_step_lock user_step_wait by blast

lemma poll_step_sync: "poll_step env s t \<Longrightarrow> sync_inv s \<Longrightarrow> sync_inv t"
  unfolding sync_inv_def using poll_step_run poll_step_lock poll_step_wait by blast

lemma app_step_sync: "app_step s t \<Longrightarrow> sync_inv s \<Longrightarrow> sync_inv t"
  by (induction rule: app_step.induct) (blast intro: start_step_sync halt_step_sync shut_step_sync)+

lemma threads_step_sync: "threads_step env s t \<Longrightarrow> sync_inv s \<Longrightarrow> sync_inv t"
  by (induction rule: threads_step.induct)
     (blast intro: app_step_sync complete_step_sync event_step_sync user_step_sync poll_step_sync)+

lemma init_sync: "fresh_stream sh \<Longrightarrow> sync_inv (threads_init sh)"
  by (simp add: sync_inv_def run_inv_def lock_inv_def wait_inv_def threads_init_def fresh_stream_def)

lemma reachable_sync: "threads_reachable env s \<Longrightarrow> sync_inv s"
  by (induction rule: threads_reachable.induct) (blast intro: init_sync threads_step_sync)+

section \<open>Slots and transfers\<close>

lemma distinct_filter_nth:
  "distinct (filter P xs) \<Longrightarrow> i < length xs \<Longrightarrow> j < length xs \<Longrightarrow> xs ! i = xs ! j \<Longrightarrow> P (xs ! i) \<Longrightarrow> i = j"
proof (induction xs arbitrary: i j)
  case (Cons x xs)
  then show ?case by (cases i; cases j) (auto split: if_splits)
qed simp

lemma distinct_filter_update: "distinct (filter P xs) \<Longrightarrow> \<not> P y \<Longrightarrow> distinct (filter P (xs[i := y]))"
proof (induction xs arbitrary: i)
  case (Cons x xs)
  have "z \<in> set (xs[j := y]) \<Longrightarrow> P z \<Longrightarrow> z \<in> set xs" for z j
    using Cons.prems(2) set_update_subset_insert [of xs j y] by blast
  then show ?case using Cons by (cases i; cases "P x") auto
qed simp

lemma clear_slot_take: "clear_slot t ts = Some ts' \<Longrightarrow> Some x \<in> set (take k ts) \<Longrightarrow> x \<noteq> t \<Longrightarrow> Some x \<in> set (take k ts')"
proof (induction ts arbitrary: ts' k)
  case (Cons a ts)
  obtain k' where k: "k = Suc k'" using Cons.prems(2) by (cases k) auto
  show ?case
  proof (cases "a = Some t")
    case True
    then show ?thesis using Cons.prems k by auto
  next
    case False
    then obtain us where "clear_slot t ts = Some us" "ts' = a # us" using Cons.prems(1) by auto
    then show ?thesis using Cons.IH [of us k'] Cons.prems(2,3) k by auto
  qed
qed simp

lemma clear_slot_nth: "clear_slot t ts = Some ts' \<Longrightarrow> Some t \<in> set (take i ts) \<Longrightarrow> i \<le> j \<Longrightarrow> ts' ! j = ts ! j"
proof (induction ts arbitrary: ts' i j)
  case (Cons a ts)
  obtain i' j' where ij: "i = Suc i'" "j = Suc j'" "i' \<le> j'" using Cons.prems(2,3) by (cases i; cases j) auto
  show ?case
  proof (cases "a = Some t")
    case True
    then show ?thesis using Cons.prems(1) ij by auto
  next
    case False
    then obtain us where "clear_slot t ts = Some us" "ts' = a # us" using Cons.prems(1) by auto
    then show ?thesis using Cons.IH [of us i' j'] Cons.prems(2) False ij by simp
  qed
qed simp

text \<open>The transfers libusb or the running callback has, and the slots in which they may be.\<close>

definition known :: "stream_sys \<Rightarrow> nat set" where
  "known s = y_flight s \<union> event_xfer (y_event s)"

fun sent :: "stream_main_pc \<Rightarrow> nat" where
  "sent (SM_submit i) = i"
| "sent (SM_drop i) = i"
| "sent (SM_drop_all i) = 0"
| "sent _ = LIBUVC_NUM_TRANSFER_BUFS"

text \<open>The transfers set up but not submitted keep their slots until they are submitted or freed.\<close>

definition setup_ok :: "stream_main_pc \<Rightarrow> nat \<Rightarrow> nat option list \<Rightarrow> bool" where
  "setup_ok pc n ts = (case pc of
     SM_submit i \<Rightarrow> i \<le> n \<and> n \<le> LIBUVC_NUM_TRANSFER_BUFS \<and> (\<forall>j. i \<le> j \<longrightarrow> j < n \<longrightarrow> ts ! j \<noteq> None)
   | SM_drop i \<Rightarrow> i \<le> n \<and> n \<le> LIBUVC_NUM_TRANSFER_BUFS \<and> (\<forall>j. i \<le> j \<longrightarrow> j < n \<longrightarrow> ts ! j \<noteq> None)
   | SM_drop_all i \<Rightarrow> i \<le> n \<and> n \<le> LIBUVC_NUM_TRANSFER_BUFS
   | _ \<Rightarrow> True)"

text \<open>The close has seen all slots empty.\<close>

fun seen_empty :: "stream_main_pc \<Rightarrow> bool" where
  "seen_empty (SM_close_unlock pending) = (\<not> pending)"
| "seen_empty (SM_unlink pending) = (\<not> pending)"
| "seen_empty SM_release = True"
| "seen_empty SM_free = True"
| "seen_empty SM_gone = True"
| "seen_empty _ = False"

definition slot_inv :: "stream_sys \<Rightarrow> bool" where
  "slot_inv s = (length (sh_transfers (y_sh s)) = LIBUVC_NUM_TRANSFER_BUFS \<and> slots_ok (y_sh s) \<and>
     y_flight s \<inter> event_xfer (y_event s) = {} \<and>
     known s \<subseteq> {t. Some t \<in> set (take (sent (y_main s)) (sh_transfers (y_sh s)))} \<and>
     setup_ok (y_main s) (y_n s) (sh_transfers (y_sh s)) \<and>
     (seen_empty (y_main s) \<longrightarrow> y_event s = EV_idle \<and> live (y_sh s) = {}))"

lemma known_live: "slot_inv s \<Longrightarrow> known s \<subseteq> live (y_sh s)"
  by (auto simp: slot_inv_def live_def dest: in_set_takeD)

lemma event_quiet: "event_xfer pc = {} \<Longrightarrow> \<not> event_locks pc \<Longrightarrow> pc = EV_idle"
  by (cases pc) auto

lemma launch_slots:
  assumes "fill_transfers (\<lambda>i. Some (f i)) n ts = Some ts'" and "inj_on f {..<n}" and "\<forall>t. Some t \<notin> set ts"
    and "length ts = LIBUVC_NUM_TRANSFER_BUFS" and "n \<le> LIBUVC_NUM_TRANSFER_BUFS"
  shows "length ts' = LIBUVC_NUM_TRANSFER_BUFS \<and> distinct (filter (\<lambda>x. x \<noteq> None) ts') \<and> (\<forall>j < n. ts' ! j \<noteq> None)"
proof -
  have ts': "ts' = map (Some \<circ> f) [0..<n] @ drop n ts"
    using fill_transfers_ok [of "\<lambda>i. Some (f i)" f n ts] assms by simp
  have "filter (\<lambda>x. x \<noteq> None) (drop n ts) = []" using assms(3) by (auto simp: filter_empty_conv dest!: in_set_dropD) (metis not_None_eq)
  moreover have "filter (\<lambda>x. x \<noteq> None) (map (Some \<circ> f) [0..<n]) = map (Some \<circ> f) [0..<n]" by simp
  moreover have "distinct (map (Some \<circ> f) [0..<n])" using assms(2) by (auto simp: distinct_map inj_on_def)
  ultimately show ?thesis using assms(4,5) by (auto simp: ts' nth_append)
qed

lemma setup_ok_simps [simp]:
  "setup_ok (SM_submit i) n ts = (i \<le> n \<and> n \<le> LIBUVC_NUM_TRANSFER_BUFS \<and> (\<forall>j. i \<le> j \<longrightarrow> j < n \<longrightarrow> ts ! j \<noteq> None))"
  "setup_ok (SM_drop i) n ts = (i \<le> n \<and> n \<le> LIBUVC_NUM_TRANSFER_BUFS \<and> (\<forall>j. i \<le> j \<longrightarrow> j < n \<longrightarrow> ts ! j \<noteq> None))"
  "setup_ok (SM_drop_all i) n ts = (i \<le> n \<and> n \<le> LIBUVC_NUM_TRANSFER_BUFS)"
  by (simp_all add: setup_ok_def)

lemma start_step_slot: "start_step s t \<Longrightarrow> \<not> y_stale t \<Longrightarrow> slot_inv s \<Longrightarrow> slot_inv t"
proof (induction rule: start_step.induct)
  case (launch s n count f ts sh fmt cb)
  then have live: "live (y_sh s) = {}" by simp
  then have "known s = {}" using known_live [OF launch.prems(2)] by simp
  moreover have "\<forall>t. Some t \<notin> set (sh_transfers (y_sh s))" using live by (simp add: live_def)
  moreover have "n \<le> LIBUVC_NUM_TRANSFER_BUFS" using num_transfer_bufs_range launch(3) by simp
  ultimately show ?case using launch_slots [OF launch(4,5)] launch.prems(2) launch(7)
    by (simp add: slot_inv_def known_def slots_ok_def)
next
  case (accepted s i t)
  let ?ts = "sh_transfers (y_sh s)"
  have i: "i < length ?ts" and k: "known s \<subseteq> {t. Some t \<in> set (take i ?ts)}" and d: "distinct (filter (\<lambda>x. x \<noteq> None) ?ts)"
    using accepted by (auto simp: slot_inv_def slots_ok_def)
  have "Some t \<notin> set (take i ?ts)"
  proof
    assume "Some t \<in> set (take i ?ts)"
    then obtain j where "j < i" "?ts ! j = Some t" using i by (auto simp: in_set_conv_nth)
    then show False using distinct_filter_nth [OF d, of j i] i accepted(3) by simp
  qed
  then have "t \<notin> event_xfer (y_event s)" using k by (auto simp: known_def)
  moreover have "take (Suc i) ?ts = take i ?ts @ [Some t]" using i accepted(3) by (simp add: take_Suc_conv_app_nth)
  ultimately show ?case using accepted k by (auto simp: slot_inv_def known_def)
next
  case (drop s i t)
  have "take (Suc i) ((sh_transfers (y_sh s))[i := None]) = take i (sh_transfers (y_sh s)) @ [None]"
    using drop by (simp add: slot_inv_def take_Suc_conv_app_nth)
  then show ?case using drop distinct_filter_update [of "\<lambda>x. x \<noteq> None" "sh_transfers (y_sh s)" None i]
    by (auto simp: slot_inv_def known_def slots_ok_def)
next
  case (drop_any s i)
  then show ?case using distinct_filter_update [of "\<lambda>x. x \<noteq> None" "sh_transfers (y_sh s)" None i]
    by (auto simp: slot_inv_def known_def slots_ok_def split: option.splits)
next
  case (submitted s i)
  then show ?case using set_take_subset_set_take [of "y_n s" LIBUVC_NUM_TRANSFER_BUFS "sh_transfers (y_sh s)"]
    by (auto simp: slot_inv_def known_def setup_ok_def)
next
  case (dropped s i)
  then show ?case using set_take_subset_set_take [of "y_n s" LIBUVC_NUM_TRANSFER_BUFS "sh_transfers (y_sh s)"]
    by (auto simp: slot_inv_def known_def setup_ok_def)
next
  case (dropped_all s i)
  then show ?case by (auto simp: slot_inv_def known_def setup_ok_def)
qed (auto simp: slot_inv_def known_def)

lemma halt_step_slot: "halt_step s t \<Longrightarrow> slot_inv s \<Longrightarrow> slot_inv t"
  by (induction rule: halt_step.induct)
     (auto simp: slot_inv_def known_def setup_ok_def slots_ok_def)

lemma shut_step_slot: "shut_step s t \<Longrightarrow> lock_inv s \<Longrightarrow> slot_inv s \<Longrightarrow> slot_inv t"
proof (induction rule: shut_step.induct)
  case (scan s)
  have "\<not> event_locks (y_event s)" using scan by (auto simp: lock_inv_def)
  moreover have "live (y_sh s) = {} \<Longrightarrow> event_xfer (y_event s) = {}" using known_live [OF scan(3)] by (auto simp: known_def)
  ultimately have "live (y_sh s) = {} \<Longrightarrow> y_event s = EV_idle" using event_quiet by blast
  then show ?case using scan by (auto simp: slot_inv_def known_def setup_ok_def list_ex_iff live_def)
qed (auto simp: slot_inv_def known_def setup_ok_def)

lemma wake_slot [simp]: "sent (y_main (wake_all s)) = sent (y_main s)" "setup_ok (y_main (wake_all s)) = setup_ok (y_main s)"
  "seen_empty (y_main (wake_all s)) = seen_empty (y_main s)" "slot_inv (wake_all s) = slot_inv s"
proof -
  show *: "sent (y_main (wake_all s)) = sent (y_main s)" "setup_ok (y_main (wake_all s)) = setup_ok (y_main s)"
    "seen_empty (y_main (wake_all s)) = seen_empty (y_main s)"
    by (simp_all add: wake_all_def setup_ok_def fun_eq_iff)
  show "slot_inv (wake_all s) = slot_inv s" unfolding slot_inv_def known_def * by simp
qed

text \<open>The event thread gives a transfer up in one step: back to libusb, or freed with its slot cleared.\<close>

lemma delete_slot:
  assumes "slot_inv s" and "y_event s = EV_delete tr"
  shows "slot_inv ((wake_all s)\<lparr> y_sh := delete_transfer (xf_id tr) (y_sh s), y_event := EV_delete_unlock \<rparr>)"
proof -
  let ?ts = "sh_transfers (y_sh s)" and ?t = "xf_id tr"
  have in_k: "Some ?t \<in> set (take (sent (y_main s)) ?ts)" and fl: "?t \<notin> y_flight s"
    using assms by (auto simp: slot_inv_def known_def)
  then obtain ts' where ts': "clear_slot ?t ?ts = Some ts'" using clear_slot_None [of ?t ?ts] by (auto dest: in_set_takeD)
  have del: "sh_transfers (delete_transfer ?t (y_sh s)) = ts'" by (simp add: delete_transfer_def ts')
  have "slots_ok (delete_transfer ?t (y_sh s))" using delete_transfer_slots assms(1) by (simp add: slot_inv_def)
  moreover have "length ts' = length ?ts" using clear_slot_Some [OF ts'] by simp
  moreover have "y_flight s \<subseteq> {t. Some t \<in> set (take (sent (y_main s)) ts')}"
  proof
    fix x assume "x \<in> y_flight s"
    moreover from this have "x \<noteq> ?t" "Some x \<in> set (take (sent (y_main s)) ?ts)"
      using fl assms(1) by (auto simp: slot_inv_def known_def)
    ultimately show "x \<in> {t. Some t \<in> set (take (sent (y_main s)) ts')}" using clear_slot_take [OF ts'] by simp
  qed
  moreover have "setup_ok (y_main s) (y_n s) ts'"
  proof -
    have "setup_ok (y_main s) (y_n s) ?ts" using assms(1) by (simp add: slot_inv_def)
    then show ?thesis using clear_slot_nth [OF ts' in_k] by (cases "y_main s") (simp_all add: setup_ok_def)
  qed
  moreover have "\<not> seen_empty (y_main s)" using assms by (auto simp: slot_inv_def)
  ultimately show ?thesis using assms(1) by (simp add: slot_inv_def known_def del)
qed

text \<open>Steps that leave the slots alone.\<close>

lemma slot_frame:
  assumes "slot_inv s" and "sh_transfers sh = sh_transfers (y_sh s)" and "event_xfer pc = event_xfer (y_event s)"
    and "\<not> seen_empty (y_main s)"
  shows "slot_inv (s\<lparr> y_sh := sh, y_event := pc \<rparr>)"
  using assms by (simp add: slot_inv_def known_def slots_ok_def live_def)

lemma keeps_transfers: "keeps s t \<Longrightarrow> sh_transfers t = sh_transfers s"
  by (simp add: keeps_def)

lemma event_step_slot: "event_step env s t \<Longrightarrow> slot_inv s \<Longrightarrow> slot_inv t"
proof (induction rule: event_step.induct)
  case (payload s tr ps pp swap pp' sh)
  then have "\<not> seen_empty (y_main s)" by (auto simp: slot_inv_def)
  then show ?case using payload keeps_transfers [OF payload_step_keeps [OF payload(3)]] by (intro slot_frame) simp_all
next
  case (swap s tr ps pp)
  then have "\<not> seen_empty (y_main s)" by (auto simp: slot_inv_def)
  then have "slot_inv (s\<lparr> y_sh := swap_locked (se_now env) (y_sh s), y_event := EV_swap_unlock tr ps pp \<rparr>)"
    using swap keeps_transfers [OF swap_keeps(1)] by (intro slot_frame) simp_all
  moreover have "(wake_all s)\<lparr> y_sh := x, y_event := y \<rparr> = wake_all (s\<lparr> y_sh := x, y_event := y \<rparr>)" for x y by (simp add: wake_all_def)
  ultimately show ?case by simp
next
  case (swap_reset s tr ps pp)
  then have "\<not> seen_empty (y_main s)" by (auto simp: slot_inv_def)
  then show ?case using swap_reset keeps_transfers [OF swap_keeps(2)] by (intro slot_frame) simp_all
next
  case (delete s tr)
  then show ?case by (intro delete_slot)
qed (auto simp: slot_inv_def known_def slots_ok_def live_def)

lemma complete_step_slot: "complete_step s t \<Longrightarrow> slot_inv s \<Longrightarrow> slot_inv t"
proof (induction rule: complete_step.induct)
  case (1 tr s)
  then have "live (y_sh s) \<noteq> {}" using known_live [OF 1(3)] by (auto simp: known_def)
  then show ?case using 1 by (auto simp: slot_inv_def known_def)
qed

lemma user_step_slot: "user_step env s t \<Longrightarrow> slot_inv s \<Longrightarrow> slot_inv t"
  by (induction rule: user_step.induct) (auto simp: slot_inv_def known_def slots_ok_def live_def elim!: turn_cases)

lemma poll_step_slot: "poll_step env s t \<Longrightarrow> slot_inv s \<Longrightarrow> slot_inv t"
  by (induction rule: poll_step.induct)
     (auto simp: slot_inv_def known_def slots_ok_def live_def poll_return_def elim!: poll_take_cases)

lemma stale_kept: "threads_step env s t \<Longrightarrow> y_stale s \<Longrightarrow> y_stale t"
proof (induction rule: threads_step.induct)
  case (1 s t)
  from 1 show ?case by (elim app_step.cases start_step.cases halt_step.cases shut_step.cases) simp_all
next
  case (2 s t)
  from 2 show ?case by (elim event_step.cases) simp_all
next
  case (3 s t)
  from 3 show ?case by (elim complete_step.cases) simp
next
  case (4 s t)
  from 4 show ?case by (elim user_step.cases) simp_all
next
  case (5 s t)
  from 5 show ?case by (elim poll_step.cases) (simp_all add: poll_return_def)
qed

text \<open>Induction over the runs of a stream that is never started again too early.\<close>

lemma clean_induct [consumes 2, case_names init step]:
  assumes "threads_reachable env s" and "\<not> y_stale s" and "fresh_stream (se_open env) \<Longrightarrow> P (threads_init (se_open env))"
    and "\<And>s t. threads_reachable env s \<Longrightarrow> \<not> y_stale s \<Longrightarrow> \<not> y_stale t \<Longrightarrow> threads_step env s t \<Longrightarrow> P s \<Longrightarrow> P t"
  shows "P s"
  using assms(1,2)
proof (induction rule: threads_reachable.induct)
  case init
  then show ?case using assms(3) by blast
next
  case (step s t)
  have "\<not> y_stale s" using stale_kept [OF step(2)] step.prems by blast
  then show ?case using assms(4) step by blast
qed

lemma threads_step_slot: "threads_step env s t \<Longrightarrow> sync_inv s \<Longrightarrow> \<not> y_stale t \<Longrightarrow> slot_inv s \<Longrightarrow> slot_inv t"
proof (induction rule: threads_step.induct)
  case (1 s t)
  from 1 show ?case by (elim app_step.cases) (auto simp: sync_inv_def intro: start_step_slot halt_step_slot shut_step_slot)
qed (auto intro: event_step_slot complete_step_slot user_step_slot poll_step_slot)

lemma reachable_slot: "threads_reachable env s \<Longrightarrow> \<not> y_stale s \<Longrightarrow> slot_inv s"
proof (induction rule: clean_induct)
  case init
  then show ?case by (simp add: slot_inv_def known_def threads_init_def fresh_stream_def slots_ok_def setup_ok_def)
next
  case (step s t)
  then show ?case using threads_step_slot [OF step(4) reachable_sync [OF step(1)] step(3)] by blast
qed

section \<open>Where a close ends\<close>

definition end_inv :: "stream_sys \<Rightarrow> bool" where
  "end_inv s = ((y_claimed s \<longleftrightarrow> y_main s \<noteq> SM_free \<and> y_main s \<noteq> SM_gone) \<and> (y_freed s \<longleftrightarrow> y_main s = SM_gone) \<and>
     (y_quarantined s \<longleftrightarrow> y_main s = SM_quarantined) \<and>
     (y_linked s \<longleftrightarrow> y_main s \<notin> {SM_quarantine, SM_quarantined, SM_release, SM_free, SM_gone}))"

lemma wake_end [simp]: "y_main (wake_all s) = SM_free \<longleftrightarrow> y_main s = SM_free" "y_main (wake_all s) = SM_gone \<longleftrightarrow> y_main s = SM_gone"
  "y_main (wake_all s) = SM_quarantined \<longleftrightarrow> y_main s = SM_quarantined" "y_main (wake_all s) = SM_quarantine \<longleftrightarrow> y_main s = SM_quarantine"
  "y_main (wake_all s) = SM_release \<longleftrightarrow> y_main s = SM_release"
  by (simp_all add: wake_all_def)

lemma threads_step_end: "threads_step env s t \<Longrightarrow> end_inv s \<Longrightarrow> end_inv t"
proof (induction rule: threads_step.induct)
  case (1 s t)
  from 1 show ?case
    by (elim app_step.cases start_step.cases halt_step.cases shut_step.cases disjE) (simp_all add: end_inv_def)
next
  case (2 s t)
  from 2 show ?case by (elim event_step.cases) (simp_all add: end_inv_def)
next
  case (3 s t)
  from 3 show ?case by (elim complete_step.cases) (simp add: end_inv_def)
next
  case (4 s t)
  from 4 show ?case by (elim user_step.cases) (simp_all add: end_inv_def)
next
  case (5 s t)
  from 5 show ?case by (elim poll_step.cases) (simp_all add: end_inv_def poll_return_def)
qed

lemma reachable_end: "threads_reachable env s \<Longrightarrow> end_inv s"
  by (induction rule: threads_reachable.induct) (simp add: end_inv_def threads_init_def, blast intro: threads_step_end)

section \<open>Progress of a stop and a close\<close>

text \<open>The points inside \<^verbatim>\<open>uvc_stream_stop\<close> and \<^verbatim>\<open>uvc_stream_close\<close>, with a rank that falls from point to point.\<close>

fun stop_rank :: "stream_main_pc \<Rightarrow> nat \<Rightarrow> nat" where
  "stop_rank SM_close n = 100"
| "stop_rank SM_stop_flag n = 99"
| "stop_rank SM_stop_lock n = 98"
| "stop_rank SM_cancel n = 97"
| "stop_rank SM_scan n = 40 + 10 * (5 - n) + 3"
| "stop_rank SM_waiting n = 40 + 10 * (5 - n) + 2"
| "stop_rank SM_woken n = 40 + 10 * (5 - n) + 1"
| "stop_rank SM_timed_out n = 40 + 10 * (5 - n) + 1"
| "stop_rank SM_broadcast n = 35"
| "stop_rank SM_stop_unlock n = 34"
| "stop_rank SM_join n = 33"
| "stop_rank SM_close_lock n = 20"
| "stop_rank SM_close_scan n = 19"
| "stop_rank (SM_close_unlock pending) n = 18"
| "stop_rank (SM_unlink pending) n = 17"
| "stop_rank SM_quarantine n = 16"
| "stop_rank SM_release n = 16"
| "stop_rank SM_free n = 15"
| "stop_rank _ n = 0"

abbreviation stopping :: "stream_sys \<Rightarrow> bool" where
  "stopping s \<equiv> 0 < stop_rank (y_main s) (y_attempts s)"

text \<open>\<open>timeout_attempts\<close> is zero when the loop is entered, and below its limit inside.\<close>

definition attempts_inv :: "stream_sys \<Rightarrow> bool" where
  "attempts_inv s = ((y_main s = SM_cancel \<longrightarrow> y_attempts s = 0) \<and>
     (y_main s \<in> {SM_scan, SM_waiting, SM_woken, SM_timed_out} \<longrightarrow> y_attempts s < LIBUVC_STREAM_STOP_TIMEOUT_ATTEMPTS))"

lemma wake_attempts [simp]: "attempts_inv (wake_all s) = attempts_inv s"
  by (auto simp: attempts_inv_def wake_all_def)

lemma attempts_fields [simp]:
  "attempts_inv (s\<lparr> y_sh := sh \<rparr>) = attempts_inv s" "attempts_inv (s\<lparr> y_event := e \<rparr>) = attempts_inv s"
  "attempts_inv (s\<lparr> y_mutex := m \<rparr>) = attempts_inv s" "attempts_inv (s\<lparr> y_user := u \<rparr>) = attempts_inv s"
  "attempts_inv (s\<lparr> y_poll := g \<rparr>) = attempts_inv s" "attempts_inv (s\<lparr> y_flight := fl \<rparr>) = attempts_inv s"
  "attempts_inv (s\<lparr> y_log := l \<rparr>) = attempts_inv s" "attempts_inv (s\<lparr> y_frames := fs \<rparr>) = attempts_inv s"
  "attempts_inv (s\<lparr> y_fault := b \<rparr>) = attempts_inv s" "attempts_inv (s\<lparr> y_last_seq := q \<rparr>) = attempts_inv s"
  "attempts_inv (s\<lparr> y_nomem := b \<rparr>) = attempts_inv s"
  by (simp_all add: attempts_inv_def)

lemma threads_step_attempts: "threads_step env s t \<Longrightarrow> attempts_inv s \<Longrightarrow> attempts_inv t"
proof (induction rule: threads_step.induct)
  case (1 s t)
  from 1 show ?case
    by (elim app_step.cases start_step.cases halt_step.cases shut_step.cases) (simp_all add: attempts_inv_def)
next
  case (2 s t)
  from 2 show ?case by (elim event_step.cases) simp_all
next
  case (3 s t)
  from 3 show ?case by (elim complete_step.cases) simp
next
  case (4 s t)
  from 4 show ?case by (elim user_step.cases) simp_all
next
  case (5 s t)
  from 5 show ?case by (elim poll_step.cases) (simp_all add: poll_return_def)
qed

lemma reachable_attempts: "threads_reachable env s \<Longrightarrow> attempts_inv s"
  by (induction rule: threads_reachable.induct) (simp add: attempts_inv_def threads_init_def, blast intro: threads_step_attempts)

lemma stop_rank_falls:
  assumes "app_step s t" and "stopping s" and "attempts_inv s"
  shows "stop_rank (y_main t) (y_attempts t) < stop_rank (y_main s) (y_attempts s) \<or> y_main s = SM_woken \<and> y_main t = SM_scan"
  using assms
  by (elim app_step.cases start_step.cases halt_step.cases shut_step.cases disjE) (simp_all add: attempts_inv_def)

section \<open>Runs\<close>

lemma reach_start: "threads_reachable env s \<Longrightarrow> start_step s t \<Longrightarrow> threads_reachable env t"
  and reach_halt: "threads_reachable env s \<Longrightarrow> halt_step s t \<Longrightarrow> threads_reachable env t"
  and reach_shut: "threads_reachable env s \<Longrightarrow> shut_step s t \<Longrightarrow> threads_reachable env t"
  and reach_poll: "threads_reachable env s \<Longrightarrow> poll_step env s t \<Longrightarrow> threads_reachable env t"
  and reach_user: "threads_reachable env s \<Longrightarrow> user_step env s t \<Longrightarrow> threads_reachable env t"
  by (blast intro: threads_reachable.step threads_step.intros app_step.intros)+

text \<open>A wait of the stop that times out, the whole of a stop that gives up, and a stop with nothing to wait for.\<close>

lemma run_one_timeout:
  assumes "threads_reachable env s" and "y_main s = SM_scan" and "y_mutex s = Some T_main" and "live (y_sh s) \<noteq> {}"
    and "y_attempts s + 1 < LIBUVC_STREAM_STOP_TIMEOUT_ATTEMPTS"
  shows "threads_reachable env (s\<lparr> y_attempts := y_attempts s + 1 \<rparr>)"
proof -
  have 1: "threads_reachable env (s\<lparr> y_mutex := None, y_main := SM_waiting \<rparr>)"
    using reach_halt [OF assms(1) halt_step.scan_wait] assms by (simp add: all_None_live)
  have 2: "threads_reachable env (s\<lparr> y_mutex := None, y_main := SM_timed_out \<rparr>)"
    using reach_halt [OF 1 halt_step.time_out] by simp
  have "s\<lparr> y_mutex := Some T_main, y_attempts := Suc (y_attempts s), y_main := SM_scan \<rparr> = s\<lparr> y_attempts := y_attempts s + 1 \<rparr>"
    using assms(2,3) by (intro stream_sys.equality) simp_all
  then show ?thesis using reach_halt [OF 2 halt_step.timed_out] assms(5) by simp
qed

lemma wake_idle:
  assumes "y_main s \<noteq> SM_waiting" and "y_user s = U_none" and "y_poll s = G_idle"
  shows "wake_all s = s"
  using assms by (intro stream_sys.equality) (simp_all add: wake_all_def)

text \<open>From the broadcast to the return.\<close>

lemma run_stop_end:
  assumes "threads_reachable env s" and "y_main s = SM_broadcast" and "\<not> sh_user_cb (y_sh s)"
  shows "threads_reachable env ((wake_all s)\<lparr> y_mutex := None, y_main := (if y_closing s then SM_close_lock else SM_stopped) \<rparr>)"
proof -
  have 1: "threads_reachable env ((wake_all s)\<lparr> y_main := SM_stop_unlock \<rparr>)"
    by (rule reach_halt [OF assms(1) halt_step.broadcast [OF assms(2)]])
  have 2: "threads_reachable env ((wake_all s)\<lparr> y_mutex := None, y_main := SM_join \<rparr>)"
    using reach_halt [OF 1 halt_step.unlock] by simp
  show ?thesis using reach_halt [OF 2 halt_step.no_join] assms(3) by simp
qed

text \<open>From the flag to the first scan.\<close>

lemma run_stop_begin:
  assumes "threads_reachable env s" and "y_main s = SM_stop_flag" and "y_mutex s = None"
  shows "threads_reachable env (s\<lparr> y_sh := (y_sh s)\<lparr> sh_running := False \<rparr>, y_mutex := Some T_main, y_attempts := 0,
     y_ret := UVC_SUCCESS, y_main := SM_scan \<rparr>)"
proof -
  let ?s = "s\<lparr> y_sh := (y_sh s)\<lparr> sh_running := False \<rparr> \<rparr>"
  have 1: "threads_reachable env (?s\<lparr> y_main := SM_stop_lock \<rparr>)" using reach_halt [OF assms(1) halt_step.flag [OF assms(2)]] by simp
  have 2: "threads_reachable env (?s\<lparr> y_mutex := Some T_main, y_attempts := 0, y_ret := UVC_SUCCESS, y_main := SM_cancel \<rparr>)"
    using reach_halt [OF 1 halt_step.lock] assms(3) by simp
  show ?thesis using reach_halt [OF 2 halt_step.cancel] by simp
qed

text \<open>A close that finds the slots empty, from the lock on.\<close>

lemma run_close_end:
  assumes "threads_reachable env s" and "y_main s = SM_close_lock" and "y_mutex s = None" and "live (y_sh s) = {}"
  shows "threads_reachable env (s\<lparr> y_linked := False, y_claimed := False, y_freed := True, y_main := SM_gone \<rparr>)"
proof -
  have none: "list_ex (\<lambda>t. t \<noteq> None) (sh_transfers (y_sh s)) = False" using assms(4) list_ex_live by blast
  have 1: "threads_reachable env (s\<lparr> y_mutex := Some T_main, y_main := SM_close_scan \<rparr>)"
    by (rule reach_shut [OF assms(1) shut_step.lock [OF assms(2,3)]])
  have 2: "threads_reachable env (s\<lparr> y_mutex := Some T_main, y_main := SM_close_unlock False \<rparr>)"
    using reach_shut [OF 1 shut_step.scan] none by simp
  have 3: "threads_reachable env (s\<lparr> y_mutex := None, y_main := SM_unlink False \<rparr>)"
    using reach_shut [OF 2 shut_step.unlock [of _ False]] by simp
  have 4: "threads_reachable env (s\<lparr> y_mutex := None, y_linked := False, y_main := SM_release \<rparr>)"
    using reach_shut [OF 3 shut_step.unlink [of _ False]] by simp
  have 5: "threads_reachable env (s\<lparr> y_mutex := None, y_linked := False, y_claimed := False, y_main := SM_free \<rparr>)"
    using reach_shut [OF 4 shut_step.release] by simp
  have "s\<lparr> y_mutex := None, y_linked := False, y_claimed := False, y_freed := True, y_main := SM_gone \<rparr> =
      s\<lparr> y_linked := False, y_claimed := False, y_freed := True, y_main := SM_gone \<rparr>"
    using assms(3) by (intro stream_sys.equality) simp_all
  then show ?thesis using reach_shut [OF 5 shut_step.free] by simp
qed

text \<open>A stream whose slots are empty is closed: the wait is skipped, the handle is freed.\<close>

lemma run_close_empty:
  assumes "threads_reachable env s" and "y_main s = SM_streaming" and "y_mutex s = None" and "sh_running (y_sh s)"
    and "\<not> sh_user_cb (y_sh s)" and "live (y_sh s) = {}"
  shows "\<exists>t. threads_reachable env t \<and> y_freed t \<and> y_flight t = y_flight s \<and> y_stale t = y_stale s \<and> y_poll t = y_poll (wake_all s)"
proof -
  have 1: "threads_reachable env (s\<lparr> y_closing := True, y_main := SM_close \<rparr>)"
    using reach_shut [OF assms(1) shut_step.call] assms(2) by simp
  have 2: "threads_reachable env (s\<lparr> y_closing := True, y_main := SM_stop_flag \<rparr>)"
    using reach_shut [OF 1 shut_step.enter] assms(4) by simp
  let ?s = "s\<lparr> y_closing := True, y_sh := (y_sh s)\<lparr> sh_running := False \<rparr>, y_mutex := Some T_main, y_attempts := 0, y_ret := UVC_SUCCESS \<rparr>"
  have 3: "threads_reachable env (?s\<lparr> y_main := SM_scan \<rparr>)" using run_stop_begin [OF 2] assms(3) by simp
  have "list_all (\<lambda>t. t = None) (sh_transfers (y_sh s))" using assms(6) by (simp add: all_None_live)
  then have 4: "threads_reachable env (?s\<lparr> y_main := SM_broadcast \<rparr>)"
    using reach_halt [OF 3 halt_step.scan_empty] by simp
  let ?t = "(wake_all (?s\<lparr> y_main := SM_broadcast \<rparr>))\<lparr> y_mutex := None, y_main := SM_close_lock \<rparr>"
  have 5: "threads_reachable env ?t" using run_stop_end [OF 4] assms(5) by simp
  have "live (y_sh ?t) = {}" using assms(6) by (simp add: live_def)
  then have "threads_reachable env (?t\<lparr> y_linked := False, y_claimed := False, y_freed := True, y_main := SM_gone \<rparr>)"
    by (intro run_close_end [OF 5]) simp_all
  moreover have "y_poll ?t = y_poll (wake_all s)" by (simp add: wake_all_def)
  ultimately show ?thesis by (intro exI) (erule conjI, simp)
qed

text \<open>A start whose first submission is refused, with two transfers: the stream is marked as running, its slots are empty.\<close>

lemma run_refused_start:
  assumes "threads_reachable env s" and "y_main s = SM_stopped" and "y_mutex s = None" and "\<not> sh_running (y_sh s)"
    and "y_poll s = G_idle" and "sh_transfers (y_sh s) = [a, b] @ replicate 98 None"
    and "\<forall>x \<in> live (y_sh s) \<union> y_flight s \<union> event_xfer (y_event s). x < 10"
  shows "\<exists>t. threads_reachable env t \<and> y_main t = SM_streaming \<and> y_mutex t = None \<and> sh_running (y_sh t) \<and> sh_user_cb (y_sh t) = cb \<and>
    live (y_sh t) = {} \<and> y_flight t = y_flight s \<and> y_stale t = (y_stale s \<or> live (y_sh s) \<noteq> {}) \<and> y_poll t = G_idle \<and>
    y_closing t = y_closing s \<and> y_user t = (if cb then U_lock else U_none) \<and> y_last_seq t = 0 \<and>
     sh_last_polled_seq (y_sh t) = sh_last_polled_seq (y_sh s) \<and> sh_hold_seq (y_sh t) = sh_hold_seq (y_sh s)"
proof -
  let ?f = "\<lambda>i. i + 10 :: nat" and ?ts = "[Some 10, Some 11] @ replicate 98 None :: nat option list"
  let ?sh = "start_setup FORMAT_YUYV ?ts cb (y_sh s)"
  let ?s = "s\<lparr> y_sh := ?sh, y_n := 2, y_main := SM_submit 0, y_user := (if cb then U_lock else U_none), y_last_seq := 0,
    y_stale := y_stale s \<or> live (y_sh s) \<noteq> {}, y_log := [], y_base := abs_stream ?sh \<rparr>"
  have n: "2 = num_transfer_bufs 2" by (simp add: num_transfer_bufs_def)
  have fill: "fill_transfers (\<lambda>i. Some (?f i)) 2 (sh_transfers (y_sh s)) = Some ?ts"
    by (simp add: assms(6) numeral_2_eq_2)
  have "?f ` {..<2} \<inter> (live (y_sh s) \<union> y_flight s \<union> event_xfer (y_event s)) = {}" using assms(7) by fastforce
  then have 1: "threads_reachable env ?s"
    using reach_start [OF assms(1) start_step.launch [OF assms(2,4) n fill _ _ refl, of FORMAT_YUYV cb]] assms(5) by simp
  have 2: "threads_reachable env (?s\<lparr> y_main := SM_drop_all 0 \<rparr>)"
    using reach_start [OF 1 start_step.refused [of _ 0]] by simp
  have 3: "threads_reachable env (?s\<lparr> y_sh := drop_slot 0 10 ?sh, y_main := SM_drop_all 1 \<rparr>)"
    using reach_start [OF 2 start_step.drop_any [of _ 0]] by simp
  have 4: "threads_reachable env (?s\<lparr> y_sh := drop_slot 1 11 (drop_slot 0 10 ?sh), y_main := SM_drop_all 2 \<rparr>)"
    using reach_start [OF 3 start_step.drop_any [of _ 1]] by (simp add: numeral_2_eq_2)
  have 5: "threads_reachable env (?s\<lparr> y_sh := drop_slot 1 11 (drop_slot 0 10 ?sh), y_main := SM_streaming \<rparr>)"
    using reach_start [OF 4 start_step.dropped_all [of _ 2]] by simp
  have "live (drop_slot 1 11 (drop_slot 0 10 ?sh)) = {}" by (simp add: live_def)
  then show ?thesis using assms(3,5) by (intro exI [of _ "?s\<lparr> y_sh := drop_slot 1 11 (drop_slot 0 10 ?sh), y_main := SM_streaming \<rparr>"] conjI 5)
    (simp_all add: drop_slot_def start_setup_def)
qed

text \<open>The sample camera with its stream open, and started with two transfers.\<close>

definition open_stream :: uvc_stream_handle where
  "open_stream = sample_stream\<lparr> sh_running := False, sh_transfers := replicate LIBUVC_NUM_TRANSFER_BUFS None \<rparr>"

definition sample_env :: stream_env where
  "sample_env = \<lparr> se_now = (\<lambda>_. 0), se_is_isight = False, se_info = sample_info, se_open = open_stream \<rparr>"

definition two_slots :: "nat option list" where
  "two_slots = [Some 1, Some 2] @ replicate 98 None"

definition sample_streaming :: stream_sys where
  "sample_streaming = (threads_init open_stream)\<lparr> y_sh := start_setup FORMAT_YUYV two_slots False open_stream, y_n := 2,
     y_main := SM_streaming, y_flight := {1, 2}, y_base := abs_stream (start_setup FORMAT_YUYV two_slots False open_stream) \<rparr>"

lemma open_stream_fields [simp]: "\<not> sh_running open_stream" "sh_transfers open_stream = replicate LIBUVC_NUM_TRANSFER_BUFS None"
  "sh_last_polled_seq open_stream = 0" "sh_hold_seq open_stream = 0" "live open_stream = {}"
  by (simp_all add: open_stream_def sample_stream_def live_def)

lemma open_stream_fresh: "fresh_stream open_stream"
  by (simp add: fresh_stream_def) (simp add: open_stream_def sample_stream_def)

lemma sample_init: "threads_reachable sample_env (threads_init open_stream)"
  using threads_reachable.init [of sample_env] open_stream_fresh by (simp add: sample_env_def)

lemma live_two_slots: "live (start_setup fmt two_slots cb s) = {1, 2}"
  by (auto simp: live_def two_slots_def)

lemma sample_streaming_reachable: "threads_reachable sample_env sample_streaming"
proof -
  let ?sh = "start_setup FORMAT_YUYV two_slots False open_stream"
  let ?s = "(threads_init open_stream)\<lparr> y_sh := ?sh, y_n := 2, y_base := abs_stream ?sh \<rparr>"
  have n: "2 = num_transfer_bufs 2" by (simp add: num_transfer_bufs_def)
  have fill: "fill_transfers (\<lambda>i. Some (i + 1)) 2 (sh_transfers (y_sh (threads_init open_stream))) = Some two_slots"
    by (simp add: threads_init_def two_slots_def numeral_2_eq_2 eval_nat_numeral)
  have 1: "threads_reachable sample_env (?s\<lparr> y_main := SM_submit 0 \<rparr>)"
    using reach_start [OF sample_init start_step.launch [OF _ _ n fill _ _ refl, of FORMAT_YUYV False]]
    by (simp add: threads_init_def)
  have 2: "threads_reachable sample_env (?s\<lparr> y_flight := {1}, y_main := SM_submit 1 \<rparr>)"
    using reach_start [OF 1 start_step.accepted [of _ 0 1]] by (simp add: two_slots_def threads_init_def)
  have 3: "threads_reachable sample_env (?s\<lparr> y_flight := {1, 2}, y_main := SM_submit 2 \<rparr>)"
    using reach_start [OF 2 start_step.accepted [of _ 1 2]] by (simp add: two_slots_def threads_init_def insert_commute numeral_2_eq_2)
  show ?thesis using reach_start [OF 3 start_step.submitted [of _ 2]] by (simp add: sample_streaming_def threads_init_def)
qed

text \<open>The device does not complete its two transfers: the stop gives up after five waits.\<close>

lemma run_give_up:
  assumes "threads_reachable env s" and "y_main s = SM_scan" and "y_mutex s = Some T_main" and "live (y_sh s) \<noteq> {}"
    and "y_attempts s = 0"
  shows "threads_reachable env (s\<lparr> y_attempts := 5, y_ret := UVC_ERROR_TIMEOUT, y_main := SM_broadcast \<rparr>)"
proof -
  let ?s = "\<lambda>n. s\<lparr> y_attempts := n \<rparr>"
  have step: "threads_reachable env (?s n) \<Longrightarrow> n < 4 \<Longrightarrow> threads_reachable env (?s (Suc n))" for n
    using run_one_timeout [of env "?s n"] assms(2-4) by simp
  have "s = ?s 0" using assms(5) by (intro stream_sys.equality) simp_all
  then have "threads_reachable env (?s 0)" using assms(1) by simp
  then have 4: "threads_reachable env (?s 4)" using step [of 0] step [of 1] step [of 2] step [of 3] by (simp add: eval_nat_numeral)
  have 5: "threads_reachable env ((?s 4)\<lparr> y_mutex := None, y_main := SM_waiting \<rparr>)"
    using reach_halt [OF 4 halt_step.scan_wait] assms(2,4) by (simp add: all_None_live)
  have 6: "threads_reachable env ((?s 4)\<lparr> y_mutex := None, y_main := SM_timed_out \<rparr>)"
    using reach_halt [OF 5 halt_step.time_out] by simp
  have "s\<lparr> y_mutex := Some T_main, y_attempts := 5, y_ret := UVC_ERROR_TIMEOUT, y_main := SM_broadcast \<rparr> =
      s\<lparr> y_attempts := 5, y_ret := UVC_ERROR_TIMEOUT, y_main := SM_broadcast \<rparr>"
    using assms(3) by (intro stream_sys.equality) simp_all
  then show ?thesis using reach_halt [OF 6 halt_step.give_up] by simp
qed

lemma run_sample_timeout:
  "\<exists>s. threads_reachable sample_env s \<and> y_main s = SM_stopped \<and> y_mutex s = None \<and> \<not> sh_running (y_sh s) \<and> y_poll s = G_idle \<and>
     sh_transfers (y_sh s) = two_slots \<and> y_flight s = {1, 2} \<and> y_event s = EV_idle \<and> \<not> y_stale s \<and> y_ret s = UVC_ERROR_TIMEOUT"
proof -
  let ?s = "sample_streaming\<lparr> y_closing := False \<rparr>"
  let ?sh = "(y_sh sample_streaming)\<lparr> sh_running := False \<rparr>"
  have live: "live ?sh = {1, 2}" using live_two_slots by (simp add: live_def sample_streaming_def)
  have 1: "threads_reachable sample_env (?s\<lparr> y_main := SM_stop_flag \<rparr>)"
    using reach_halt [OF sample_streaming_reachable halt_step.call] by (simp add: sample_streaming_def)
  have 2: "threads_reachable sample_env (?s\<lparr> y_sh := ?sh, y_mutex := Some T_main, y_attempts := 0, y_ret := UVC_SUCCESS, y_main := SM_scan \<rparr>)"
    using run_stop_begin [OF 1] by (simp add: sample_streaming_def threads_init_def)
  have 3: "threads_reachable sample_env
      (?s\<lparr> y_sh := ?sh, y_mutex := Some T_main, y_attempts := 5, y_ret := UVC_ERROR_TIMEOUT, y_main := SM_broadcast \<rparr>)"
    using run_give_up [OF 2] live by simp
  show ?thesis using run_stop_end [OF 3]
    by (intro exI, rule conjI)
       (assumption | simp add: sample_streaming_def threads_init_def wake_all_def start_setup_def open_stream_def sample_stream_def)+
qed

section \<open>Properties\<close>

text \<open>
  C3: on every schedule of the four threads and libusb, of a stream that is not started again while transfers or
  polls of its last run are under way: every transfer that libusb holds or that a callback is working on
  has its slot; as long as there is one, or the event thread is anywhere in a callback, or the callback
  thread exists, the interface is claimed and the handle allocated.  A close ends with the handle
  quarantined, everything kept and the device marked, or with the handle freed, unlinked and its interface
  released, and then libusb holds no transfer of it, no transfer callback is running and the callback thread
  has ended.  A thread that polls is not among them: nothing waits for it, and it may be left with a freed handle.
\<close>

theorem stream_threads_safe:
  assumes "threads_reachable env s" and "\<not> y_stale s"
  shows "y_flight s \<union> event_xfer (y_event s) \<subseteq> live (y_sh s) \<and>
    (y_flight s \<noteq> {} \<or> y_event s \<noteq> EV_idle \<or> y_user s \<noteq> U_none \<longrightarrow> y_claimed s \<and> \<not> y_freed s) \<and>
    (y_quarantined s \<longrightarrow> y_claimed s \<and> \<not> y_freed s \<and> \<not> y_linked s) \<and>
    (y_freed s \<longrightarrow> \<not> y_claimed s \<and> \<not> y_linked s \<and> live (y_sh s) = {} \<and> y_flight s = {} \<and> y_event s = EV_idle \<and> y_user s = U_none)"
proof -
  have slot: "slot_inv s" and known: "known s \<subseteq> live (y_sh s)"
    using reachable_slot [OF assms] by (auto dest: known_live)
  have e: "y_claimed s \<longleftrightarrow> y_main s \<noteq> SM_free \<and> y_main s \<noteq> SM_gone" "y_freed s \<longleftrightarrow> y_main s = SM_gone"
    "y_quarantined s \<longleftrightarrow> y_main s = SM_quarantined"
    "y_linked s \<longleftrightarrow> y_main s \<notin> {SM_quarantine, SM_quarantined, SM_release, SM_free, SM_gone}"
    using reachable_end [OF assms(1)] by (simp_all add: end_inv_def)
  have user: "y_main s = SM_free \<or> y_main s = SM_gone \<Longrightarrow> y_user s = U_none"
    using reachable_sync [OF assms(1)] by (auto simp: sync_inv_def run_inv_def)
  have quiet: "y_main s = SM_free \<or> y_main s = SM_gone \<Longrightarrow> y_event s = EV_idle \<and> live (y_sh s) = {}"
    using slot by (auto simp: slot_inv_def)
  show ?thesis using known quiet user unfolding known_def e by auto
qed

theorem stream_threads_safe_witness:
  "threads_reachable sample_env sample_streaming \<and> y_flight sample_streaming = {1, 2} \<and> {1, 2} \<subseteq> live (y_sh sample_streaming) \<and>
   y_claimed sample_streaming"
  using stream_threads_safe [OF sample_streaming_reachable] sample_streaming_reachable
  by (simp add: sample_streaming_def threads_init_def)

text \<open>
  C25: the two ways in which a handle is freed too early.  A stop that timed out, a second start, which overwrites the
  slots of the transfers that libusb still holds, and a close: the handle is freed with these transfers in
  flight.  And a close, or a stop and a close, while another thread waits in \<^verbatim>\<open>uvc_stream_get_frame\<close>: the poll is woken,
  as documented, but nothing waits for it to leave, and it takes the mutex of a freed handle.
\<close>

theorem stream_freed_early:
  "(\<exists>s. threads_reachable sample_env s \<and> y_freed s \<and> y_flight s = {1, 2}) \<and>
   (\<exists>s. threads_reachable sample_env s \<and> \<not> y_stale s \<and> y_freed s \<and> y_poll s = G_woken 0)"
proof
  obtain s where s: "threads_reachable sample_env s" "y_main s = SM_stopped" "y_mutex s = None" "\<not> sh_running (y_sh s)" "y_poll s = G_idle"
    "sh_transfers (y_sh s) = two_slots" "y_flight s = {1, 2}" "y_event s = EV_idle"
    using run_sample_timeout by blast
  have "\<forall>x \<in> live (y_sh s) \<union> y_flight s \<union> event_xfer (y_event s). x < 10" using s(6-8) by (auto simp: live_def two_slots_def)
  then obtain t where t: "threads_reachable sample_env t" "y_main t = SM_streaming" "y_mutex t = None" "sh_running (y_sh t)"
    "\<not> sh_user_cb (y_sh t)" "live (y_sh t) = {}" "y_flight t = y_flight s"
    using run_refused_start [OF s(1-5), of "Some 1" "Some 2" False] s(6) unfolding two_slots_def by blast
  then show "\<exists>s. threads_reachable sample_env s \<and> y_freed s \<and> y_flight s = {1, 2}" using run_close_empty [OF t(1-6)] s(7) by auto
next
  let ?s = "threads_init open_stream"
  have "replicate LIBUVC_NUM_TRANSFER_BUFS None = [None, None] @ replicate 98 (None :: nat option)" by (simp add: eval_nat_numeral)
  then obtain t where t: "threads_reachable sample_env t" "y_main t = SM_streaming" "y_mutex t = None" "sh_running (y_sh t)"
    "\<not> sh_user_cb (y_sh t)" "live (y_sh t) = {}" "\<not> y_stale t" "y_poll t = G_idle" "\<not> y_closing t"
    "\<not> sh_last_polled_seq (y_sh t) < sh_hold_seq (y_sh t)"
    using run_refused_start [OF sample_init, of None None False] by (auto simp: threads_init_def)
  have 1: "threads_reachable sample_env (t\<lparr> y_poll := G_user_cb 0 \<rparr>)" using reach_poll [OF t(1) poll_step.call] t by simp
  have 2: "threads_reachable sample_env (t\<lparr> y_poll := G_lock 0 \<rparr>)" using reach_poll [OF 1 poll_step.user_cb [of _ 0]] t by simp
  have 3: "threads_reachable sample_env (t\<lparr> y_mutex := Some T_poller, y_poll := G_check 0 \<rparr>)"
    using reach_poll [OF 2 poll_step.lock [of _ 0]] t by simp
  have 4: "threads_reachable sample_env (t\<lparr> y_mutex := None, y_poll := G_waiting 0 \<rparr>)"
    using reach_poll [OF 3 poll_step.wait [of _ 0]] t by simp
  have "y_poll (wake_all (t\<lparr> y_mutex := None, y_poll := G_waiting 0 \<rparr>)) = G_woken 0" by (simp add: wake_all_def)
  then show "\<exists>s. threads_reachable sample_env s \<and> \<not> y_stale s \<and> y_freed s \<and> y_poll s = G_woken 0"
    using run_close_empty [OF 4] t by auto
qed

end
