(* ===== verification/Stream_Frames.thy ===== *)
theory Stream_Frames
  imports Stream_Threads
begin

text \<open>
  What the threads of a stream do to its frames (stream.c), on every schedule of theory \<open>Stream_Threads\<close>: the event
  thread assembles the completed transfers in the order of their completion, the frames that reach
  the application are frames it published, whole, no thread leaves the buffers, and a stop or a close
  is never stuck.
\<close>

section \<open>A payload, part by part\<close>












section \<open>The event thread against the assembler\<close>







text \<open>
  The buffers, the description and the frame; the image of the frame may be lost once memory was short.
\<close>

definition buffers_inv :: "stream_env \<Rightarrow> bool \<Rightarrow> uvc_stream_handle \<Rightarrow> bool" where
  "buffers_inv env nomem s = (stream_wf s \<and> stream_frame_desc (se_info env) s \<noteq> None \<and> frame_sound (sh_frame s) \<and>
     (\<not> nomem \<longrightarrow> frame_fits_buf (sh_frame s)))"








lemma buffers_fields [simp]:
  "buffers_inv env b (s\<lparr> sh_running := r \<rparr>) = buffers_inv env b s"
  "buffers_inv env b (s\<lparr> sh_frame_had_errors := r \<rparr>) = buffers_inv env b s"
  "buffers_inv env b (s\<lparr> sh_last_polled_seq := q \<rparr>) = buffers_inv env b s"
  "buffers_inv env b (drop_slot i t s) = buffers_inv env b s"
  "buffers_inv env b (start_setup fmt ts cb s) = buffers_inv env b s"
  "buffers_inv env b (delete_transfer t s) = buffers_inv env b s"
  by (simp_all add: buffers_inv_def stream_wf_def stream_frame_desc_def drop_slot_def start_setup_def delete_transfer_def split: option.splits)















lemma abs_fields [simp]:
  "abs_stream (s\<lparr> sh_running := b \<rparr>) = abs_stream s" "abs_stream (s\<lparr> sh_frame := f \<rparr>) = abs_stream s"
  "abs_stream (s\<lparr> sh_last_polled_seq := q \<rparr>) = abs_stream s"
  "abs_stream (s\<lparr> sh_frame_had_errors := True \<rparr>) = (abs_stream s)\<lparr> as_bad := True \<rparr>"
  by (simp_all add: abs_stream_def)

lemma ctrl_fields [simp]: "sh_cur_ctrl (drop_slot i t s) = sh_cur_ctrl s" "sh_cur_ctrl (start_setup fmt ts cb s) = sh_cur_ctrl s"
  "sh_cur_ctrl (swap_locked now s) = sh_cur_ctrl s" "sh_cur_ctrl (swap_reset s) = sh_cur_ctrl s"
  using swap_keeps by (simp_all add: drop_slot_def start_setup_def keeps_def)















section \<open>The frames that are delivered\<close>




text \<open>
  The frame of the handle belongs to the callback thread while it calls the application: a poll that got as
  far as the mutex found no callback installed.
\<close>

fun poll_inside :: "poll_pc \<Rightarrow> bool" where
  "poll_inside G_idle = False"
| "poll_inside (G_user_cb n) = False"
| "poll_inside _ = True"




lemma wake_frame [simp]: "poll_inside (y_poll (wake_all s)) = poll_inside (y_poll s)" "y_user (wake_all s) = U_unlock \<longleftrightarrow> y_user s = U_unlock"
  "y_user (wake_all s) = U_call \<longleftrightarrow> y_user s = U_call"
  by (simp_all add: wake_all_def split: poll_pc.splits)












section \<open>No access outside an object\<close>









section \<open>Progress\<close>

text \<open>The thread that holds the mutex, if it is not the application thread, and its steps to the unlock.\<close>

definition holder_step :: "stream_env \<Rightarrow> stream_sys \<Rightarrow> stream_sys \<Rightarrow> bool" where
  "holder_step env s t = (case y_mutex s of
     Some T_event \<Rightarrow> event_step env s t | Some T_user \<Rightarrow> user_step env s t | Some T_poller \<Rightarrow> poll_step env s t | _ \<Rightarrow> False)"

fun event_left :: "stream_event_pc \<Rightarrow> nat" where
  "event_left (EV_swap tr ps pp) = 1"
| "event_left (EV_delete tr) = 1"
| "event_left _ = 0"

fun poll_left :: "poll_pc \<Rightarrow> nat" where
  "poll_left (G_check n) = 1"
| "poll_left G_recheck = 1"
| "poll_left _ = 0"

definition hold_left :: "stream_sys \<Rightarrow> nat" where
  "hold_left s = (case y_mutex s of
     Some T_event \<Rightarrow> event_left (y_event s) | Some T_user \<Rightarrow> (if y_user s = U_check then 1 else 0)
   | Some T_poller \<Rightarrow> poll_left (y_poll s) | _ \<Rightarrow> 0)"

text \<open>The steps of the callback thread to its end, once the stream is stopped.\<close>

fun user_left :: "user_pc \<Rightarrow> nat" where
  "user_left U_unlock = 6"
| "user_left U_call = 5"
| "user_left U_wait_enter = 6"
| "user_left U_waiting = 5"
| "user_left U_woken = 4"
| "user_left U_lock = 4"
| "user_left U_check = 3"
| "user_left U_exit_unlock = 2"
| "user_left _ = 0"

lemma user_left_falls:
  assumes "user_step env s t" and "\<not> sh_running (y_sh s)"
  shows "user_left (y_user t) < user_left (y_user s)"
  using assms(1) by cases (use assms(2) in \<open>auto simp: uvc_user_caller_turn_def\<close>)

lemma hold_left_falls:
  assumes "holder_step env s t" and "lock_inv s"
  shows "y_mutex t = None \<or> hold_left t < hold_left s \<or> y_fault t"
proof -
  consider (event) "y_mutex s = Some T_event" "event_step env s t" | (user) "y_mutex s = Some T_user" "user_step env s t"
    | (poll) "y_mutex s = Some T_poller" "poll_step env s t"
    using assms(1) by (auto simp: holder_step_def split: option.splits stream_thread.splits)
  then show ?thesis
  proof cases
    case event
    have l: "event_locks (y_event s)" using assms(2) event(1) by (simp add: lock_inv_def)
    from event(2) show ?thesis by cases (use l event(1) in \<open>auto simp: hold_left_def\<close>)
  next
    case user
    have l: "user_locks (y_user s)" using assms(2) user(1) by (simp add: lock_inv_def)
    from user(2) show ?thesis by cases (use l user(1) in \<open>auto simp: hold_left_def\<close>)
  next
    case poll
    have l: "poll_locks (y_poll s)" using assms(2) poll(1) by (simp add: lock_inv_def)
    from poll(2) show ?thesis by cases (use l poll(1) in \<open>auto simp: hold_left_def poll_return_def\<close>)
  qed
qed

lemma user_can_step:
  assumes "y_user s \<notin> {U_none, U_done}" and "y_mutex s = None \<or> user_locks (y_user s)"
  shows "\<exists>t. user_step env s t"
proof (cases "y_user s = U_check")
  case True
  obtain turn where "uvc_user_caller_turn zero_alloc (se_info env) (y_last_seq s) (y_sh s) = turn" by simp
  then show ?thesis using True zero_alloc_ok(1)
    by (cases turn; cases "the turn")
       (auto intro: user_step.check_wait user_step.check_exit user_step.check_deliver user_step.check_fault)
next
  case False
  then show ?thesis using assms by (cases "y_user s") (auto intro: user_step.intros)
qed

lemma stream_event_can_step: "event_locks (y_event s) \<Longrightarrow> \<exists>t. event_step env s t"
  by (cases "y_event s") (auto intro: event_step.swap event_step.swap_unlock event_step.delete event_step.delete_unlock)

lemma poll_can_step:
  assumes "poll_locks (y_poll s)"
  shows "\<exists>t. poll_step env s t"
proof -
  have take: "\<exists>t. poll_step env s t" if "y_poll s = G_check n \<and> sh_last_polled_seq (y_sh s) < sh_hold_seq (y_sh s) \<or> y_poll s = G_recheck" for n
    using that zero_alloc_ok(1) by (cases "poll_take zero_alloc (se_info env) (y_sh s)") (auto intro: poll_step.take poll_step.take_fault poll_step.retake)
  show ?thesis
  proof (cases "y_poll s")
    case (G_check n)
    then show ?thesis using take [of n] by (cases "n = -1") (auto intro: poll_step.no_wait poll_step.wait)
  qed (use assms take in \<open>auto intro: poll_step.unlock\<close>)
qed

lemma holder_can_step:
  assumes "lock_inv s" and "y_mutex s = Some h" and "h \<noteq> T_main"
  shows "\<exists>t. holder_step env s t"
proof -
  have "user_locks (y_user s) \<Longrightarrow> y_user s \<notin> {U_none, U_done}" by auto
  then show ?thesis using assms stream_event_can_step [of s env] poll_can_step [of s env] user_can_step [of s env]
    by (cases h) (auto simp: holder_step_def lock_inv_def)
qed

lemma app_can_step:
  assumes "stopping s" and "y_mutex s = None \<or> main_locks (y_main s)" and "y_main s \<noteq> SM_join"
  shows "\<exists>t. app_step s t"
proof -
  have scan: "\<exists>t. halt_step s t" if "y_main s = SM_scan"
    using that by (cases "list_all (\<lambda>t. t = None) (sh_transfers (y_sh s))") (auto intro: halt_step.scan_empty halt_step.scan_wait)
  have timed: "\<exists>t. halt_step s t" if "y_main s = SM_timed_out" "y_mutex s = None"
    using that by (cases "y_attempts s + 1 < LIBUVC_STREAM_STOP_TIMEOUT_ATTEMPTS") (blast intro: halt_step.timed_out halt_step.give_up [OF _ _ leI])+
  have "\<exists>t. halt_step s t \<or> shut_step s t" using assms scan timed
    by (cases "y_main s")
       (auto intro: halt_step.flag halt_step.lock halt_step.cancel halt_step.time_out halt_step.woken halt_step.broadcast halt_step.unlock
          shut_step.enter shut_step.lock shut_step.scan shut_step.unlock shut_step.unlink shut_step.quarantine shut_step.release shut_step.free)
  then show ?thesis by (blast intro: app_step.intros)
qed

lemma join_can_step: "y_main s = SM_join \<Longrightarrow> \<not> sh_user_cb (y_sh s) \<or> y_user s = U_done \<Longrightarrow> \<exists>t. app_step s t"
  by (cases "sh_user_cb (y_sh s)") (blast intro: app_step.intros halt_step.join halt_step.no_join)+

section \<open>Waiting for frames\<close>

text \<open>
  A consumer sleeps only with nothing to see: it has been given the frame that was published last, or this one had
  errors and nobody was told.
\<close>

fun poll_waits :: "poll_pc \<Rightarrow> bool" where
  "poll_waits (G_waiting n) = True"
| "poll_waits _ = False"


lemma wake_news [simp]: "\<not> poll_waits (y_poll (wake_all s))"
  by (simp add: wake_all_def split: poll_pc.splits)

lemma polled_kept [simp]: "sh_last_polled_seq (drop_slot i t s) = sh_last_polled_seq s"
  "sh_last_polled_seq (start_setup fmt ts cb s) = sh_last_polled_seq s" "sh_last_polled_seq (delete_transfer x s) = sh_last_polled_seq s"
  "sh_last_polled_seq (swap_reset s) = sh_last_polled_seq s"
  by (simp_all add: drop_slot_def start_setup_def delete_transfer_def swap_reset_def split: option.splits)














section \<open>Properties\<close>





text \<open>
  C22: a stop or close is never stuck.  Each step of the application thread lowers a rank, at most 100, but for a wake-up
  before the time is over, after which it looks at the slots again.  It can step, or another thread holds the
  mutex and is on its way to the unlock (or leaves its buffers, with undefined behaviour), or it waits for the
  callback thread to end, which is on its way: each of its steps brings it nearer to its end.  No wake-up is lost:
  from the broadcast of the stop to the join the callback thread is not asleep, and does not fall asleep, so
  that none of this rests on a spurious wake-up.  A device that never completes its transfers cannot hang it.
\<close>

theorem stream_stop_progress:
  assumes "threads_reachable env s" and "stopping s"
  shows "stop_rank (y_main s) (y_attempts s) \<le> 100 \<and>
    (\<forall>t. app_step s t \<longrightarrow> stop_rank (y_main t) (y_attempts t) < stop_rank (y_main s) (y_attempts s) \<or>
       y_main s = SM_woken \<and> y_main t = SM_scan) \<and>
    ((\<exists>t. app_step s t) \<or>
     (\<exists>t. holder_step env s t) \<and> (\<forall>t. holder_step env s t \<longrightarrow> y_mutex t = None \<or> hold_left t < hold_left s \<or> y_fault t) \<or>
     y_main s = SM_join \<and> (\<exists>t. user_step env s t) \<and> (\<forall>t. user_step env s t \<longrightarrow> user_left (y_user t) < user_left (y_user s))) \<and>
    (y_main s = SM_stop_unlock \<or> y_main s = SM_join \<longrightarrow> y_user s \<notin> {U_waiting, U_wait_enter})"
proof -
  have sync: "run_inv s" "lock_inv s" "wait_inv s" using reachable_sync [OF assms(1)] by (simp_all add: sync_inv_def)
  note falls = stop_rank_falls [OF _ assms(2) reachable_attempts [OF assms(1)]]
  have "stop_rank (y_main s) (y_attempts s) \<le> 100" by (cases "y_main s") auto
  moreover consider (step) "\<exists>t. app_step s t" | (holder) "\<exists>t. holder_step env s t"
    | (join) "y_main s = SM_join" "sh_user_cb (y_sh s)" "y_user s \<noteq> U_done" "y_mutex s = None"
    using app_can_step [OF assms(2)] join_can_step [of s] holder_can_step [OF sync(2)] sync(2)
    by (cases "y_mutex s") (auto simp: lock_inv_def, metis main_locks.simps)
  then have "(\<exists>t. app_step s t) \<or>
     (\<exists>t. holder_step env s t) \<and> (\<forall>t. holder_step env s t \<longrightarrow> y_mutex t = None \<or> hold_left t < hold_left s \<or> y_fault t) \<or>
     y_main s = SM_join \<and> (\<exists>t. user_step env s t) \<and> (\<forall>t. user_step env s t \<longrightarrow> user_left (y_user t) < user_left (y_user s))"
  proof cases
    case join
    have "y_user s \<noteq> U_none" "\<not> sh_running (y_sh s)" using sync(1) join(1,2) by (auto simp: run_inv_def)
    then show ?thesis using user_can_step [of s env] user_left_falls join by auto
  qed (use hold_left_falls [OF _ sync(2)] in blast)+
  moreover have "y_main s = SM_stop_unlock \<or> y_main s = SM_join \<longrightarrow> y_user s \<notin> {U_waiting, U_wait_enter}"
    using sync(3) by (simp add: wait_inv_def)
  ultimately show ?thesis using falls by blast
qed

text \<open>
  A stream started with a callback: its thread finds no frame and sleeps, the stop wakes it and waits for its end.
\<close>

lemma run_stop_joins:
  "\<exists>s. threads_reachable sample_env s \<and> y_main s = SM_join \<and> y_user s = U_woken \<and> y_mutex s = None \<and> sh_user_cb (y_sh s)"
proof -
  have "replicate LIBUVC_NUM_TRANSFER_BUFS None = [None, None] @ replicate 98 (None :: nat option)" by (simp add: eval_nat_numeral)
  then obtain s where s: "threads_reachable sample_env s" "y_main s = SM_streaming" "y_mutex s = None" "sh_running (y_sh s)"
    "sh_user_cb (y_sh s)" "live (y_sh s) = {}" "y_user s = U_lock" "y_last_seq s = 0" "sh_hold_seq (y_sh s) = 0"
    using run_refused_start [OF sample_init, of None None True] by (auto simp: threads_init_def)
  have 1: "threads_reachable sample_env (s\<lparr> y_mutex := Some T_user, y_user := U_check \<rparr>)"
    using reach_user [OF s(1) user_step.lock] s by simp
  have "uvc_user_caller_turn zero_alloc (se_info sample_env) 0 (y_sh s) = Some Turn_wait" using s by (simp add: uvc_user_caller_turn_def)
  then have 2: "threads_reachable sample_env (s\<lparr> y_mutex := Some T_user, y_user := U_wait_enter \<rparr>)"
    using reach_user [OF 1 user_step.check_wait [OF _ zero_alloc_ok(1)]] s(8) by simp
  have 3: "threads_reachable sample_env (s\<lparr> y_mutex := None, y_user := U_waiting \<rparr>)" using reach_user [OF 2 user_step.wait_enter] by simp
  let ?s = "s\<lparr> y_mutex := None, y_user := U_waiting, y_closing := False \<rparr>"
  have 4: "threads_reachable sample_env (?s\<lparr> y_main := SM_stop_flag \<rparr>)" using reach_halt [OF 3 halt_step.call] s(2) by simp
  let ?t = "?s\<lparr> y_sh := (y_sh s)\<lparr> sh_running := False \<rparr>, y_mutex := Some T_main, y_attempts := 0, y_ret := UVC_SUCCESS \<rparr>"
  have 5: "threads_reachable sample_env (?t\<lparr> y_main := SM_scan \<rparr>)" using run_stop_begin [OF 4] by simp
  have 6: "threads_reachable sample_env (?t\<lparr> y_main := SM_broadcast \<rparr>)"
    using reach_halt [OF 5 halt_step.scan_empty] s(6) by (simp add: all_None_live)
  have 7: "threads_reachable sample_env ((wake_all (?t\<lparr> y_main := SM_broadcast \<rparr>))\<lparr> y_main := SM_stop_unlock \<rparr>)"
    using reach_halt [OF 6 halt_step.broadcast] by simp
  let ?u = "(wake_all (?t\<lparr> y_main := SM_broadcast \<rparr>))\<lparr> y_mutex := None, y_main := SM_join \<rparr>"
  have "threads_reachable sample_env ?u" using reach_halt [OF 7 halt_step.unlock] by simp
  moreover have "y_main ?u = SM_join \<and> y_user ?u = U_woken \<and> y_mutex ?u = None \<and> sh_user_cb (y_sh ?u)" using s(5) by (simp add: wake_all_def)
  ultimately show ?thesis by blast
qed

theorem stream_stop_progress_witness:
  "\<exists>s. threads_reachable sample_env s \<and> y_main s = SM_join \<and> y_user s = U_woken \<and> stop_rank (y_main s) (y_attempts s) \<le> 100 \<and>
     (\<exists>t. user_step sample_env s t) \<and> (\<forall>t. user_step sample_env s t \<longrightarrow> user_left (y_user t) < user_left (y_user s))"
proof -
  obtain s where s: "threads_reachable sample_env s" "y_main s = SM_join" "y_user s = U_woken" "y_mutex s = None" "sh_user_cb (y_sh s)"
    using run_stop_joins by blast
  have "\<not> holder_step sample_env s t" for t using s(4) by (simp add: holder_step_def)
  moreover have "\<not> app_step s t" for t using s
    by (auto elim!: app_step.cases start_step.cases halt_step.cases shut_step.cases)
  moreover have "stopping s" using s(2) by simp
  ultimately show ?thesis using stream_stop_progress [OF s(1)] s(1-3) by (intro exI [of _ s]) auto
qed

end
