(* ===== verification/Ctrl.thy ===== *)
theory Ctrl
  imports Stream_Ctrl
begin

text \<open>
  Camera, processing and selector unit controls (ctrl-gen.c, ctrl.c, and the unit getters of
  device.c).  Each \<^verbatim>\<open>uvc_get_*\<close> and \<^verbatim>\<open>uvc_set_*\<close> is one definition, with the offsets the code uses.
  \<^verbatim>\<open>libusb_control_transfer\<close> is the parameter of \<open>Stream_Ctrl\<close>.  The controls are then compared with a
  table: the unit, the selector and the field lengths that standard-units.yaml lists for each.
\<close>

section \<open>Units\<close>

type_synonym i8 = u8
type_synonym i16 = u16
type_synonym i32 = u32

text \<open>
  A signed integer is kept as its bit pattern.  A pointer to an element of a linked list is the list
  from that element on; a null pointer is the empty list.
\<close>

abbreviation UVC_ITT_CAMERA :: u16 where "UVC_ITT_CAMERA \<equiv> 0x0201"

fun find_camera :: "uvc_input_terminal list \<Rightarrow> uvc_input_terminal list" where
  "find_camera [] = []"
| "find_camera (t # ts) = (if it_wTerminalType t = UVC_ITT_CAMERA then t # ts else find_camera ts)"

definition uvc_get_input_terminals :: "uvc_device_info \<Rightarrow> uvc_input_terminal list" where
  "uvc_get_input_terminals info = ci_input_term_descs (in_ctrl_if info)"

definition uvc_get_camera_terminal :: "uvc_device_info \<Rightarrow> uvc_input_terminal list" where
  "uvc_get_camera_terminal info = find_camera (uvc_get_input_terminals info)"

definition uvc_get_selector_units :: "uvc_device_info \<Rightarrow> uvc_selector_unit list" where
  "uvc_get_selector_units info = ci_selector_unit_descs (in_ctrl_if info)"

definition uvc_get_processing_units :: "uvc_device_info \<Rightarrow> uvc_processing_unit list" where
  "uvc_get_processing_units info = ci_processing_unit_descs (in_ctrl_if info)"

definition uvc_get_extension_units :: "uvc_device_info \<Rightarrow> uvc_extension_unit list" where
  "uvc_get_extension_units info = ci_extension_unit_descs (in_ctrl_if info)"

text \<open>\<^verbatim>\<open>unit << 8 | devh->info->ctrl_if.bInterfaceNumber\<close>, as the 16-bit \<^verbatim>\<open>wIndex\<close>.\<close>

definition unit_index :: "u8 \<Rightarrow> uvc_device_info \<Rightarrow> u16" where
  "unit_index unit info = push_bit 8 (ucast unit) OR ucast (ci_bInterfaceNumber (in_ctrl_if info))"

definition camera_index :: "uvc_device_info \<Rightarrow> u16 option" where
  "camera_index info = do { t \<leftarrow> rd (uvc_get_camera_terminal info) 0; Some (unit_index (it_bTerminalID t) info) }"

definition processing_index :: "uvc_device_info \<Rightarrow> u16 option" where
  "processing_index info = do { p \<leftarrow> rd (uvc_get_processing_units info) 0; Some (unit_index (pu_bUnitID p) info) }"

definition selector_index :: "uvc_device_info \<Rightarrow> u16 option" where
  "selector_index info = do { s \<leftarrow> rd (uvc_get_selector_units info) 0; Some (unit_index (su_bUnitID s) info) }"

section \<open>The transfers\<close>

abbreviation REQ_TYPE_SET :: u8 where "REQ_TYPE_SET \<equiv> 0x21"
abbreviation REQ_TYPE_GET :: u8 where "REQ_TYPE_GET \<equiv> 0xa1"
abbreviation UVC_GET_LEN :: u8 where "UVC_GET_LEN \<equiv> 0x85"

text \<open>
  A local \<^verbatim>\<open>uint8_t data[n]\<close>: each byte is \<^term>\<open>None\<close> until it is written.  A setter that sends a byte
  it did not write has no defined result, and neither has a getter that reads a byte the transfer did
  not write.
\<close>

definition local_array :: "nat \<Rightarrow> u8 option list" where
  "local_array n = replicate n None"

definition put8 :: "u8 \<Rightarrow> u8 option list \<Rightarrow> nat \<Rightarrow> u8 option list option" where
  "put8 v data i = mem_put data i [Some v]"

definition SHORT_TO_SW_at :: "u16 \<Rightarrow> u8 option list \<Rightarrow> nat \<Rightarrow> u8 option list option" where
  "SHORT_TO_SW_at v data i = mem_put data i (map Some (SHORT_TO_SW v))"

definition INT_TO_DW_at :: "u32 \<Rightarrow> u8 option list \<Rightarrow> nat \<Rightarrow> u8 option list option" where
  "INT_TO_DW_at v data i = mem_put data i (map Some (INT_TO_DW v))"

definition control_get ::
  "'u control_transfer \<Rightarrow> u16 option \<Rightarrow> u8 \<Rightarrow> nat \<Rightarrow> (bytes \<Rightarrow> 'a option) \<Rightarrow> u8 \<Rightarrow> 'u \<Rightarrow> (int \<times> 'a option \<times> 'u) option" where
  "control_get ct index control n unpack req_code u = do {
     i \<leftarrow> index;
     let (ret, written, u) = ct REQ_TYPE_GET req_code (push_bit 8 (ucast control)) i (replicate n 0) u;
     if ret = int n then do { v \<leftarrow> unpack (take n written); Some (UVC_SUCCESS, Some v, u) }
     else Some (ret, None, u) }"

definition control_set ::
  "'u control_transfer \<Rightarrow> u16 option \<Rightarrow> u8 \<Rightarrow> u8 option list \<Rightarrow> 'u \<Rightarrow> (int \<times> 'u) option" where
  "control_set ct index control data u = do {
     i \<leftarrow> index;
     buf \<leftarrow> those data;
     let (ret, written, u) = ct REQ_TYPE_SET UVC_SET_CUR (push_bit 8 (ucast control)) i buf u;
     if ret = int (length data) then Some (UVC_SUCCESS, u) else Some (ret, u) }"

section \<open>Control selectors\<close>

abbreviation UVC_CT_SCANNING_MODE_CONTROL :: u8 where "UVC_CT_SCANNING_MODE_CONTROL \<equiv> 0x01"
abbreviation UVC_CT_AE_MODE_CONTROL :: u8 where "UVC_CT_AE_MODE_CONTROL \<equiv> 0x02"
abbreviation UVC_CT_AE_PRIORITY_CONTROL :: u8 where "UVC_CT_AE_PRIORITY_CONTROL \<equiv> 0x03"
abbreviation UVC_CT_EXPOSURE_TIME_ABSOLUTE_CONTROL :: u8 where "UVC_CT_EXPOSURE_TIME_ABSOLUTE_CONTROL \<equiv> 0x04"
abbreviation UVC_CT_EXPOSURE_TIME_RELATIVE_CONTROL :: u8 where "UVC_CT_EXPOSURE_TIME_RELATIVE_CONTROL \<equiv> 0x05"
abbreviation UVC_CT_FOCUS_ABSOLUTE_CONTROL :: u8 where "UVC_CT_FOCUS_ABSOLUTE_CONTROL \<equiv> 0x06"
abbreviation UVC_CT_FOCUS_RELATIVE_CONTROL :: u8 where "UVC_CT_FOCUS_RELATIVE_CONTROL \<equiv> 0x07"
abbreviation UVC_CT_FOCUS_AUTO_CONTROL :: u8 where "UVC_CT_FOCUS_AUTO_CONTROL \<equiv> 0x08"
abbreviation UVC_CT_IRIS_ABSOLUTE_CONTROL :: u8 where "UVC_CT_IRIS_ABSOLUTE_CONTROL \<equiv> 0x09"
abbreviation UVC_CT_IRIS_RELATIVE_CONTROL :: u8 where "UVC_CT_IRIS_RELATIVE_CONTROL \<equiv> 0x0a"
abbreviation UVC_CT_ZOOM_ABSOLUTE_CONTROL :: u8 where "UVC_CT_ZOOM_ABSOLUTE_CONTROL \<equiv> 0x0b"
abbreviation UVC_CT_ZOOM_RELATIVE_CONTROL :: u8 where "UVC_CT_ZOOM_RELATIVE_CONTROL \<equiv> 0x0c"
abbreviation UVC_CT_PANTILT_ABSOLUTE_CONTROL :: u8 where "UVC_CT_PANTILT_ABSOLUTE_CONTROL \<equiv> 0x0d"
abbreviation UVC_CT_PANTILT_RELATIVE_CONTROL :: u8 where "UVC_CT_PANTILT_RELATIVE_CONTROL \<equiv> 0x0e"
abbreviation UVC_CT_ROLL_ABSOLUTE_CONTROL :: u8 where "UVC_CT_ROLL_ABSOLUTE_CONTROL \<equiv> 0x0f"
abbreviation UVC_CT_ROLL_RELATIVE_CONTROL :: u8 where "UVC_CT_ROLL_RELATIVE_CONTROL \<equiv> 0x10"
abbreviation UVC_CT_PRIVACY_CONTROL :: u8 where "UVC_CT_PRIVACY_CONTROL \<equiv> 0x11"
abbreviation UVC_CT_FOCUS_SIMPLE_CONTROL :: u8 where "UVC_CT_FOCUS_SIMPLE_CONTROL \<equiv> 0x12"
abbreviation UVC_CT_DIGITAL_WINDOW_CONTROL :: u8 where "UVC_CT_DIGITAL_WINDOW_CONTROL \<equiv> 0x13"
abbreviation UVC_CT_REGION_OF_INTEREST_CONTROL :: u8 where "UVC_CT_REGION_OF_INTEREST_CONTROL \<equiv> 0x14"
abbreviation UVC_PU_BACKLIGHT_COMPENSATION_CONTROL :: u8 where "UVC_PU_BACKLIGHT_COMPENSATION_CONTROL \<equiv> 0x01"
abbreviation UVC_PU_BRIGHTNESS_CONTROL :: u8 where "UVC_PU_BRIGHTNESS_CONTROL \<equiv> 0x02"
abbreviation UVC_PU_CONTRAST_CONTROL :: u8 where "UVC_PU_CONTRAST_CONTROL \<equiv> 0x03"
abbreviation UVC_PU_GAIN_CONTROL :: u8 where "UVC_PU_GAIN_CONTROL \<equiv> 0x04"
abbreviation UVC_PU_POWER_LINE_FREQUENCY_CONTROL :: u8 where "UVC_PU_POWER_LINE_FREQUENCY_CONTROL \<equiv> 0x05"
abbreviation UVC_PU_HUE_CONTROL :: u8 where "UVC_PU_HUE_CONTROL \<equiv> 0x06"
abbreviation UVC_PU_SATURATION_CONTROL :: u8 where "UVC_PU_SATURATION_CONTROL \<equiv> 0x07"
abbreviation UVC_PU_SHARPNESS_CONTROL :: u8 where "UVC_PU_SHARPNESS_CONTROL \<equiv> 0x08"
abbreviation UVC_PU_GAMMA_CONTROL :: u8 where "UVC_PU_GAMMA_CONTROL \<equiv> 0x09"
abbreviation UVC_PU_WHITE_BALANCE_TEMPERATURE_CONTROL :: u8 where "UVC_PU_WHITE_BALANCE_TEMPERATURE_CONTROL \<equiv> 0x0a"
abbreviation UVC_PU_WHITE_BALANCE_TEMPERATURE_AUTO_CONTROL :: u8 where "UVC_PU_WHITE_BALANCE_TEMPERATURE_AUTO_CONTROL \<equiv> 0x0b"
abbreviation UVC_PU_WHITE_BALANCE_COMPONENT_CONTROL :: u8 where "UVC_PU_WHITE_BALANCE_COMPONENT_CONTROL \<equiv> 0x0c"
abbreviation UVC_PU_WHITE_BALANCE_COMPONENT_AUTO_CONTROL :: u8 where "UVC_PU_WHITE_BALANCE_COMPONENT_AUTO_CONTROL \<equiv> 0x0d"
abbreviation UVC_PU_DIGITAL_MULTIPLIER_CONTROL :: u8 where "UVC_PU_DIGITAL_MULTIPLIER_CONTROL \<equiv> 0x0e"
abbreviation UVC_PU_DIGITAL_MULTIPLIER_LIMIT_CONTROL :: u8 where "UVC_PU_DIGITAL_MULTIPLIER_LIMIT_CONTROL \<equiv> 0x0f"
abbreviation UVC_PU_HUE_AUTO_CONTROL :: u8 where "UVC_PU_HUE_AUTO_CONTROL \<equiv> 0x10"
abbreviation UVC_PU_ANALOG_VIDEO_STANDARD_CONTROL :: u8 where "UVC_PU_ANALOG_VIDEO_STANDARD_CONTROL \<equiv> 0x11"
abbreviation UVC_PU_ANALOG_LOCK_STATUS_CONTROL :: u8 where "UVC_PU_ANALOG_LOCK_STATUS_CONTROL \<equiv> 0x12"
abbreviation UVC_PU_CONTRAST_AUTO_CONTROL :: u8 where "UVC_PU_CONTRAST_AUTO_CONTROL \<equiv> 0x13"
abbreviation UVC_VC_VIDEO_POWER_MODE_CONTROL :: u8 where "UVC_VC_VIDEO_POWER_MODE_CONTROL \<equiv> 0x01"
abbreviation UVC_SU_INPUT_SELECT_CONTROL :: u8 where "UVC_SU_INPUT_SELECT_CONTROL \<equiv> 0x01"

section \<open>Generic controls and the power mode\<close>

definition uvc_get_ctrl_len :: "'u control_transfer \<Rightarrow> uvc_device_info \<Rightarrow> u8 \<Rightarrow> u8 \<Rightarrow> 'u \<Rightarrow> (int \<times> 'u) option" where
  "uvc_get_ctrl_len ct info unit ctrl u = do {
     let (ret, written, u) = ct REQ_TYPE_GET UVC_GET_LEN (push_bit 8 (ucast ctrl)) (unit_index unit info) (replicate 2 0) u;
     if ret < 0 then Some (ret, u)
     else do { v \<leftarrow> SW_TO_SHORT (take 2 written) 0; Some (uint v, u) } }"

text \<open>The caller's buffer has at least \<open>len\<close> bytes; \<^verbatim>\<open>wLength\<close> is 16 bits wide.\<close>

definition uvc_get_ctrl ::
  "'u control_transfer \<Rightarrow> uvc_device_info \<Rightarrow> u8 \<Rightarrow> u8 \<Rightarrow> bytes \<Rightarrow> int \<Rightarrow> u8 \<Rightarrow> 'u \<Rightarrow> int \<times> bytes \<times> 'u" where
  "uvc_get_ctrl ct info unit ctrl data len req_code u =
     (let (ret, written, u) = ct REQ_TYPE_GET req_code (push_bit 8 (ucast ctrl)) (unit_index unit info)
            (take (nat (len mod 65536)) data) u
      in (ret, overlay (take (nat (len mod 65536)) written) data, u))"

definition uvc_set_ctrl ::
  "'u control_transfer \<Rightarrow> uvc_device_info \<Rightarrow> u8 \<Rightarrow> u8 \<Rightarrow> bytes \<Rightarrow> int \<Rightarrow> 'u \<Rightarrow> int \<times> 'u" where
  "uvc_set_ctrl ct info unit ctrl data len u =
     (let (ret, written, u) = ct REQ_TYPE_SET UVC_SET_CUR (push_bit 8 (ucast ctrl)) (unit_index unit info)
            (take (nat (len mod 65536)) data) u
      in (ret, u))"

definition uvc_get_power_mode :: "'u control_transfer \<Rightarrow> uvc_device_info \<Rightarrow> u8 \<Rightarrow> 'u \<Rightarrow> (int \<times> u32 option \<times> 'u) option" where
  "uvc_get_power_mode ct info = control_get ct (Some (ucast (ci_bInterfaceNumber (in_ctrl_if info))))
     UVC_VC_VIDEO_POWER_MODE_CONTROL 1 (\<lambda>data. do { mode_char \<leftarrow> rd data 0; Some (ucast mode_char) })"

definition uvc_set_power_mode :: "'u control_transfer \<Rightarrow> uvc_device_info \<Rightarrow> u32 \<Rightarrow> 'u \<Rightarrow> (int \<times> 'u) option" where
  "uvc_set_power_mode ct info mode u = do {
     data \<leftarrow> put8 (ucast mode) (local_array 1) 0;
     control_set ct (Some (ucast (ci_bInterfaceNumber (in_ctrl_if info)))) UVC_VC_VIDEO_POWER_MODE_CONTROL data u }"

section \<open>Camera, processing and selector controls\<close>

definition uvc_get_scanning_mode ::
  "'u control_transfer \<Rightarrow> uvc_device_info \<Rightarrow> u8 \<Rightarrow> 'u \<Rightarrow> (int \<times> u8 option \<times> 'u) option" where
  "uvc_get_scanning_mode ct info = control_get ct (camera_index info) UVC_CT_SCANNING_MODE_CONTROL 1
     (\<lambda>data. do { mode \<leftarrow> rd data 0; Some mode })"

definition uvc_set_scanning_mode ::
  "'u control_transfer \<Rightarrow> uvc_device_info \<Rightarrow> u8 \<Rightarrow> 'u \<Rightarrow> (int \<times> 'u) option" where
  "uvc_set_scanning_mode ct info mode u = do {
     let data = local_array 1;
     data \<leftarrow> put8 mode data 0;
     control_set ct (camera_index info) UVC_CT_SCANNING_MODE_CONTROL data u }"

definition uvc_get_ae_mode ::
  "'u control_transfer \<Rightarrow> uvc_device_info \<Rightarrow> u8 \<Rightarrow> 'u \<Rightarrow> (int \<times> u8 option \<times> 'u) option" where
  "uvc_get_ae_mode ct info = control_get ct (camera_index info) UVC_CT_AE_MODE_CONTROL 1
     (\<lambda>data. do { mode \<leftarrow> rd data 0; Some mode })"

definition uvc_set_ae_mode ::
  "'u control_transfer \<Rightarrow> uvc_device_info \<Rightarrow> u8 \<Rightarrow> 'u \<Rightarrow> (int \<times> 'u) option" where
  "uvc_set_ae_mode ct info mode u = do {
     let data = local_array 1;
     data \<leftarrow> put8 mode data 0;
     control_set ct (camera_index info) UVC_CT_AE_MODE_CONTROL data u }"

definition uvc_get_ae_priority ::
  "'u control_transfer \<Rightarrow> uvc_device_info \<Rightarrow> u8 \<Rightarrow> 'u \<Rightarrow> (int \<times> u8 option \<times> 'u) option" where
  "uvc_get_ae_priority ct info = control_get ct (camera_index info) UVC_CT_AE_PRIORITY_CONTROL 1
     (\<lambda>data. do { priority \<leftarrow> rd data 0; Some priority })"

definition uvc_set_ae_priority ::
  "'u control_transfer \<Rightarrow> uvc_device_info \<Rightarrow> u8 \<Rightarrow> 'u \<Rightarrow> (int \<times> 'u) option" where
  "uvc_set_ae_priority ct info priority u = do {
     let data = local_array 1;
     data \<leftarrow> put8 priority data 0;
     control_set ct (camera_index info) UVC_CT_AE_PRIORITY_CONTROL data u }"

definition uvc_get_exposure_abs ::
  "'u control_transfer \<Rightarrow> uvc_device_info \<Rightarrow> u8 \<Rightarrow> 'u \<Rightarrow> (int \<times> u32 option \<times> 'u) option" where
  "uvc_get_exposure_abs ct info = control_get ct (camera_index info) UVC_CT_EXPOSURE_TIME_ABSOLUTE_CONTROL 4
     (\<lambda>data. do { time \<leftarrow> DW_TO_INT data 0; Some time })"

definition uvc_set_exposure_abs ::
  "'u control_transfer \<Rightarrow> uvc_device_info \<Rightarrow> u32 \<Rightarrow> 'u \<Rightarrow> (int \<times> 'u) option" where
  "uvc_set_exposure_abs ct info time u = do {
     let data = local_array 4;
     data \<leftarrow> INT_TO_DW_at time data 0;
     control_set ct (camera_index info) UVC_CT_EXPOSURE_TIME_ABSOLUTE_CONTROL data u }"

definition uvc_get_exposure_rel ::
  "'u control_transfer \<Rightarrow> uvc_device_info \<Rightarrow> u8 \<Rightarrow> 'u \<Rightarrow> (int \<times> i8 option \<times> 'u) option" where
  "uvc_get_exposure_rel ct info = control_get ct (camera_index info) UVC_CT_EXPOSURE_TIME_RELATIVE_CONTROL 1
     (\<lambda>data. do { step \<leftarrow> rd data 0; Some step })"

definition uvc_set_exposure_rel ::
  "'u control_transfer \<Rightarrow> uvc_device_info \<Rightarrow> i8 \<Rightarrow> 'u \<Rightarrow> (int \<times> 'u) option" where
  "uvc_set_exposure_rel ct info step u = do {
     let data = local_array 1;
     data \<leftarrow> put8 step data 0;
     control_set ct (camera_index info) UVC_CT_EXPOSURE_TIME_RELATIVE_CONTROL data u }"

definition uvc_get_focus_abs ::
  "'u control_transfer \<Rightarrow> uvc_device_info \<Rightarrow> u8 \<Rightarrow> 'u \<Rightarrow> (int \<times> u16 option \<times> 'u) option" where
  "uvc_get_focus_abs ct info = control_get ct (camera_index info) UVC_CT_FOCUS_ABSOLUTE_CONTROL 2
     (\<lambda>data. do { focus \<leftarrow> SW_TO_SHORT data 0; Some focus })"

definition uvc_set_focus_abs ::
  "'u control_transfer \<Rightarrow> uvc_device_info \<Rightarrow> u16 \<Rightarrow> 'u \<Rightarrow> (int \<times> 'u) option" where
  "uvc_set_focus_abs ct info focus u = do {
     let data = local_array 2;
     data \<leftarrow> SHORT_TO_SW_at focus data 0;
     control_set ct (camera_index info) UVC_CT_FOCUS_ABSOLUTE_CONTROL data u }"

definition uvc_get_focus_rel ::
  "'u control_transfer \<Rightarrow> uvc_device_info \<Rightarrow> u8 \<Rightarrow> 'u \<Rightarrow> (int \<times> (i8 \<times> u8) option \<times> 'u) option" where
  "uvc_get_focus_rel ct info = control_get ct (camera_index info) UVC_CT_FOCUS_RELATIVE_CONTROL 2
     (\<lambda>data. do { focus_rel \<leftarrow> rd data 0; speed \<leftarrow> rd data 1; Some (focus_rel, speed) })"

definition uvc_set_focus_rel ::
  "'u control_transfer \<Rightarrow> uvc_device_info \<Rightarrow> i8 \<Rightarrow> u8 \<Rightarrow> 'u \<Rightarrow> (int \<times> 'u) option" where
  "uvc_set_focus_rel ct info focus_rel speed u = do {
     let data = local_array 2;
     data \<leftarrow> put8 focus_rel data 0;
     data \<leftarrow> put8 speed data 1;
     control_set ct (camera_index info) UVC_CT_FOCUS_RELATIVE_CONTROL data u }"

definition uvc_get_focus_simple_range ::
  "'u control_transfer \<Rightarrow> uvc_device_info \<Rightarrow> u8 \<Rightarrow> 'u \<Rightarrow> (int \<times> u8 option \<times> 'u) option" where
  "uvc_get_focus_simple_range ct info = control_get ct (camera_index info) UVC_CT_FOCUS_SIMPLE_CONTROL 1
     (\<lambda>data. do { focus \<leftarrow> rd data 0; Some focus })"

definition uvc_set_focus_simple_range ::
  "'u control_transfer \<Rightarrow> uvc_device_info \<Rightarrow> u8 \<Rightarrow> 'u \<Rightarrow> (int \<times> 'u) option" where
  "uvc_set_focus_simple_range ct info focus u = do {
     let data = local_array 1;
     data \<leftarrow> put8 focus data 0;
     control_set ct (camera_index info) UVC_CT_FOCUS_SIMPLE_CONTROL data u }"

definition uvc_get_focus_auto ::
  "'u control_transfer \<Rightarrow> uvc_device_info \<Rightarrow> u8 \<Rightarrow> 'u \<Rightarrow> (int \<times> u8 option \<times> 'u) option" where
  "uvc_get_focus_auto ct info = control_get ct (camera_index info) UVC_CT_FOCUS_AUTO_CONTROL 1
     (\<lambda>data. do { state \<leftarrow> rd data 0; Some state })"

definition uvc_set_focus_auto ::
  "'u control_transfer \<Rightarrow> uvc_device_info \<Rightarrow> u8 \<Rightarrow> 'u \<Rightarrow> (int \<times> 'u) option" where
  "uvc_set_focus_auto ct info state u = do {
     let data = local_array 1;
     data \<leftarrow> put8 state data 0;
     control_set ct (camera_index info) UVC_CT_FOCUS_AUTO_CONTROL data u }"

definition uvc_get_iris_abs ::
  "'u control_transfer \<Rightarrow> uvc_device_info \<Rightarrow> u8 \<Rightarrow> 'u \<Rightarrow> (int \<times> u16 option \<times> 'u) option" where
  "uvc_get_iris_abs ct info = control_get ct (camera_index info) UVC_CT_IRIS_ABSOLUTE_CONTROL 2
     (\<lambda>data. do { iris \<leftarrow> SW_TO_SHORT data 0; Some iris })"

definition uvc_set_iris_abs ::
  "'u control_transfer \<Rightarrow> uvc_device_info \<Rightarrow> u16 \<Rightarrow> 'u \<Rightarrow> (int \<times> 'u) option" where
  "uvc_set_iris_abs ct info iris u = do {
     let data = local_array 2;
     data \<leftarrow> SHORT_TO_SW_at iris data 0;
     control_set ct (camera_index info) UVC_CT_IRIS_ABSOLUTE_CONTROL data u }"

definition uvc_get_iris_rel ::
  "'u control_transfer \<Rightarrow> uvc_device_info \<Rightarrow> u8 \<Rightarrow> 'u \<Rightarrow> (int \<times> u8 option \<times> 'u) option" where
  "uvc_get_iris_rel ct info = control_get ct (camera_index info) UVC_CT_IRIS_RELATIVE_CONTROL 1
     (\<lambda>data. do { iris_rel \<leftarrow> rd data 0; Some iris_rel })"

definition uvc_set_iris_rel ::
  "'u control_transfer \<Rightarrow> uvc_device_info \<Rightarrow> u8 \<Rightarrow> 'u \<Rightarrow> (int \<times> 'u) option" where
  "uvc_set_iris_rel ct info iris_rel u = do {
     let data = local_array 1;
     data \<leftarrow> put8 iris_rel data 0;
     control_set ct (camera_index info) UVC_CT_IRIS_RELATIVE_CONTROL data u }"

definition uvc_get_zoom_abs ::
  "'u control_transfer \<Rightarrow> uvc_device_info \<Rightarrow> u8 \<Rightarrow> 'u \<Rightarrow> (int \<times> u16 option \<times> 'u) option" where
  "uvc_get_zoom_abs ct info = control_get ct (camera_index info) UVC_CT_ZOOM_ABSOLUTE_CONTROL 2
     (\<lambda>data. do { focal_length \<leftarrow> SW_TO_SHORT data 0; Some focal_length })"

definition uvc_set_zoom_abs ::
  "'u control_transfer \<Rightarrow> uvc_device_info \<Rightarrow> u16 \<Rightarrow> 'u \<Rightarrow> (int \<times> 'u) option" where
  "uvc_set_zoom_abs ct info focal_length u = do {
     let data = local_array 2;
     data \<leftarrow> SHORT_TO_SW_at focal_length data 0;
     control_set ct (camera_index info) UVC_CT_ZOOM_ABSOLUTE_CONTROL data u }"

definition uvc_get_zoom_rel ::
  "'u control_transfer \<Rightarrow> uvc_device_info \<Rightarrow> u8 \<Rightarrow> 'u \<Rightarrow> (int \<times> (i8 \<times> u8 \<times> u8) option \<times> 'u) option" where
  "uvc_get_zoom_rel ct info = control_get ct (camera_index info) UVC_CT_ZOOM_RELATIVE_CONTROL 3
     (\<lambda>data. do { zoom_rel \<leftarrow> rd data 0; digital_zoom \<leftarrow> rd data 1; speed \<leftarrow> rd data 2; Some (zoom_rel, digital_zoom, speed) })"

definition uvc_set_zoom_rel ::
  "'u control_transfer \<Rightarrow> uvc_device_info \<Rightarrow> i8 \<Rightarrow> u8 \<Rightarrow> u8 \<Rightarrow> 'u \<Rightarrow> (int \<times> 'u) option" where
  "uvc_set_zoom_rel ct info zoom_rel digital_zoom speed u = do {
     let data = local_array 3;
     data \<leftarrow> put8 zoom_rel data 0;
     data \<leftarrow> put8 digital_zoom data 1;
     data \<leftarrow> put8 speed data 2;
     control_set ct (camera_index info) UVC_CT_ZOOM_RELATIVE_CONTROL data u }"

definition uvc_get_pantilt_abs ::
  "'u control_transfer \<Rightarrow> uvc_device_info \<Rightarrow> u8 \<Rightarrow> 'u \<Rightarrow> (int \<times> (i32 \<times> i32) option \<times> 'u) option" where
  "uvc_get_pantilt_abs ct info = control_get ct (camera_index info) UVC_CT_PANTILT_ABSOLUTE_CONTROL 8
     (\<lambda>data. do { pan \<leftarrow> DW_TO_INT data 0; tilt \<leftarrow> DW_TO_INT data 4; Some (pan, tilt) })"

definition uvc_set_pantilt_abs ::
  "'u control_transfer \<Rightarrow> uvc_device_info \<Rightarrow> i32 \<Rightarrow> i32 \<Rightarrow> 'u \<Rightarrow> (int \<times> 'u) option" where
  "uvc_set_pantilt_abs ct info pan tilt u = do {
     let data = local_array 8;
     data \<leftarrow> INT_TO_DW_at pan data 0;
     data \<leftarrow> INT_TO_DW_at tilt data 4;
     control_set ct (camera_index info) UVC_CT_PANTILT_ABSOLUTE_CONTROL data u }"

definition uvc_get_pantilt_rel ::
  "'u control_transfer \<Rightarrow> uvc_device_info \<Rightarrow> u8 \<Rightarrow> 'u \<Rightarrow> (int \<times> (i8 \<times> u8 \<times> i8 \<times> u8) option \<times> 'u) option" where
  "uvc_get_pantilt_rel ct info = control_get ct (camera_index info) UVC_CT_PANTILT_RELATIVE_CONTROL 4
     (\<lambda>data. do { pan_rel \<leftarrow> rd data 0; pan_speed \<leftarrow> rd data 1; tilt_rel \<leftarrow> rd data 2; tilt_speed \<leftarrow> rd data 3; Some (pan_rel, pan_speed, tilt_rel, tilt_speed) })"

definition uvc_set_pantilt_rel ::
  "'u control_transfer \<Rightarrow> uvc_device_info \<Rightarrow> i8 \<Rightarrow> u8 \<Rightarrow> i8 \<Rightarrow> u8 \<Rightarrow> 'u \<Rightarrow> (int \<times> 'u) option" where
  "uvc_set_pantilt_rel ct info pan_rel pan_speed tilt_rel tilt_speed u = do {
     let data = local_array 4;
     data \<leftarrow> put8 pan_rel data 0;
     data \<leftarrow> put8 pan_speed data 1;
     data \<leftarrow> put8 tilt_rel data 2;
     data \<leftarrow> put8 tilt_speed data 3;
     control_set ct (camera_index info) UVC_CT_PANTILT_RELATIVE_CONTROL data u }"

definition uvc_get_roll_abs ::
  "'u control_transfer \<Rightarrow> uvc_device_info \<Rightarrow> u8 \<Rightarrow> 'u \<Rightarrow> (int \<times> i16 option \<times> 'u) option" where
  "uvc_get_roll_abs ct info = control_get ct (camera_index info) UVC_CT_ROLL_ABSOLUTE_CONTROL 2
     (\<lambda>data. do { roll \<leftarrow> SW_TO_SHORT data 0; Some roll })"

definition uvc_set_roll_abs ::
  "'u control_transfer \<Rightarrow> uvc_device_info \<Rightarrow> i16 \<Rightarrow> 'u \<Rightarrow> (int \<times> 'u) option" where
  "uvc_set_roll_abs ct info roll u = do {
     let data = local_array 2;
     data \<leftarrow> SHORT_TO_SW_at roll data 0;
     control_set ct (camera_index info) UVC_CT_ROLL_ABSOLUTE_CONTROL data u }"

definition uvc_get_roll_rel ::
  "'u control_transfer \<Rightarrow> uvc_device_info \<Rightarrow> u8 \<Rightarrow> 'u \<Rightarrow> (int \<times> (i8 \<times> u8) option \<times> 'u) option" where
  "uvc_get_roll_rel ct info = control_get ct (camera_index info) UVC_CT_ROLL_RELATIVE_CONTROL 2
     (\<lambda>data. do { roll_rel \<leftarrow> rd data 0; speed \<leftarrow> rd data 1; Some (roll_rel, speed) })"

definition uvc_set_roll_rel ::
  "'u control_transfer \<Rightarrow> uvc_device_info \<Rightarrow> i8 \<Rightarrow> u8 \<Rightarrow> 'u \<Rightarrow> (int \<times> 'u) option" where
  "uvc_set_roll_rel ct info roll_rel speed u = do {
     let data = local_array 2;
     data \<leftarrow> put8 roll_rel data 0;
     data \<leftarrow> put8 speed data 1;
     control_set ct (camera_index info) UVC_CT_ROLL_RELATIVE_CONTROL data u }"

definition uvc_get_privacy ::
  "'u control_transfer \<Rightarrow> uvc_device_info \<Rightarrow> u8 \<Rightarrow> 'u \<Rightarrow> (int \<times> u8 option \<times> 'u) option" where
  "uvc_get_privacy ct info = control_get ct (camera_index info) UVC_CT_PRIVACY_CONTROL 1
     (\<lambda>data. do { privacy \<leftarrow> rd data 0; Some privacy })"

definition uvc_set_privacy ::
  "'u control_transfer \<Rightarrow> uvc_device_info \<Rightarrow> u8 \<Rightarrow> 'u \<Rightarrow> (int \<times> 'u) option" where
  "uvc_set_privacy ct info privacy u = do {
     let data = local_array 1;
     data \<leftarrow> put8 privacy data 0;
     control_set ct (camera_index info) UVC_CT_PRIVACY_CONTROL data u }"

definition uvc_get_digital_window ::
  "'u control_transfer \<Rightarrow> uvc_device_info \<Rightarrow> u8 \<Rightarrow> 'u \<Rightarrow> (int \<times> (u16 \<times> u16 \<times> u16 \<times> u16 \<times> u16 \<times> u16) option \<times> 'u) option" where
  "uvc_get_digital_window ct info = control_get ct (camera_index info) UVC_CT_DIGITAL_WINDOW_CONTROL 12
     (\<lambda>data. do { window_top \<leftarrow> SW_TO_SHORT data 0; window_left \<leftarrow> SW_TO_SHORT data 2; window_bottom \<leftarrow> SW_TO_SHORT data 4; window_right \<leftarrow> SW_TO_SHORT data 6; num_steps \<leftarrow> SW_TO_SHORT data 8; num_steps_units \<leftarrow> SW_TO_SHORT data 10; Some (window_top, window_left, window_bottom, window_right, num_steps, num_steps_units) })"

definition uvc_set_digital_window ::
  "'u control_transfer \<Rightarrow> uvc_device_info \<Rightarrow> u16 \<Rightarrow> u16 \<Rightarrow> u16 \<Rightarrow> u16 \<Rightarrow> u16 \<Rightarrow> u16 \<Rightarrow> 'u \<Rightarrow> (int \<times> 'u) option" where
  "uvc_set_digital_window ct info window_top window_left window_bottom window_right num_steps num_steps_units u = do {
     let data = local_array 12;
     data \<leftarrow> SHORT_TO_SW_at window_top data 0;
     data \<leftarrow> SHORT_TO_SW_at window_left data 2;
     data \<leftarrow> SHORT_TO_SW_at window_bottom data 4;
     data \<leftarrow> SHORT_TO_SW_at window_right data 6;
     data \<leftarrow> SHORT_TO_SW_at num_steps data 8;
     data \<leftarrow> SHORT_TO_SW_at num_steps_units data 10;
     control_set ct (camera_index info) UVC_CT_DIGITAL_WINDOW_CONTROL data u }"

definition uvc_get_digital_roi ::
  "'u control_transfer \<Rightarrow> uvc_device_info \<Rightarrow> u8 \<Rightarrow> 'u \<Rightarrow> (int \<times> (u16 \<times> u16 \<times> u16 \<times> u16 \<times> u16) option \<times> 'u) option" where
  "uvc_get_digital_roi ct info = control_get ct (camera_index info) UVC_CT_REGION_OF_INTEREST_CONTROL 10
     (\<lambda>data. do { roi_top \<leftarrow> SW_TO_SHORT data 0; roi_left \<leftarrow> SW_TO_SHORT data 2; roi_bottom \<leftarrow> SW_TO_SHORT data 4; roi_right \<leftarrow> SW_TO_SHORT data 6; auto_controls \<leftarrow> SW_TO_SHORT data 8; Some (roi_top, roi_left, roi_bottom, roi_right, auto_controls) })"

definition uvc_set_digital_roi ::
  "'u control_transfer \<Rightarrow> uvc_device_info \<Rightarrow> u16 \<Rightarrow> u16 \<Rightarrow> u16 \<Rightarrow> u16 \<Rightarrow> u16 \<Rightarrow> 'u \<Rightarrow> (int \<times> 'u) option" where
  "uvc_set_digital_roi ct info roi_top roi_left roi_bottom roi_right auto_controls u = do {
     let data = local_array 10;
     data \<leftarrow> SHORT_TO_SW_at roi_top data 0;
     data \<leftarrow> SHORT_TO_SW_at roi_left data 2;
     data \<leftarrow> SHORT_TO_SW_at roi_bottom data 4;
     data \<leftarrow> SHORT_TO_SW_at roi_right data 6;
     data \<leftarrow> SHORT_TO_SW_at auto_controls data 8;
     control_set ct (camera_index info) UVC_CT_REGION_OF_INTEREST_CONTROL data u }"

definition uvc_get_backlight_compensation ::
  "'u control_transfer \<Rightarrow> uvc_device_info \<Rightarrow> u8 \<Rightarrow> 'u \<Rightarrow> (int \<times> u16 option \<times> 'u) option" where
  "uvc_get_backlight_compensation ct info = control_get ct (processing_index info) UVC_PU_BACKLIGHT_COMPENSATION_CONTROL 2
     (\<lambda>data. do { backlight_compensation \<leftarrow> SW_TO_SHORT data 0; Some backlight_compensation })"

definition uvc_set_backlight_compensation ::
  "'u control_transfer \<Rightarrow> uvc_device_info \<Rightarrow> u16 \<Rightarrow> 'u \<Rightarrow> (int \<times> 'u) option" where
  "uvc_set_backlight_compensation ct info backlight_compensation u = do {
     let data = local_array 2;
     data \<leftarrow> SHORT_TO_SW_at backlight_compensation data 0;
     control_set ct (processing_index info) UVC_PU_BACKLIGHT_COMPENSATION_CONTROL data u }"

definition uvc_get_brightness ::
  "'u control_transfer \<Rightarrow> uvc_device_info \<Rightarrow> u8 \<Rightarrow> 'u \<Rightarrow> (int \<times> i16 option \<times> 'u) option" where
  "uvc_get_brightness ct info = control_get ct (processing_index info) UVC_PU_BRIGHTNESS_CONTROL 2
     (\<lambda>data. do { brightness \<leftarrow> SW_TO_SHORT data 0; Some brightness })"

definition uvc_set_brightness ::
  "'u control_transfer \<Rightarrow> uvc_device_info \<Rightarrow> i16 \<Rightarrow> 'u \<Rightarrow> (int \<times> 'u) option" where
  "uvc_set_brightness ct info brightness u = do {
     let data = local_array 2;
     data \<leftarrow> SHORT_TO_SW_at brightness data 0;
     control_set ct (processing_index info) UVC_PU_BRIGHTNESS_CONTROL data u }"

definition uvc_get_contrast ::
  "'u control_transfer \<Rightarrow> uvc_device_info \<Rightarrow> u8 \<Rightarrow> 'u \<Rightarrow> (int \<times> u16 option \<times> 'u) option" where
  "uvc_get_contrast ct info = control_get ct (processing_index info) UVC_PU_CONTRAST_CONTROL 2
     (\<lambda>data. do { contrast \<leftarrow> SW_TO_SHORT data 0; Some contrast })"

definition uvc_set_contrast ::
  "'u control_transfer \<Rightarrow> uvc_device_info \<Rightarrow> u16 \<Rightarrow> 'u \<Rightarrow> (int \<times> 'u) option" where
  "uvc_set_contrast ct info contrast u = do {
     let data = local_array 2;
     data \<leftarrow> SHORT_TO_SW_at contrast data 0;
     control_set ct (processing_index info) UVC_PU_CONTRAST_CONTROL data u }"

definition uvc_get_contrast_auto ::
  "'u control_transfer \<Rightarrow> uvc_device_info \<Rightarrow> u8 \<Rightarrow> 'u \<Rightarrow> (int \<times> u8 option \<times> 'u) option" where
  "uvc_get_contrast_auto ct info = control_get ct (processing_index info) UVC_PU_CONTRAST_AUTO_CONTROL 1
     (\<lambda>data. do { contrast_auto \<leftarrow> rd data 0; Some contrast_auto })"

definition uvc_set_contrast_auto ::
  "'u control_transfer \<Rightarrow> uvc_device_info \<Rightarrow> u8 \<Rightarrow> 'u \<Rightarrow> (int \<times> 'u) option" where
  "uvc_set_contrast_auto ct info contrast_auto u = do {
     let data = local_array 1;
     data \<leftarrow> put8 contrast_auto data 0;
     control_set ct (processing_index info) UVC_PU_CONTRAST_AUTO_CONTROL data u }"

definition uvc_get_gain ::
  "'u control_transfer \<Rightarrow> uvc_device_info \<Rightarrow> u8 \<Rightarrow> 'u \<Rightarrow> (int \<times> u16 option \<times> 'u) option" where
  "uvc_get_gain ct info = control_get ct (processing_index info) UVC_PU_GAIN_CONTROL 2
     (\<lambda>data. do { gain \<leftarrow> SW_TO_SHORT data 0; Some gain })"

definition uvc_set_gain ::
  "'u control_transfer \<Rightarrow> uvc_device_info \<Rightarrow> u16 \<Rightarrow> 'u \<Rightarrow> (int \<times> 'u) option" where
  "uvc_set_gain ct info gain u = do {
     let data = local_array 2;
     data \<leftarrow> SHORT_TO_SW_at gain data 0;
     control_set ct (processing_index info) UVC_PU_GAIN_CONTROL data u }"

definition uvc_get_power_line_frequency ::
  "'u control_transfer \<Rightarrow> uvc_device_info \<Rightarrow> u8 \<Rightarrow> 'u \<Rightarrow> (int \<times> u8 option \<times> 'u) option" where
  "uvc_get_power_line_frequency ct info = control_get ct (processing_index info) UVC_PU_POWER_LINE_FREQUENCY_CONTROL 1
     (\<lambda>data. do { power_line_frequency \<leftarrow> rd data 0; Some power_line_frequency })"

definition uvc_set_power_line_frequency ::
  "'u control_transfer \<Rightarrow> uvc_device_info \<Rightarrow> u8 \<Rightarrow> 'u \<Rightarrow> (int \<times> 'u) option" where
  "uvc_set_power_line_frequency ct info power_line_frequency u = do {
     let data = local_array 1;
     data \<leftarrow> put8 power_line_frequency data 0;
     control_set ct (processing_index info) UVC_PU_POWER_LINE_FREQUENCY_CONTROL data u }"

definition uvc_get_hue ::
  "'u control_transfer \<Rightarrow> uvc_device_info \<Rightarrow> u8 \<Rightarrow> 'u \<Rightarrow> (int \<times> i16 option \<times> 'u) option" where
  "uvc_get_hue ct info = control_get ct (processing_index info) UVC_PU_HUE_CONTROL 2
     (\<lambda>data. do { hue \<leftarrow> SW_TO_SHORT data 0; Some hue })"

definition uvc_set_hue ::
  "'u control_transfer \<Rightarrow> uvc_device_info \<Rightarrow> i16 \<Rightarrow> 'u \<Rightarrow> (int \<times> 'u) option" where
  "uvc_set_hue ct info hue u = do {
     let data = local_array 2;
     data \<leftarrow> SHORT_TO_SW_at hue data 0;
     control_set ct (processing_index info) UVC_PU_HUE_CONTROL data u }"

definition uvc_get_hue_auto ::
  "'u control_transfer \<Rightarrow> uvc_device_info \<Rightarrow> u8 \<Rightarrow> 'u \<Rightarrow> (int \<times> u8 option \<times> 'u) option" where
  "uvc_get_hue_auto ct info = control_get ct (processing_index info) UVC_PU_HUE_AUTO_CONTROL 1
     (\<lambda>data. do { hue_auto \<leftarrow> rd data 0; Some hue_auto })"

definition uvc_set_hue_auto ::
  "'u control_transfer \<Rightarrow> uvc_device_info \<Rightarrow> u8 \<Rightarrow> 'u \<Rightarrow> (int \<times> 'u) option" where
  "uvc_set_hue_auto ct info hue_auto u = do {
     let data = local_array 1;
     data \<leftarrow> put8 hue_auto data 0;
     control_set ct (processing_index info) UVC_PU_HUE_AUTO_CONTROL data u }"

definition uvc_get_saturation ::
  "'u control_transfer \<Rightarrow> uvc_device_info \<Rightarrow> u8 \<Rightarrow> 'u \<Rightarrow> (int \<times> u16 option \<times> 'u) option" where
  "uvc_get_saturation ct info = control_get ct (processing_index info) UVC_PU_SATURATION_CONTROL 2
     (\<lambda>data. do { saturation \<leftarrow> SW_TO_SHORT data 0; Some saturation })"

definition uvc_set_saturation ::
  "'u control_transfer \<Rightarrow> uvc_device_info \<Rightarrow> u16 \<Rightarrow> 'u \<Rightarrow> (int \<times> 'u) option" where
  "uvc_set_saturation ct info saturation u = do {
     let data = local_array 2;
     data \<leftarrow> SHORT_TO_SW_at saturation data 0;
     control_set ct (processing_index info) UVC_PU_SATURATION_CONTROL data u }"

definition uvc_get_sharpness ::
  "'u control_transfer \<Rightarrow> uvc_device_info \<Rightarrow> u8 \<Rightarrow> 'u \<Rightarrow> (int \<times> u16 option \<times> 'u) option" where
  "uvc_get_sharpness ct info = control_get ct (processing_index info) UVC_PU_SHARPNESS_CONTROL 2
     (\<lambda>data. do { sharpness \<leftarrow> SW_TO_SHORT data 0; Some sharpness })"

definition uvc_set_sharpness ::
  "'u control_transfer \<Rightarrow> uvc_device_info \<Rightarrow> u16 \<Rightarrow> 'u \<Rightarrow> (int \<times> 'u) option" where
  "uvc_set_sharpness ct info sharpness u = do {
     let data = local_array 2;
     data \<leftarrow> SHORT_TO_SW_at sharpness data 0;
     control_set ct (processing_index info) UVC_PU_SHARPNESS_CONTROL data u }"

definition uvc_get_gamma ::
  "'u control_transfer \<Rightarrow> uvc_device_info \<Rightarrow> u8 \<Rightarrow> 'u \<Rightarrow> (int \<times> u16 option \<times> 'u) option" where
  "uvc_get_gamma ct info = control_get ct (processing_index info) UVC_PU_GAMMA_CONTROL 2
     (\<lambda>data. do { gamma \<leftarrow> SW_TO_SHORT data 0; Some gamma })"

definition uvc_set_gamma ::
  "'u control_transfer \<Rightarrow> uvc_device_info \<Rightarrow> u16 \<Rightarrow> 'u \<Rightarrow> (int \<times> 'u) option" where
  "uvc_set_gamma ct info gamma u = do {
     let data = local_array 2;
     data \<leftarrow> SHORT_TO_SW_at gamma data 0;
     control_set ct (processing_index info) UVC_PU_GAMMA_CONTROL data u }"

definition uvc_get_white_balance_temperature ::
  "'u control_transfer \<Rightarrow> uvc_device_info \<Rightarrow> u8 \<Rightarrow> 'u \<Rightarrow> (int \<times> u16 option \<times> 'u) option" where
  "uvc_get_white_balance_temperature ct info = control_get ct (processing_index info) UVC_PU_WHITE_BALANCE_TEMPERATURE_CONTROL 2
     (\<lambda>data. do { temperature \<leftarrow> SW_TO_SHORT data 0; Some temperature })"

definition uvc_set_white_balance_temperature ::
  "'u control_transfer \<Rightarrow> uvc_device_info \<Rightarrow> u16 \<Rightarrow> 'u \<Rightarrow> (int \<times> 'u) option" where
  "uvc_set_white_balance_temperature ct info temperature u = do {
     let data = local_array 2;
     data \<leftarrow> SHORT_TO_SW_at temperature data 0;
     control_set ct (processing_index info) UVC_PU_WHITE_BALANCE_TEMPERATURE_CONTROL data u }"

definition uvc_get_white_balance_temperature_auto ::
  "'u control_transfer \<Rightarrow> uvc_device_info \<Rightarrow> u8 \<Rightarrow> 'u \<Rightarrow> (int \<times> u8 option \<times> 'u) option" where
  "uvc_get_white_balance_temperature_auto ct info = control_get ct (processing_index info) UVC_PU_WHITE_BALANCE_TEMPERATURE_AUTO_CONTROL 1
     (\<lambda>data. do { temperature_auto \<leftarrow> rd data 0; Some temperature_auto })"

definition uvc_set_white_balance_temperature_auto ::
  "'u control_transfer \<Rightarrow> uvc_device_info \<Rightarrow> u8 \<Rightarrow> 'u \<Rightarrow> (int \<times> 'u) option" where
  "uvc_set_white_balance_temperature_auto ct info temperature_auto u = do {
     let data = local_array 1;
     data \<leftarrow> put8 temperature_auto data 0;
     control_set ct (processing_index info) UVC_PU_WHITE_BALANCE_TEMPERATURE_AUTO_CONTROL data u }"

definition uvc_get_white_balance_component ::
  "'u control_transfer \<Rightarrow> uvc_device_info \<Rightarrow> u8 \<Rightarrow> 'u \<Rightarrow> (int \<times> (u16 \<times> u16) option \<times> 'u) option" where
  "uvc_get_white_balance_component ct info = control_get ct (processing_index info) UVC_PU_WHITE_BALANCE_COMPONENT_CONTROL 4
     (\<lambda>data. do { blue \<leftarrow> SW_TO_SHORT data 0; red \<leftarrow> SW_TO_SHORT data 2; Some (blue, red) })"

definition uvc_set_white_balance_component ::
  "'u control_transfer \<Rightarrow> uvc_device_info \<Rightarrow> u16 \<Rightarrow> u16 \<Rightarrow> 'u \<Rightarrow> (int \<times> 'u) option" where
  "uvc_set_white_balance_component ct info blue red u = do {
     let data = local_array 4;
     data \<leftarrow> SHORT_TO_SW_at blue data 0;
     data \<leftarrow> SHORT_TO_SW_at red data 2;
     control_set ct (processing_index info) UVC_PU_WHITE_BALANCE_COMPONENT_CONTROL data u }"

definition uvc_get_white_balance_component_auto ::
  "'u control_transfer \<Rightarrow> uvc_device_info \<Rightarrow> u8 \<Rightarrow> 'u \<Rightarrow> (int \<times> u8 option \<times> 'u) option" where
  "uvc_get_white_balance_component_auto ct info = control_get ct (processing_index info) UVC_PU_WHITE_BALANCE_COMPONENT_AUTO_CONTROL 1
     (\<lambda>data. do { white_balance_component_auto \<leftarrow> rd data 0; Some white_balance_component_auto })"

definition uvc_set_white_balance_component_auto ::
  "'u control_transfer \<Rightarrow> uvc_device_info \<Rightarrow> u8 \<Rightarrow> 'u \<Rightarrow> (int \<times> 'u) option" where
  "uvc_set_white_balance_component_auto ct info white_balance_component_auto u = do {
     let data = local_array 1;
     data \<leftarrow> put8 white_balance_component_auto data 0;
     control_set ct (processing_index info) UVC_PU_WHITE_BALANCE_COMPONENT_AUTO_CONTROL data u }"

definition uvc_get_digital_multiplier ::
  "'u control_transfer \<Rightarrow> uvc_device_info \<Rightarrow> u8 \<Rightarrow> 'u \<Rightarrow> (int \<times> u16 option \<times> 'u) option" where
  "uvc_get_digital_multiplier ct info = control_get ct (processing_index info) UVC_PU_DIGITAL_MULTIPLIER_CONTROL 2
     (\<lambda>data. do { multiplier_step \<leftarrow> SW_TO_SHORT data 0; Some multiplier_step })"

definition uvc_set_digital_multiplier ::
  "'u control_transfer \<Rightarrow> uvc_device_info \<Rightarrow> u16 \<Rightarrow> 'u \<Rightarrow> (int \<times> 'u) option" where
  "uvc_set_digital_multiplier ct info multiplier_step u = do {
     let data = local_array 2;
     data \<leftarrow> SHORT_TO_SW_at multiplier_step data 0;
     control_set ct (processing_index info) UVC_PU_DIGITAL_MULTIPLIER_CONTROL data u }"

definition uvc_get_digital_multiplier_limit ::
  "'u control_transfer \<Rightarrow> uvc_device_info \<Rightarrow> u8 \<Rightarrow> 'u \<Rightarrow> (int \<times> u16 option \<times> 'u) option" where
  "uvc_get_digital_multiplier_limit ct info = control_get ct (processing_index info) UVC_PU_DIGITAL_MULTIPLIER_LIMIT_CONTROL 2
     (\<lambda>data. do { multiplier_step \<leftarrow> SW_TO_SHORT data 0; Some multiplier_step })"

definition uvc_set_digital_multiplier_limit ::
  "'u control_transfer \<Rightarrow> uvc_device_info \<Rightarrow> u16 \<Rightarrow> 'u \<Rightarrow> (int \<times> 'u) option" where
  "uvc_set_digital_multiplier_limit ct info multiplier_step u = do {
     let data = local_array 2;
     data \<leftarrow> SHORT_TO_SW_at multiplier_step data 0;
     control_set ct (processing_index info) UVC_PU_DIGITAL_MULTIPLIER_LIMIT_CONTROL data u }"

definition uvc_get_analog_video_standard ::
  "'u control_transfer \<Rightarrow> uvc_device_info \<Rightarrow> u8 \<Rightarrow> 'u \<Rightarrow> (int \<times> u8 option \<times> 'u) option" where
  "uvc_get_analog_video_standard ct info = control_get ct (processing_index info) UVC_PU_ANALOG_VIDEO_STANDARD_CONTROL 1
     (\<lambda>data. do { video_standard \<leftarrow> rd data 0; Some video_standard })"

definition uvc_set_analog_video_standard ::
  "'u control_transfer \<Rightarrow> uvc_device_info \<Rightarrow> u8 \<Rightarrow> 'u \<Rightarrow> (int \<times> 'u) option" where
  "uvc_set_analog_video_standard ct info video_standard u = do {
     let data = local_array 1;
     data \<leftarrow> put8 video_standard data 0;
     control_set ct (processing_index info) UVC_PU_ANALOG_VIDEO_STANDARD_CONTROL data u }"

definition uvc_get_analog_video_lock_status ::
  "'u control_transfer \<Rightarrow> uvc_device_info \<Rightarrow> u8 \<Rightarrow> 'u \<Rightarrow> (int \<times> u8 option \<times> 'u) option" where
  "uvc_get_analog_video_lock_status ct info = control_get ct (processing_index info) UVC_PU_ANALOG_LOCK_STATUS_CONTROL 1
     (\<lambda>data. do { status \<leftarrow> rd data 0; Some status })"

definition uvc_set_analog_video_lock_status ::
  "'u control_transfer \<Rightarrow> uvc_device_info \<Rightarrow> u8 \<Rightarrow> 'u \<Rightarrow> (int \<times> 'u) option" where
  "uvc_set_analog_video_lock_status ct info status u = do {
     let data = local_array 1;
     data \<leftarrow> put8 status data 0;
     control_set ct (processing_index info) UVC_PU_ANALOG_LOCK_STATUS_CONTROL data u }"

definition uvc_get_input_select ::
  "'u control_transfer \<Rightarrow> uvc_device_info \<Rightarrow> u8 \<Rightarrow> 'u \<Rightarrow> (int \<times> u8 option \<times> 'u) option" where
  "uvc_get_input_select ct info = control_get ct (selector_index info) UVC_SU_INPUT_SELECT_CONTROL 1
     (\<lambda>data. do { selector \<leftarrow> rd data 0; Some selector })"

definition uvc_set_input_select ::
  "'u control_transfer \<Rightarrow> uvc_device_info \<Rightarrow> u8 \<Rightarrow> 'u \<Rightarrow> (int \<times> 'u) option" where
  "uvc_set_input_select ct info selector u = do {
     let data = local_array 1;
     data \<leftarrow> put8 selector data 0;
     control_set ct (selector_index info) UVC_SU_INPUT_SELECT_CONTROL data u }"

section \<open>The table of controls\<close>

text \<open>
  The specification, from standard-units.yaml: for each control the unit that has it, its selector and
  the lengths of its fields, which follow each other in little-endian order.  Values are naturals.
\<close>

datatype unit_kind = Camera_terminal | Processing_unit | Selector_unit

datatype control =
    Scanning_mode | Ae_mode | Ae_priority | Exposure_abs | Exposure_rel
  | Focus_abs | Focus_rel | Focus_simple_range | Focus_auto | Iris_abs
  | Iris_rel | Zoom_abs | Zoom_rel | Pantilt_abs | Pantilt_rel
  | Roll_abs | Roll_rel | Privacy | Digital_window | Digital_roi
  | Backlight_compensation | Brightness | Contrast | Contrast_auto | Gain
  | Power_line_frequency | Hue | Hue_auto | Saturation | Sharpness
  | Gamma | White_balance_temperature | White_balance_temperature_auto | White_balance_component | White_balance_component_auto
  | Digital_multiplier | Digital_multiplier_limit | Analog_video_standard | Analog_video_lock_status | Input_select

primrec control_unit :: "control \<Rightarrow> unit_kind" where
  "control_unit Scanning_mode = Camera_terminal"
| "control_unit Ae_mode = Camera_terminal"
| "control_unit Ae_priority = Camera_terminal"
| "control_unit Exposure_abs = Camera_terminal"
| "control_unit Exposure_rel = Camera_terminal"
| "control_unit Focus_abs = Camera_terminal"
| "control_unit Focus_rel = Camera_terminal"
| "control_unit Focus_simple_range = Camera_terminal"
| "control_unit Focus_auto = Camera_terminal"
| "control_unit Iris_abs = Camera_terminal"
| "control_unit Iris_rel = Camera_terminal"
| "control_unit Zoom_abs = Camera_terminal"
| "control_unit Zoom_rel = Camera_terminal"
| "control_unit Pantilt_abs = Camera_terminal"
| "control_unit Pantilt_rel = Camera_terminal"
| "control_unit Roll_abs = Camera_terminal"
| "control_unit Roll_rel = Camera_terminal"
| "control_unit Privacy = Camera_terminal"
| "control_unit Digital_window = Camera_terminal"
| "control_unit Digital_roi = Camera_terminal"
| "control_unit Backlight_compensation = Processing_unit"
| "control_unit Brightness = Processing_unit"
| "control_unit Contrast = Processing_unit"
| "control_unit Contrast_auto = Processing_unit"
| "control_unit Gain = Processing_unit"
| "control_unit Power_line_frequency = Processing_unit"
| "control_unit Hue = Processing_unit"
| "control_unit Hue_auto = Processing_unit"
| "control_unit Saturation = Processing_unit"
| "control_unit Sharpness = Processing_unit"
| "control_unit Gamma = Processing_unit"
| "control_unit White_balance_temperature = Processing_unit"
| "control_unit White_balance_temperature_auto = Processing_unit"
| "control_unit White_balance_component = Processing_unit"
| "control_unit White_balance_component_auto = Processing_unit"
| "control_unit Digital_multiplier = Processing_unit"
| "control_unit Digital_multiplier_limit = Processing_unit"
| "control_unit Analog_video_standard = Processing_unit"
| "control_unit Analog_video_lock_status = Processing_unit"
| "control_unit Input_select = Selector_unit"

primrec control_selector :: "control \<Rightarrow> u8" where
  "control_selector Scanning_mode = 0x01"
| "control_selector Ae_mode = 0x02"
| "control_selector Ae_priority = 0x03"
| "control_selector Exposure_abs = 0x04"
| "control_selector Exposure_rel = 0x05"
| "control_selector Focus_abs = 0x06"
| "control_selector Focus_rel = 0x07"
| "control_selector Focus_simple_range = 0x12"
| "control_selector Focus_auto = 0x08"
| "control_selector Iris_abs = 0x09"
| "control_selector Iris_rel = 0x0a"
| "control_selector Zoom_abs = 0x0b"
| "control_selector Zoom_rel = 0x0c"
| "control_selector Pantilt_abs = 0x0d"
| "control_selector Pantilt_rel = 0x0e"
| "control_selector Roll_abs = 0x0f"
| "control_selector Roll_rel = 0x10"
| "control_selector Privacy = 0x11"
| "control_selector Digital_window = 0x13"
| "control_selector Digital_roi = 0x14"
| "control_selector Backlight_compensation = 0x01"
| "control_selector Brightness = 0x02"
| "control_selector Contrast = 0x03"
| "control_selector Contrast_auto = 0x13"
| "control_selector Gain = 0x04"
| "control_selector Power_line_frequency = 0x05"
| "control_selector Hue = 0x06"
| "control_selector Hue_auto = 0x10"
| "control_selector Saturation = 0x07"
| "control_selector Sharpness = 0x08"
| "control_selector Gamma = 0x09"
| "control_selector White_balance_temperature = 0x0a"
| "control_selector White_balance_temperature_auto = 0x0b"
| "control_selector White_balance_component = 0x0c"
| "control_selector White_balance_component_auto = 0x0d"
| "control_selector Digital_multiplier = 0x0e"
| "control_selector Digital_multiplier_limit = 0x0f"
| "control_selector Analog_video_standard = 0x11"
| "control_selector Analog_video_lock_status = 0x12"
| "control_selector Input_select = 0x01"

primrec control_fields :: "control \<Rightarrow> nat list" where
  "control_fields Scanning_mode = [1]"
| "control_fields Ae_mode = [1]"
| "control_fields Ae_priority = [1]"
| "control_fields Exposure_abs = [4]"
| "control_fields Exposure_rel = [1]"
| "control_fields Focus_abs = [2]"
| "control_fields Focus_rel = [1, 1]"
| "control_fields Focus_simple_range = [1]"
| "control_fields Focus_auto = [1]"
| "control_fields Iris_abs = [2]"
| "control_fields Iris_rel = [1]"
| "control_fields Zoom_abs = [2]"
| "control_fields Zoom_rel = [1, 1, 1]"
| "control_fields Pantilt_abs = [4, 4]"
| "control_fields Pantilt_rel = [1, 1, 1, 1]"
| "control_fields Roll_abs = [2]"
| "control_fields Roll_rel = [1, 1]"
| "control_fields Privacy = [1]"
| "control_fields Digital_window = [2, 2, 2, 2, 2, 2]"
| "control_fields Digital_roi = [2, 2, 2, 2, 2]"
| "control_fields Backlight_compensation = [2]"
| "control_fields Brightness = [2]"
| "control_fields Contrast = [2]"
| "control_fields Contrast_auto = [1]"
| "control_fields Gain = [2]"
| "control_fields Power_line_frequency = [1]"
| "control_fields Hue = [2]"
| "control_fields Hue_auto = [1]"
| "control_fields Saturation = [2]"
| "control_fields Sharpness = [2]"
| "control_fields Gamma = [2]"
| "control_fields White_balance_temperature = [2]"
| "control_fields White_balance_temperature_auto = [1]"
| "control_fields White_balance_component = [2, 2]"
| "control_fields White_balance_component_auto = [1]"
| "control_fields Digital_multiplier = [2]"
| "control_fields Digital_multiplier_limit = [2]"
| "control_fields Analog_video_standard = [1]"
| "control_fields Analog_video_lock_status = [1]"
| "control_fields Input_select = [1]"

text \<open>The functions of the code, by control and with a list of values.\<close>

definition got :: "('a \<Rightarrow> nat list) \<Rightarrow> (int \<times> 'a option \<times> 'u) option \<Rightarrow> (int \<times> nat list option \<times> 'u) option" where
  "got f r = map_option (\<lambda>(ret, v, u). (ret, map_option f v, u)) r"

primrec call_get ::
  "control \<Rightarrow> 'u control_transfer \<Rightarrow> uvc_device_info \<Rightarrow> u8 \<Rightarrow> 'u \<Rightarrow> (int \<times> nat list option \<times> 'u) option" where
  "call_get Scanning_mode ct info req_code u = got (\<lambda>mode. [unat mode]) (uvc_get_scanning_mode ct info req_code u)"
| "call_get Ae_mode ct info req_code u = got (\<lambda>mode. [unat mode]) (uvc_get_ae_mode ct info req_code u)"
| "call_get Ae_priority ct info req_code u = got (\<lambda>priority. [unat priority]) (uvc_get_ae_priority ct info req_code u)"
| "call_get Exposure_abs ct info req_code u = got (\<lambda>time. [unat time]) (uvc_get_exposure_abs ct info req_code u)"
| "call_get Exposure_rel ct info req_code u = got (\<lambda>step. [unat step]) (uvc_get_exposure_rel ct info req_code u)"
| "call_get Focus_abs ct info req_code u = got (\<lambda>focus. [unat focus]) (uvc_get_focus_abs ct info req_code u)"
| "call_get Focus_rel ct info req_code u = got (\<lambda>(focus_rel, speed). [unat focus_rel, unat speed]) (uvc_get_focus_rel ct info req_code u)"
| "call_get Focus_simple_range ct info req_code u = got (\<lambda>focus. [unat focus]) (uvc_get_focus_simple_range ct info req_code u)"
| "call_get Focus_auto ct info req_code u = got (\<lambda>state. [unat state]) (uvc_get_focus_auto ct info req_code u)"
| "call_get Iris_abs ct info req_code u = got (\<lambda>iris. [unat iris]) (uvc_get_iris_abs ct info req_code u)"
| "call_get Iris_rel ct info req_code u = got (\<lambda>iris_rel. [unat iris_rel]) (uvc_get_iris_rel ct info req_code u)"
| "call_get Zoom_abs ct info req_code u = got (\<lambda>focal_length. [unat focal_length]) (uvc_get_zoom_abs ct info req_code u)"
| "call_get Zoom_rel ct info req_code u = got (\<lambda>(zoom_rel, digital_zoom, speed). [unat zoom_rel, unat digital_zoom, unat speed]) (uvc_get_zoom_rel ct info req_code u)"
| "call_get Pantilt_abs ct info req_code u = got (\<lambda>(pan, tilt). [unat pan, unat tilt]) (uvc_get_pantilt_abs ct info req_code u)"
| "call_get Pantilt_rel ct info req_code u = got (\<lambda>(pan_rel, pan_speed, tilt_rel, tilt_speed). [unat pan_rel, unat pan_speed, unat tilt_rel, unat tilt_speed]) (uvc_get_pantilt_rel ct info req_code u)"
| "call_get Roll_abs ct info req_code u = got (\<lambda>roll. [unat roll]) (uvc_get_roll_abs ct info req_code u)"
| "call_get Roll_rel ct info req_code u = got (\<lambda>(roll_rel, speed). [unat roll_rel, unat speed]) (uvc_get_roll_rel ct info req_code u)"
| "call_get Privacy ct info req_code u = got (\<lambda>privacy. [unat privacy]) (uvc_get_privacy ct info req_code u)"
| "call_get Digital_window ct info req_code u = got (\<lambda>(window_top, window_left, window_bottom, window_right, num_steps, num_steps_units). [unat window_top, unat window_left, unat window_bottom, unat window_right, unat num_steps, unat num_steps_units]) (uvc_get_digital_window ct info req_code u)"
| "call_get Digital_roi ct info req_code u = got (\<lambda>(roi_top, roi_left, roi_bottom, roi_right, auto_controls). [unat roi_top, unat roi_left, unat roi_bottom, unat roi_right, unat auto_controls]) (uvc_get_digital_roi ct info req_code u)"
| "call_get Backlight_compensation ct info req_code u = got (\<lambda>backlight_compensation. [unat backlight_compensation]) (uvc_get_backlight_compensation ct info req_code u)"
| "call_get Brightness ct info req_code u = got (\<lambda>brightness. [unat brightness]) (uvc_get_brightness ct info req_code u)"
| "call_get Contrast ct info req_code u = got (\<lambda>contrast. [unat contrast]) (uvc_get_contrast ct info req_code u)"
| "call_get Contrast_auto ct info req_code u = got (\<lambda>contrast_auto. [unat contrast_auto]) (uvc_get_contrast_auto ct info req_code u)"
| "call_get Gain ct info req_code u = got (\<lambda>gain. [unat gain]) (uvc_get_gain ct info req_code u)"
| "call_get Power_line_frequency ct info req_code u = got (\<lambda>power_line_frequency. [unat power_line_frequency]) (uvc_get_power_line_frequency ct info req_code u)"
| "call_get Hue ct info req_code u = got (\<lambda>hue. [unat hue]) (uvc_get_hue ct info req_code u)"
| "call_get Hue_auto ct info req_code u = got (\<lambda>hue_auto. [unat hue_auto]) (uvc_get_hue_auto ct info req_code u)"
| "call_get Saturation ct info req_code u = got (\<lambda>saturation. [unat saturation]) (uvc_get_saturation ct info req_code u)"
| "call_get Sharpness ct info req_code u = got (\<lambda>sharpness. [unat sharpness]) (uvc_get_sharpness ct info req_code u)"
| "call_get Gamma ct info req_code u = got (\<lambda>gamma. [unat gamma]) (uvc_get_gamma ct info req_code u)"
| "call_get White_balance_temperature ct info req_code u = got (\<lambda>temperature. [unat temperature]) (uvc_get_white_balance_temperature ct info req_code u)"
| "call_get White_balance_temperature_auto ct info req_code u = got (\<lambda>temperature_auto. [unat temperature_auto]) (uvc_get_white_balance_temperature_auto ct info req_code u)"
| "call_get White_balance_component ct info req_code u = got (\<lambda>(blue, red). [unat blue, unat red]) (uvc_get_white_balance_component ct info req_code u)"
| "call_get White_balance_component_auto ct info req_code u = got (\<lambda>white_balance_component_auto. [unat white_balance_component_auto]) (uvc_get_white_balance_component_auto ct info req_code u)"
| "call_get Digital_multiplier ct info req_code u = got (\<lambda>multiplier_step. [unat multiplier_step]) (uvc_get_digital_multiplier ct info req_code u)"
| "call_get Digital_multiplier_limit ct info req_code u = got (\<lambda>multiplier_step. [unat multiplier_step]) (uvc_get_digital_multiplier_limit ct info req_code u)"
| "call_get Analog_video_standard ct info req_code u = got (\<lambda>video_standard. [unat video_standard]) (uvc_get_analog_video_standard ct info req_code u)"
| "call_get Analog_video_lock_status ct info req_code u = got (\<lambda>status. [unat status]) (uvc_get_analog_video_lock_status ct info req_code u)"
| "call_get Input_select ct info req_code u = got (\<lambda>selector. [unat selector]) (uvc_get_input_select ct info req_code u)"

primrec call_set ::
  "control \<Rightarrow> 'u control_transfer \<Rightarrow> uvc_device_info \<Rightarrow> nat list \<Rightarrow> 'u \<Rightarrow> (int \<times> 'u) option" where
  "call_set Scanning_mode ct info vs u = uvc_set_scanning_mode ct info (of_nat (vs ! 0)) u"
| "call_set Ae_mode ct info vs u = uvc_set_ae_mode ct info (of_nat (vs ! 0)) u"
| "call_set Ae_priority ct info vs u = uvc_set_ae_priority ct info (of_nat (vs ! 0)) u"
| "call_set Exposure_abs ct info vs u = uvc_set_exposure_abs ct info (of_nat (vs ! 0)) u"
| "call_set Exposure_rel ct info vs u = uvc_set_exposure_rel ct info (of_nat (vs ! 0)) u"
| "call_set Focus_abs ct info vs u = uvc_set_focus_abs ct info (of_nat (vs ! 0)) u"
| "call_set Focus_rel ct info vs u = uvc_set_focus_rel ct info (of_nat (vs ! 0)) (of_nat (vs ! 1)) u"
| "call_set Focus_simple_range ct info vs u = uvc_set_focus_simple_range ct info (of_nat (vs ! 0)) u"
| "call_set Focus_auto ct info vs u = uvc_set_focus_auto ct info (of_nat (vs ! 0)) u"
| "call_set Iris_abs ct info vs u = uvc_set_iris_abs ct info (of_nat (vs ! 0)) u"
| "call_set Iris_rel ct info vs u = uvc_set_iris_rel ct info (of_nat (vs ! 0)) u"
| "call_set Zoom_abs ct info vs u = uvc_set_zoom_abs ct info (of_nat (vs ! 0)) u"
| "call_set Zoom_rel ct info vs u = uvc_set_zoom_rel ct info (of_nat (vs ! 0)) (of_nat (vs ! 1)) (of_nat (vs ! 2)) u"
| "call_set Pantilt_abs ct info vs u = uvc_set_pantilt_abs ct info (of_nat (vs ! 0)) (of_nat (vs ! 1)) u"
| "call_set Pantilt_rel ct info vs u = uvc_set_pantilt_rel ct info (of_nat (vs ! 0)) (of_nat (vs ! 1)) (of_nat (vs ! 2)) (of_nat (vs ! 3)) u"
| "call_set Roll_abs ct info vs u = uvc_set_roll_abs ct info (of_nat (vs ! 0)) u"
| "call_set Roll_rel ct info vs u = uvc_set_roll_rel ct info (of_nat (vs ! 0)) (of_nat (vs ! 1)) u"
| "call_set Privacy ct info vs u = uvc_set_privacy ct info (of_nat (vs ! 0)) u"
| "call_set Digital_window ct info vs u = uvc_set_digital_window ct info (of_nat (vs ! 0)) (of_nat (vs ! 1)) (of_nat (vs ! 2)) (of_nat (vs ! 3)) (of_nat (vs ! 4)) (of_nat (vs ! 5)) u"
| "call_set Digital_roi ct info vs u = uvc_set_digital_roi ct info (of_nat (vs ! 0)) (of_nat (vs ! 1)) (of_nat (vs ! 2)) (of_nat (vs ! 3)) (of_nat (vs ! 4)) u"
| "call_set Backlight_compensation ct info vs u = uvc_set_backlight_compensation ct info (of_nat (vs ! 0)) u"
| "call_set Brightness ct info vs u = uvc_set_brightness ct info (of_nat (vs ! 0)) u"
| "call_set Contrast ct info vs u = uvc_set_contrast ct info (of_nat (vs ! 0)) u"
| "call_set Contrast_auto ct info vs u = uvc_set_contrast_auto ct info (of_nat (vs ! 0)) u"
| "call_set Gain ct info vs u = uvc_set_gain ct info (of_nat (vs ! 0)) u"
| "call_set Power_line_frequency ct info vs u = uvc_set_power_line_frequency ct info (of_nat (vs ! 0)) u"
| "call_set Hue ct info vs u = uvc_set_hue ct info (of_nat (vs ! 0)) u"
| "call_set Hue_auto ct info vs u = uvc_set_hue_auto ct info (of_nat (vs ! 0)) u"
| "call_set Saturation ct info vs u = uvc_set_saturation ct info (of_nat (vs ! 0)) u"
| "call_set Sharpness ct info vs u = uvc_set_sharpness ct info (of_nat (vs ! 0)) u"
| "call_set Gamma ct info vs u = uvc_set_gamma ct info (of_nat (vs ! 0)) u"
| "call_set White_balance_temperature ct info vs u = uvc_set_white_balance_temperature ct info (of_nat (vs ! 0)) u"
| "call_set White_balance_temperature_auto ct info vs u = uvc_set_white_balance_temperature_auto ct info (of_nat (vs ! 0)) u"
| "call_set White_balance_component ct info vs u = uvc_set_white_balance_component ct info (of_nat (vs ! 0)) (of_nat (vs ! 1)) u"
| "call_set White_balance_component_auto ct info vs u = uvc_set_white_balance_component_auto ct info (of_nat (vs ! 0)) u"
| "call_set Digital_multiplier ct info vs u = uvc_set_digital_multiplier ct info (of_nat (vs ! 0)) u"
| "call_set Digital_multiplier_limit ct info vs u = uvc_set_digital_multiplier_limit ct info (of_nat (vs ! 0)) u"
| "call_set Analog_video_standard ct info vs u = uvc_set_analog_video_standard ct info (of_nat (vs ! 0)) u"
| "call_set Analog_video_lock_status ct info vs u = uvc_set_analog_video_lock_status ct info (of_nat (vs ! 0)) u"
| "call_set Input_select ct info vs u = uvc_set_input_select ct info (of_nat (vs ! 0)) u"

primrec spec_index :: "unit_kind \<Rightarrow> uvc_device_info \<Rightarrow> u16 option" where
  "spec_index Camera_terminal info = map_option (\<lambda>t. unit_index (it_bTerminalID t) info)
     (find (\<lambda>t. it_wTerminalType t = UVC_ITT_CAMERA) (ci_input_term_descs (in_ctrl_if info)))"
| "spec_index Processing_unit info =
     (case ci_processing_unit_descs (in_ctrl_if info) of [] \<Rightarrow> None | p # _ \<Rightarrow> Some (unit_index (pu_bUnitID p) info))"
| "spec_index Selector_unit info =
     (case ci_selector_unit_descs (in_ctrl_if info) of [] \<Rightarrow> None | s # _ \<Rightarrow> Some (unit_index (su_bUnitID s) info))"

definition control_length :: "control \<Rightarrow> nat" where
  "control_length c = sum_list (control_fields c)"

definition le_bytes :: "nat \<Rightarrow> nat \<Rightarrow> bytes" where
  "le_bytes n v = map (\<lambda>i. of_nat (v div 256 ^ i)) [0..<n]"

fun le_value :: "bytes \<Rightarrow> nat" where
  "le_value [] = 0"
| "le_value (b # bs) = unat b + 256 * le_value bs"

definition spec_encode :: "nat list \<Rightarrow> nat list \<Rightarrow> bytes" where
  "spec_encode ns vs = concat (map2 le_bytes ns vs)"

fun spec_decode :: "nat list \<Rightarrow> bytes \<Rightarrow> nat list" where
  "spec_decode [] bs = []"
| "spec_decode (n # ns) bs = le_value (take n bs) # spec_decode ns (drop n bs)"

definition spec_get ::
  "control \<Rightarrow> 'u control_transfer \<Rightarrow> uvc_device_info \<Rightarrow> u8 \<Rightarrow> 'u \<Rightarrow> (int \<times> nat list option \<times> 'u) option" where
  "spec_get c ct info req u =
     (case spec_index (control_unit c) info of
        None \<Rightarrow> None
      | Some i \<Rightarrow>
          (case ct 0xa1 req (256 * ucast (control_selector c)) i (replicate (control_length c) 0) u of
             (ret, written, u') \<Rightarrow>
               if ret \<noteq> int (control_length c) then Some (ret, None, u')
               else if length written < control_length c then None
               else Some (0, Some (spec_decode (control_fields c) written), u')))"

definition spec_set ::
  "control \<Rightarrow> 'u control_transfer \<Rightarrow> uvc_device_info \<Rightarrow> nat list \<Rightarrow> 'u \<Rightarrow> (int \<times> 'u) option" where
  "spec_set c ct info vs u =
     (case spec_index (control_unit c) info of
        None \<Rightarrow> None
      | Some i \<Rightarrow>
          (case ct 0x21 1 (256 * ucast (control_selector c)) i (spec_encode (control_fields c) vs) u of
             (ret, written, u') \<Rightarrow> Some (if ret = int (control_length c) then 0 else ret, u')))"

section \<open>Lemmas\<close>

lemma camera_index_spec: "camera_index info = spec_index Camera_terminal info"
proof -
  have "map_option (\<lambda>t. unit_index (it_bTerminalID t) info) (find (\<lambda>t. it_wTerminalType t = UVC_ITT_CAMERA) ts) =
      (case find_camera ts of [] \<Rightarrow> None | t # _ \<Rightarrow> Some (unit_index (it_bTerminalID t) info))" for ts
    by (induction ts) auto
  then show ?thesis
    by (simp add: camera_index_def uvc_get_camera_terminal_def uvc_get_input_terminals_def rd_def split: list.splits)
qed

lemma processing_index_spec: "processing_index info = spec_index Processing_unit info"
  by (simp add: processing_index_def uvc_get_processing_units_def rd_def split: list.splits)

lemma selector_index_spec: "selector_index info = spec_index Selector_unit info"
  by (simp add: selector_index_def uvc_get_selector_units_def rd_def split: list.splits)

lemma selector_value: "push_bit 8 (ucast (w :: u8)) = (256 * ucast w :: u16)"
  by (simp add: push_bit_eq_mult)

lemma le_value_append: "le_value (xs @ ys) = le_value xs + 256 ^ length xs * le_value ys"
  by (induction xs) (simp_all add: algebra_simps)

lemma le_bytes_Suc: "le_bytes (Suc n) v = of_nat v # le_bytes n (v div 256)"
  by (simp add: le_bytes_def upt_conv_Cons map_Suc_upt [symmetric] div_mult2_eq del: upt_Suc)

lemma le_bytes_0 [simp]: "le_bytes 0 v = []"
  by (simp add: le_bytes_def)

lemma length_le_bytes [simp]: "length (le_bytes n v) = n"
  by (simp add: le_bytes_def)

lemma le_value_le_bytes: "v < 256 ^ n \<Longrightarrow> le_value (le_bytes n v) = v"
  by (induction n arbitrary: v) (simp_all add: le_bytes_Suc unsigned_of_nat take_bit_eq_mod less_mult_imp_div_less mult.commute)

lemma length_spec_encode: "length vs = length ns \<Longrightarrow> length (spec_encode ns vs) = sum_list ns"
  by (induction vs ns rule: list_induct2) (simp_all add: spec_encode_def)

lemma spec_decode_encode:
  "list_all2 (\<lambda>n v. v < 256 ^ n) ns vs \<Longrightarrow> spec_decode ns (spec_encode ns vs) = vs"
  by (induction ns vs rule: list_all2_induct) (simp_all add: spec_encode_def le_value_le_bytes)

lemma unat_byte: "unat (b :: u8) < 2 ^ 8"
  using unsigned_less [of b, where 'a = nat] by simp

lemma nat_or_shift: "a < 2 ^ n \<Longrightarrow> a OR push_bit n b = a + 2 ^ n * (b :: nat)"
proof -
  assume "a < 2 ^ n"
  then have "a = take_bit n a" by (simp add: take_bit_nat_eq_self)
  then have "a + push_bit n b = a OR push_bit n b"
    by (intro disjunctive_add) (metis bit_push_bit_iff bit_take_bit_iff leD)
  then show ?thesis by (simp add: push_bit_eq_mult mult.commute)
qed

lemma take_bit_byte: "8 \<le> n \<Longrightarrow> take_bit n (unat (b :: u8)) = unat b"
  using unat_byte [of b] power_increasing [of 8 n "2 :: nat"] by (intro take_bit_nat_eq_self) simp

lemma unat_sw_of: "unat (sw_of a b) = unat a + 256 * unat b"
proof -
  have "unat (sw_of a b) = unat a OR push_bit 8 (unat b)"
    unfolding sw_of_def unsigned_or_eq unsigned_push_bit_eq
    by (simp add: unsigned_ucast_eq take_bit_push_bit take_bit_byte)
  then show ?thesis using nat_or_shift [OF unat_byte, of a "unat b"] by simp
qed

lemma unat_dw_of: "unat (dw_of a b c d) = unat a + 256 * (unat b + 256 * (unat c + 256 * unat d))"
proof -
  have "unat (dw_of a b c d) = unat a OR push_bit 8 (unat b OR push_bit 8 (unat c OR push_bit 8 (unat d)))"
    unfolding dw_of_def unsigned_or_eq unsigned_push_bit_eq
    by (simp add: unsigned_ucast_eq take_bit_push_bit push_bit_or take_bit_byte)
  then show ?thesis unfolding nat_or_shift [OF unat_byte] by simp
qed

lemma byte_of_nat: "ucast (drop_bit k (of_nat v :: 'a::len word)) = (of_nat (v div 2 ^ k) :: u8)" if "k + 8 \<le> LENGTH('a)"
proof (rule bit_word_eqI)
  fix n assume "n < LENGTH(8)"
  then show "bit (ucast (drop_bit k (of_nat v :: 'a word)) :: u8) n = bit (of_nat (v div 2 ^ k) :: u8) n"
    using that by (simp add: bit_simps drop_bit_eq_div [symmetric] add.commute del: of_nat_drop_bit)
qed

lemma SHORT_TO_SW_le: "SHORT_TO_SW (of_nat v) = le_bytes 2 v"
  using byte_of_nat [where 'a = 16, of 0 v] byte_of_nat [where 'a = 16, of 8 v]
  by (simp add: SHORT_TO_SW_def le_bytes_def upt_rec)

lemma INT_TO_DW_le: "INT_TO_DW (of_nat v) = le_bytes 4 v"
  using byte_of_nat [where 'a = 32, of 0 v] byte_of_nat [where 'a = 32, of 8 v] byte_of_nat [where 'a = 32, of 16 v] byte_of_nat [where 'a = 32, of 24 v]
  by (simp add: INT_TO_DW_def le_bytes_def upt_rec)

lemmas getter_defs =
  uvc_get_scanning_mode_def uvc_get_ae_mode_def uvc_get_ae_priority_def uvc_get_exposure_abs_def
  uvc_get_exposure_rel_def uvc_get_focus_abs_def uvc_get_focus_rel_def uvc_get_focus_simple_range_def
  uvc_get_focus_auto_def uvc_get_iris_abs_def uvc_get_iris_rel_def uvc_get_zoom_abs_def uvc_get_zoom_rel_def
  uvc_get_pantilt_abs_def uvc_get_pantilt_rel_def uvc_get_roll_abs_def uvc_get_roll_rel_def
  uvc_get_privacy_def uvc_get_digital_window_def uvc_get_digital_roi_def uvc_get_backlight_compensation_def
  uvc_get_brightness_def uvc_get_contrast_def uvc_get_contrast_auto_def uvc_get_gain_def
  uvc_get_power_line_frequency_def uvc_get_hue_def uvc_get_hue_auto_def uvc_get_saturation_def
  uvc_get_sharpness_def uvc_get_gamma_def uvc_get_white_balance_temperature_def
  uvc_get_white_balance_temperature_auto_def uvc_get_white_balance_component_def
  uvc_get_white_balance_component_auto_def uvc_get_digital_multiplier_def uvc_get_digital_multiplier_limit_def
  uvc_get_analog_video_standard_def uvc_get_analog_video_lock_status_def uvc_get_input_select_def

lemmas setter_defs =
  uvc_set_scanning_mode_def uvc_set_ae_mode_def uvc_set_ae_priority_def uvc_set_exposure_abs_def
  uvc_set_exposure_rel_def uvc_set_focus_abs_def uvc_set_focus_rel_def uvc_set_focus_simple_range_def
  uvc_set_focus_auto_def uvc_set_iris_abs_def uvc_set_iris_rel_def uvc_set_zoom_abs_def uvc_set_zoom_rel_def
  uvc_set_pantilt_abs_def uvc_set_pantilt_rel_def uvc_set_roll_abs_def uvc_set_roll_rel_def
  uvc_set_privacy_def uvc_set_digital_window_def uvc_set_digital_roi_def uvc_set_backlight_compensation_def
  uvc_set_brightness_def uvc_set_contrast_def uvc_set_contrast_auto_def uvc_set_gain_def
  uvc_set_power_line_frequency_def uvc_set_hue_def uvc_set_hue_auto_def uvc_set_saturation_def
  uvc_set_sharpness_def uvc_set_gamma_def uvc_set_white_balance_temperature_def
  uvc_set_white_balance_temperature_auto_def uvc_set_white_balance_component_def
  uvc_set_white_balance_component_auto_def uvc_set_digital_multiplier_def uvc_set_digital_multiplier_limit_def
  uvc_set_analog_video_standard_def uvc_set_analog_video_lock_status_def uvc_set_input_select_def

lemma SW_if: "SW_TO_SHORT p i = (if i + 1 < length p then Some (sw_of (p ! i) (p ! (i + 1))) else None)"
  by (simp add: SW_TO_SHORT_def rd_def)

lemma DW_if: "DW_TO_INT p i =
    (if i + 3 < length p then Some (dw_of (p ! i) (p ! (i + 1)) (p ! (i + 2)) (p ! (i + 3))) else None)"
  by (simp add: DW_TO_INT_def rd_def)

lemma take_drop_Suc: "k < length w \<Longrightarrow> take (Suc n) (drop k w) = w ! k # take n (drop (Suc k) w)"
  by (simp add: Cons_nth_drop_Suc [symmetric])

lemma le_value_at:
  "k < length w \<Longrightarrow> le_value (take (Suc 0) (drop k w)) = unat (w ! k)"
  "k + 1 < length w \<Longrightarrow> le_value (take 2 (drop k w)) = unat (sw_of (w ! k) (w ! (k + 1)))"
  "k + 3 < length w \<Longrightarrow> le_value (take 4 (drop k w)) = unat (dw_of (w ! k) (w ! (k + 1)) (w ! (k + 2)) (w ! (k + 3)))"
proof -
  show "k < length w \<Longrightarrow> le_value (take (Suc 0) (drop k w)) = unat (w ! k)"
    by (simp add: take_drop_Suc)
  show "k + 1 < length w \<Longrightarrow> le_value (take 2 (drop k w)) = unat (sw_of (w ! k) (w ! (k + 1)))"
    by (simp add: take_drop_Suc numeral_2_eq_2 unat_sw_of)
  assume "k + 3 < length w"
  then have "take 4 (drop k w) = [w ! k, w ! (k + 1), w ! (k + 2), w ! (k + 3)]"
    by (simp add: take_drop_Suc numeral_eq_Suc)
  then show "le_value (take 4 (drop k w)) = unat (dw_of (w ! k) (w ! (k + 1)) (w ! (k + 2)) (w ! (k + 3)))"
    by (simp add: unat_dw_of)
qed

lemma le_value_front:
  "Suc 0 \<le> length w \<Longrightarrow> le_value (take (Suc 0) w) = unat (w ! 0)"
  "2 \<le> length w \<Longrightarrow> le_value (take 2 w) = unat (sw_of (w ! 0) (w ! 1))"
  "4 \<le> length w \<Longrightarrow> le_value (take 4 w) = unat (dw_of (w ! 0) (w ! 1) (w ! Suc (Suc 0)) (w ! 3))"
  using le_value_at [of 0 w] by (simp_all add: Suc_le_eq numeral_2_eq_2)

lemma control_get_spec:
  assumes "index = spec_index (control_unit c) info" and "control = control_selector c" and "n = control_length c"
    and "\<And>w. n \<le> length w \<Longrightarrow> map_option f (unpack (take n w)) = Some (spec_decode (control_fields c) w)"
    and "\<And>w. length w < n \<Longrightarrow> unpack w = None"
  shows "got f (control_get ct index control n unpack req u) = spec_get c ct info req u"
proof (cases "spec_index (control_unit c) info")
  case None
  then show ?thesis by (simp add: assms(1) control_get_def spec_get_def got_def)
next
  case (Some i)
  obtain ret w u' where ct: "ct 0xa1 req (256 * ucast (control_selector c)) i (replicate n 0) u = (ret, w, u')"
    by (cases "ct 0xa1 req (256 * ucast (control_selector c)) i (replicate n 0) u") auto
  show ?thesis
  proof (cases "n \<le> length w")
    case True
    then obtain v where "unpack (take n w) = Some v" "f v = spec_decode (control_fields c) w" using assms(4) [OF True] by auto
    then show ?thesis using Some ct True by (simp add: assms(1-3) [symmetric] selector_value control_get_def spec_get_def got_def)
  next
    case False
    then show ?thesis using Some ct assms(5) [of w]
      by (simp add: assms(1-3) [symmetric] selector_value control_get_def spec_get_def got_def)
  qed
qed

lemma call_get_spec: "call_get c ct info req u = spec_get c ct info req u"
  by (cases c; simp only: call_get.simps getter_defs; rule control_get_spec;
    auto simp: camera_index_spec processing_index_spec selector_index_spec control_length_def rd_def SW_if DW_if
      le_value_at le_value_front; simp add: numeral_2_eq_2 numeral_3_eq_3)

lemma put_fields:
  "put8 (of_nat v) data i = mem_put data i (map Some (le_bytes 1 v))"
  "SHORT_TO_SW_at (of_nat v) data i = mem_put data i (map Some (le_bytes 2 v))"
  "INT_TO_DW_at (of_nat v) data i = mem_put data i (map Some (le_bytes 4 v))"
  by (simp_all add: put8_def SHORT_TO_SW_at_def INT_TO_DW_at_def SHORT_TO_SW_le INT_TO_DW_le le_bytes_def)

text \<open>Filling a fresh array from the front.\<close>

lemma mem_put_next:
  "length xs = i \<Longrightarrow> mem_put (map Some xs @ local_array n) i (map Some ys) =
     (if length ys \<le> n then Some (map Some (xs @ ys) @ local_array (n - length ys)) else None)"
  by (simp add: mem_put_def local_array_def)

lemma mem_put_first:
  "mem_put (local_array n) 0 (map Some ys) = (if length ys \<le> n then Some (map Some ys @ local_array (n - length ys)) else None)"
  using mem_put_next [of "[]" 0 n ys] by simp

lemma those_map_Some: "those (map Some xs) = Some xs"
  by (induction xs) simp_all

lemma local_array_0 [simp]: "local_array 0 = []"
  by (simp add: local_array_def)

lemma control_set_spec:
  assumes "index = spec_index (control_unit c) info" and "control = control_selector c"
    and "data = map Some (spec_encode (control_fields c) vs)" and "length vs = length (control_fields c)"
  shows "control_set ct index control data u = spec_set c ct info vs u"
  using assms by (auto simp: control_set_def spec_set_def selector_value those_map_Some length_spec_encode control_length_def
      split: option.splits prod.splits)

lemma call_set_spec: "length vs = length (control_fields c) \<Longrightarrow> call_set c ct info vs u = spec_set c ct info vs u"
  by (cases c; simp only: call_set.simps setter_defs put_fields;
    auto simp: camera_index_spec processing_index_spec selector_index_spec mem_put_first mem_put_next length_Suc_conv spec_encode_def
      numeral_eq_Suc simp flip: map_append simp del: spec_index.simps map_append intro!: control_set_spec)

section \<open>Reading back\<close>

text \<open>
  The contract of one control: its two functions are transfers of \<open>n\<close> bytes to one address, through a
  codec.  Without the unit there is no address, and both dereference a null pointer.
\<close>

locale control_codec =
  fixes get :: "'u control_transfer \<Rightarrow> u8 \<Rightarrow> 'u \<Rightarrow> (int \<times> 'v option \<times> 'u) option"
    and set :: "'u control_transfer \<Rightarrow> 'v \<Rightarrow> 'u \<Rightarrow> (int \<times> 'u) option"
    and valid :: "'v \<Rightarrow> bool" and enc :: "'v \<Rightarrow> bytes" and dec :: "bytes \<Rightarrow> 'v"
    and n :: nat and sel :: u16 and idx :: "u16 option"
  assumes get_eq: "get ct req u = (case idx of None \<Rightarrow> None | Some i \<Rightarrow>
      (case ct 0xa1 req sel i (replicate n 0) u of (ret, w, u') \<Rightarrow>
         if ret \<noteq> int n then Some (ret, None, u') else if length w < n then None else Some (0, Some (dec w), u')))"
    and set_eq: "valid v \<Longrightarrow> set ct v u = (case idx of None \<Rightarrow> None | Some i \<Rightarrow>
      (case ct 0x21 1 sel i (enc v) u of (ret, w, u') \<Rightarrow> Some (if ret = int n then 0 else ret, u')))"
    and len_enc: "valid v \<Longrightarrow> length (enc v) = n"
    and dec_enc: "valid v \<Longrightarrow> dec (enc v) = v"
begin

lemma set_then_get:
  assumes "idx = Some i" and "valid v" and "ct 0x21 1 sel i (enc v) u = (int n, w, ut)"
    and "ct 0xa1 0x81 sel i (replicate n 0) ut = (int n, enc v, us)"
  shows "set ct v u = Some (0, ut) \<and> get ct 0x81 ut = Some (0, Some v, us)"
  using assms len_enc [OF assms(2)] dec_enc [OF assms(2)] set_eq [OF assms(2)] by (simp add: get_eq)

lemma get_depends:
  assumes "\<And>i. idx = Some i \<Longrightarrow> \<exists>r w. ct 0xa1 req sel i (replicate n 0) u = (r, w, u) \<and> ct 0xa1 req sel i (replicate n 0) u' = (r, w, u')"
  shows "map_option (\<lambda>(r, v, _). (r, v)) (get ct req u') = map_option (\<lambda>(r, v, _). (r, v)) (get ct req u)"
  using assms by (fastforce simp: get_eq split: option.splits)

end

definition fields_fit :: "control \<Rightarrow> nat list \<Rightarrow> bool" where
  "fields_fit c vs = list_all2 (\<lambda>n v. v < 256 ^ n) (control_fields c) vs"

interpretation ctl: control_codec "\<lambda>ct. call_get c ct info" "\<lambda>ct. call_set c ct info" "fields_fit c" "spec_encode (control_fields c)"
  "spec_decode (control_fields c)" "control_length c" "256 * ucast (control_selector c)" "spec_index (control_unit c) info" for c info
  by unfold_locales
    (auto simp: call_get_spec spec_get_def call_set_spec spec_set_def fields_fit_def control_length_def
      spec_decode_encode list_all2_lengthD [symmetric] length_spec_encode)

text \<open>
  A device that keeps its settings: \<open>cur u\<close> is the setting at each address in the state \<open>u\<close>.  SET_CUR
  stores the bytes sent and GET_CUR sends what is stored, cut to the length asked for.
\<close>

definition keeps_settings :: "'u control_transfer \<Rightarrow> ('u \<Rightarrow> u16 \<Rightarrow> u16 \<Rightarrow> bytes) \<Rightarrow> bool" where
  "keeps_settings ct cur =
     ((\<forall>v i data u. \<exists>w u'. ct 0x21 1 v i data u = (int (length data), w, u') \<and>
         cur u' = (\<lambda>v' i'. if v' = v \<and> i' = i then data else cur u v' i')) \<and>
      (\<forall>v i buf u. ct 0xa1 0x81 v i buf u =
         (int (min (length buf) (length (cur u v i))), take (length buf) (cur u v i), u)))"

lemma control_address_inj: "control_unit c = control_unit c' \<Longrightarrow> control_selector c = control_selector c' \<Longrightarrow> c = c'"
  by (cases c; cases c') simp_all

lemma selector_inj: "256 * ucast (a :: u8) = (256 * ucast b :: u16) \<Longrightarrow> a = b"
  unfolding selector_value [symmetric] by (rule bit_word_eqI) (auto simp: bit_eq_iff bit_simps dest: spec [of _ "8 + _"])

text \<open>
  C7: every generated control function does what the table of controls says.  A getter asks the unit
  that has the control, under its selector, for as many bytes as the control has and decodes its
  little-endian fields in order; a setter sends the fields' bytes, all of them written, in that order.
  Both report success exactly when all bytes were transferred and pass on any other return value, and
  both dereference a null pointer exactly when the device lacks the unit.
\<close>

theorem controls_conform:
  "call_get c ct info req u = spec_get c ct info req u \<and>
   (length vs = length (control_fields c) \<longrightarrow> call_set c ct info vs u = spec_set c ct info vs u)"
  by (simp add: call_get_spec call_set_spec)

text \<open>
  C29: on a device that keeps its settings and whose units have different ids, setting a control to
  values that fit its fields succeeds, reading it back gives those values, and no other control changes.
\<close>

theorem control_roundtrip:
  assumes "keeps_settings ct cur" and "fields_fit c vs" and "spec_index (control_unit c) info \<noteq> None"
    and "\<And>k k'. spec_index k info = spec_index k' info \<Longrightarrow> spec_index k info \<noteq> None \<Longrightarrow> k = k'"
  shows "\<exists>u'. call_set c ct info vs u = Some (UVC_SUCCESS, u') \<and>
    call_get c ct info UVC_GET_CUR u' = Some (UVC_SUCCESS, Some vs, u') \<and>
    (\<forall>c'. c' \<noteq> c \<longrightarrow> map_option (\<lambda>(r, v, _). (r, v)) (call_get c' ct info UVC_GET_CUR u') =
       map_option (\<lambda>(r, v, _). (r, v)) (call_get c' ct info UVC_GET_CUR u))"
proof -
  let ?sel = "\<lambda>c. 256 * ucast (control_selector c) :: u16"
  obtain i where i: "spec_index (control_unit c) info = Some i" using assms(3) by auto
  let ?data = "spec_encode (control_fields c) vs"
  have len: "length ?data = control_length c" using ctl.len_enc [OF assms(2)] .
  obtain w u' where s: "ct 0x21 1 (?sel c) i ?data u = (int (control_length c), w, u')"
    and cur: "cur u' = (\<lambda>v' i'. if v' = ?sel c \<and> i' = i then ?data else cur u v' i')"
    using conjunct1 [OF assms(1) [unfolded keeps_settings_def], THEN spec [of _ "?sel c"], THEN spec [of _ i], THEN spec [of _ ?data],
        THEN spec [of _ u]] unfolding len by (elim exE conjE)
  have g: "ct 0xa1 0x81 v j buf u = (int (min (length buf) (length (cur u v j))), take (length buf) (cur u v j), u)" for v j buf u
    using conjunct2 [OF assms(1) [unfolded keeps_settings_def]] by (elim allE)
  have "call_set c ct info vs u = Some (0, u') \<and> call_get c ct info 0x81 u' = Some (0, Some vs, u')"
    using ctl.set_then_get [where ct = ct and u = u and w = w and ut = u' and us = u', OF i assms(2) s] len by (simp add: g cur)
  moreover have "map_option (\<lambda>(r, v, _). (r, v)) (call_get c' ct info 0x81 u') = map_option (\<lambda>(r, v, _). (r, v)) (call_get c' ct info 0x81 u)"
    if "c' \<noteq> c" for c'
  proof (rule ctl.get_depends)
    fix j assume j: "spec_index (control_unit c') info = Some j"
    have "\<not> (?sel c' = ?sel c \<and> j = i)"
      using that i j assms(4) [of "control_unit c'" "control_unit c"] control_address_inj [of c' c] selector_inj by auto
    then have "cur u' (?sel c') j = cur u (?sel c') j" by (simp only: cur if_False)
    then show "\<exists>r w. ct 0xa1 0x81 (?sel c') j (replicate (control_length c') 0) u = (r, w, u) \<and>
      ct 0xa1 0x81 (?sel c') j (replicate (control_length c') 0) u' = (r, w, u')" by (simp add: g)
  qed
  ultimately show ?thesis by (intro exI [of _ u']) simp
qed

section \<open>Witnesses\<close>

definition settings_dev :: "(u16 \<Rightarrow> u16 \<Rightarrow> bytes) control_transfer" where
  "settings_dev rt req v i data u =
     (if rt = 0x21 then (int (length data), [], \<lambda>v' i'. if v' = v \<and> i' = i then data else u v' i')
      else (int (min (length data) (length (u v i))), take (length data) (u v i), u))"

lemma settings_dev_keeps: "keeps_settings settings_dev (\<lambda>u. u)"
  by (simp add: keeps_settings_def settings_dev_def)

definition sample_units :: uvc_device_info where
  "sample_units = (device_info0 [])\<lparr> in_ctrl_if := ctrl_if0\<lparr>
     ci_input_term_descs := [\<lparr> it_bTerminalID = 1, it_wTerminalType = UVC_ITT_CAMERA, it_wObjectiveFocalLengthMin = 0,
       it_wObjectiveFocalLengthMax = 0, it_wOcularFocalLength = 0, it_bmControls = 0 \<rparr>],
     ci_selector_unit_descs := [\<lparr> su_bUnitID = 4 \<rparr>],
     ci_processing_unit_descs := [\<lparr> pu_bUnitID = 2, pu_bSourceID = 1, pu_bmControls = 0 \<rparr>] \<rparr> \<rparr>"

lemma sample_units_distinct:
  "spec_index k sample_units = spec_index k' sample_units \<Longrightarrow> k = k'"
proof -
  have "spec_index Camera_terminal sample_units = Some 0x100" "spec_index Processing_unit sample_units = Some 0x200"
    "spec_index Selector_unit sample_units = Some 0x400" by code_simp+
  then show "spec_index k sample_units = spec_index k' sample_units \<Longrightarrow> k = k'" by (cases k; cases k') (simp_all del: spec_index.simps)
qed

theorem controls_conform_witness:
  "call_set Pantilt_abs settings_dev sample_units [3600, 70000] (\<lambda>_ _. []) =
     Some (0, \<lambda>v i. if v = 0x0d00 \<and> i = 0x100 then [0x10, 0x0e, 0, 0, 0x70, 0x11, 0x01, 0] else [])"
proof -
  have e: "spec_encode (control_fields Pantilt_abs) [3600, 70000] = [0x10, 0x0e, 0, 0, 0x70, 0x11, 0x01, 0]"
    by (simp add: spec_encode_def le_bytes_def upt_rec)
  have i: "spec_index (control_unit Pantilt_abs) sample_units = Some 0x100" by code_simp
  have "call_set Pantilt_abs settings_dev sample_units [3600, 70000] (\<lambda>_ _. []) = spec_set Pantilt_abs settings_dev sample_units [3600, 70000] (\<lambda>_ _. [])"
    using controls_conform [of Pantilt_abs settings_dev sample_units 0 "\<lambda>_ _. []" "[3600, 70000]"] by simp
  then show ?thesis unfolding spec_set_def e i option.case by (simp add: settings_dev_def control_length_def)
qed

theorem control_roundtrip_witness:
  "\<exists>u'. call_set Pantilt_abs settings_dev sample_units [3600, 70000] (\<lambda>_ _. []) = Some (0, u') \<and>
     call_get Pantilt_abs settings_dev sample_units 0x81 u' = Some (0, Some [3600, 70000], u')"
proof -
  have "fields_fit Pantilt_abs [3600, 70000]" by (simp add: fields_fit_def)
  moreover have "spec_index (control_unit Pantilt_abs) sample_units \<noteq> None" by (simp add: sample_units_def)
  ultimately show ?thesis
    using control_roundtrip [where u = "\<lambda>_ _. []", OF settings_dev_keeps _ _ sample_units_distinct] by blast
qed

end
