(* ===== verification/Dev_List.thy ===== *)
theory Dev_List
  imports Desc_Types
begin

text \<open>
  Listing and finding devices, and the reference counts of \<^verbatim>\<open>uvc_device_t\<close> (device.c).  The structures
  live in a heap; a use of one that is freed has no result.  What libusb reports of each attached device
  is a record.
\<close>

section \<open>State\<close>

text \<open>
  \<open>ud_id\<close> stands for the \<^verbatim>\<open>libusb_device\<close> pointer; \<open>ud_config\<close> is
  \<^term>\<open>None\<close> when libusb cannot read the configuration; \<open>ud_desc_ret\<close> is what it returns for the
  device descriptor, which holds the two numbers when that is zero; the strings are the return value and the
  buffer of \<^verbatim>\<open>libusb_get_string_descriptor_ascii\<close>.
\<close>

record usb_device =
  ud_id :: nat
  ud_config :: "libusb_config option"
  ud_desc_ret :: int
  ud_idVendor :: u16
  ud_idProduct :: u16
  ud_opens :: bool
  ud_serial :: "int \<times> bytes"
  ud_manufacturer :: "int \<times> bytes"
  ud_product :: "int \<times> bytes"

record uvc_device =
  dv_ref :: int
  dv_usb_dev :: usb_device

text \<open>
  The device structures by address and the next free address, the references this library holds on
  libusb's devices, and the number of configuration descriptors not freed yet.
\<close>

record dev_heap =
  hp_devices :: "nat \<Rightarrow> uvc_device option"
  hp_next :: nat
  hp_usb_refs :: "nat \<Rightarrow> int"
  hp_configs :: nat

section \<open>References\<close>

definition uvc_ref_device :: "nat \<Rightarrow> dev_heap \<Rightarrow> dev_heap option" where
  "uvc_ref_device dev h = do {
     d \<leftarrow> hp_devices h dev;
     let d = d\<lparr> dv_ref := dv_ref d + 1 \<rparr>;
     let usb = ud_id (dv_usb_dev d);
     Some (h\<lparr> hp_devices := (hp_devices h)(dev \<mapsto> d), hp_usb_refs := (hp_usb_refs h)(usb := hp_usb_refs h usb + 1) \<rparr>) }"

definition uvc_unref_device :: "nat \<Rightarrow> dev_heap \<Rightarrow> dev_heap option" where
  "uvc_unref_device dev h = do {
     d \<leftarrow> hp_devices h dev;
     let usb = ud_id (dv_usb_dev d);
     let h = h\<lparr> hp_usb_refs := (hp_usb_refs h)(usb := hp_usb_refs h usb - 1) \<rparr>;
     let d = d\<lparr> dv_ref := dv_ref d - 1 \<rparr>;
     Some (h\<lparr> hp_devices := (hp_devices h)(dev := (if dv_ref d = 0 then None else Some d)) \<rparr>) }"

section \<open>Device descriptors\<close>

record uvc_device_descriptor =
  dd_idVendor :: u16
  dd_idProduct :: u16
  dd_serialNumber :: "bytes option"
  dd_manufacturer :: "bytes option"
  dd_product :: "bytes option"

text \<open>\<^verbatim>\<open>strdup\<close> of the buffer when the call returned a positive length.\<close>

definition string_field :: "int \<times> bytes \<Rightarrow> bytes option" where
  "string_field s = (if fst s > 0 then Some (takeWhile (\<lambda>b. b \<noteq> 0) (snd s)) else None)"

text \<open>\<^verbatim>\<open>get_device_descriptor\<close> works on an open handle, the public function opens the device itself.\<close>

definition get_device_descriptor :: "usb_device \<Rightarrow> int \<times> uvc_device_descriptor option" where
  "get_device_descriptor d =
     (if ud_desc_ret d \<noteq> UVC_SUCCESS then (ud_desc_ret d, None)
      else (ud_desc_ret d, Some \<lparr> dd_idVendor = ud_idVendor d, dd_idProduct = ud_idProduct d,
        dd_serialNumber = string_field (ud_serial d), dd_manufacturer = string_field (ud_manufacturer d),
        dd_product = string_field (ud_product d) \<rparr>))"

definition uvc_get_device_descriptor :: "nat \<Rightarrow> dev_heap \<Rightarrow> (int \<times> uvc_device_descriptor option) option" where
  "uvc_get_device_descriptor dev h = do {
     d \<leftarrow> hp_devices h dev;
     let usb = dv_usb_dev d;
     Some (if ud_desc_ret usb \<noteq> UVC_SUCCESS then (ud_desc_ret usb, None)
       else
         let desc = \<lparr> dd_idVendor = ud_idVendor usb, dd_idProduct = ud_idProduct usb, dd_serialNumber = None,
               dd_manufacturer = None, dd_product = None \<rparr>;
             desc = (if ud_opens usb
               then desc\<lparr> dd_serialNumber := string_field (ud_serial usb), dd_manufacturer := string_field (ud_manufacturer usb),
                 dd_product := string_field (ud_product usb) \<rparr>
               else desc)
         in (ud_desc_ret usb, Some desc)) }"

text \<open>The blocks \<^verbatim>\<open>uvc_free_device_descriptor\<close> frees, in order.\<close>

datatype desc_block = Serial_block | Manufacturer_block | Product_block | Descriptor_block

definition uvc_free_device_descriptor :: "uvc_device_descriptor \<Rightarrow> desc_block list" where
  "uvc_free_device_descriptor desc =
     (if dd_serialNumber desc \<noteq> None then [Serial_block] else []) @
     (if dd_manufacturer desc \<noteq> None then [Manufacturer_block] else []) @
     (if dd_product desc \<noteq> None then [Product_block] else []) @ [Descriptor_block]"

lemma free_descriptor_once:
  "distinct (uvc_free_device_descriptor desc)"
  "Serial_block \<in> set (uvc_free_device_descriptor desc) \<longleftrightarrow> dd_serialNumber desc \<noteq> None"
  "Manufacturer_block \<in> set (uvc_free_device_descriptor desc) \<longleftrightarrow> dd_manufacturer desc \<noteq> None"
  "Product_block \<in> set (uvc_free_device_descriptor desc) \<longleftrightarrow> dd_product desc \<noteq> None"
  by (auto simp: uvc_free_device_descriptor_def)

section \<open>Listing\<close>

text \<open>One alternate setting, and the two nested loops that stop at the first hit.\<close>

definition got_altsetting :: "u16 \<Rightarrow> u16 \<Rightarrow> libusb_interface_descriptor \<Rightarrow> bool" where
  "got_altsetting vendor product if_desc =
     (if vendor = 0x199e \<and> product \<ge> 0x8201 \<and> product \<le> 0x8208 then False
      else if vendor = 0x199e \<and> (product = 0x8101 \<or> product = 0x8102) \<and>
          id_bInterfaceClass if_desc = 255 \<and> id_bInterfaceSubClass if_desc = 2 then True
      else id_bInterfaceClass if_desc = 14 \<and> id_bInterfaceSubClass if_desc = 2)"

fun scan_altsettings :: "u16 \<Rightarrow> u16 \<Rightarrow> libusb_interface \<Rightarrow> bool" where
  "scan_altsettings vendor product [] = False"
| "scan_altsettings vendor product (a # as) = (if got_altsetting vendor product a then True else scan_altsettings vendor product as)"

fun scan_interfaces_of :: "u16 \<Rightarrow> u16 \<Rightarrow> libusb_config \<Rightarrow> bool" where
  "scan_interfaces_of vendor product [] = False"
| "scan_interfaces_of vendor product (i # is) = (if scan_altsettings vendor product i then True else scan_interfaces_of vendor product is)"

text \<open>A structure allocated with no reference and referenced at once.\<close>

definition new_device :: "usb_device \<Rightarrow> dev_heap \<Rightarrow> (nat \<times> dev_heap) option" where
  "new_device usb h = do {
     let a = hp_next h;
     let h = h\<lparr> hp_devices := (hp_devices h)(a \<mapsto> \<lparr> dv_ref = 0, dv_usb_dev = usb \<rparr>), hp_next := a + 1 \<rparr>;
     h \<leftarrow> uvc_ref_device a h;
     Some (a, h) }"

text \<open>The loop over libusb's devices.  The list is built by appending.\<close>

fun list_devices :: "usb_device list \<Rightarrow> nat list \<Rightarrow> dev_heap \<Rightarrow> (nat list \<times> dev_heap) option" where
  "list_devices [] list h = Some (list, h)"
| "list_devices (usb # usbs) list h =
     (case ud_config usb of
        None \<Rightarrow> list_devices usbs list h
      | Some config \<Rightarrow>
          let h = h\<lparr> hp_configs := hp_configs h + 1 \<rparr> in
          if ud_desc_ret usb \<noteq> UVC_SUCCESS then list_devices usbs list h
          else
            let got_interface = scan_interfaces_of (ud_idVendor usb) (ud_idProduct usb) config;
                h = h\<lparr> hp_configs := hp_configs h - 1 \<rparr>
            in if got_interface
               then do { (a, h) \<leftarrow> new_device usb h; list_devices usbs (list @ [a]) h }
               else list_devices usbs list h)"

text \<open>\<open>usbs\<close> is what \<^verbatim>\<open>libusb_get_device_list\<close> reports, \<^term>\<open>None\<close> a negative count.\<close>

definition uvc_get_device_list :: "usb_device list option \<Rightarrow> dev_heap \<Rightarrow> (int \<times> nat list option \<times> dev_heap) option" where
  "uvc_get_device_list usbs h = (case usbs of
     None \<Rightarrow> Some (UVC_ERROR_IO, None, h)
   | Some usbs \<Rightarrow> do { (list, h) \<leftarrow> list_devices usbs [] h; Some (UVC_SUCCESS, Some list, h) })"

fun unref_all :: "nat list \<Rightarrow> dev_heap \<Rightarrow> dev_heap option" where
  "unref_all [] h = Some h"
| "unref_all (a # as) h = do { h \<leftarrow> uvc_unref_device a h; unref_all as h }"

definition uvc_free_device_list :: "nat list \<Rightarrow> bool \<Rightarrow> dev_heap \<Rightarrow> dev_heap option" where
  "uvc_free_device_list list unref_devices h = (if unref_devices then unref_all list h else Some h)"

section \<open>Finding\<close>

text \<open>Zero numbers and a null serial number match everything.\<close>

definition desc_matches :: "int \<Rightarrow> int \<Rightarrow> bytes option \<Rightarrow> uvc_device_descriptor \<Rightarrow> bool" where
  "desc_matches vid pid sn desc =
     ((vid = 0 \<or> uint (dd_idVendor desc) = vid) \<and> (pid = 0 \<or> uint (dd_idProduct desc) = pid) \<and>
      (case sn of None \<Rightarrow> True | Some s \<Rightarrow> dd_serialNumber desc = Some s))"

fun find_in_list :: "int \<Rightarrow> int \<Rightarrow> bytes option \<Rightarrow> nat list \<Rightarrow> dev_heap \<Rightarrow> nat option option" where
  "find_in_list vid pid sn [] h = Some None"
| "find_in_list vid pid sn (a # as) h = do {
     (ret, desc) \<leftarrow> uvc_get_device_descriptor a h;
     case desc of
       None \<Rightarrow> find_in_list vid pid sn as h
     | Some desc \<Rightarrow> if desc_matches vid pid sn desc then Some (Some a) else find_in_list vid pid sn as h }"

definition uvc_find_device ::
  "usb_device list option \<Rightarrow> int \<Rightarrow> int \<Rightarrow> bytes option \<Rightarrow> dev_heap \<Rightarrow> (int \<times> nat option \<times> dev_heap) option" where
  "uvc_find_device usbs vid pid sn h = do {
     (ret, list, h) \<leftarrow> uvc_get_device_list usbs h;
     case list of
       None \<Rightarrow> Some (ret, None, h)
     | Some list \<Rightarrow> do {
         found \<leftarrow> find_in_list vid pid sn list h;
         h \<leftarrow> (case found of None \<Rightarrow> Some h | Some a \<Rightarrow> uvc_ref_device a h);
         h \<leftarrow> uvc_free_device_list list True h;
         Some (if found \<noteq> None then UVC_SUCCESS else UVC_ERROR_NO_DEVICE, found, h) } }"

text \<open>The same with every match kept, and its reference taken inside the loop.\<close>

fun find_all_in_list :: "int \<Rightarrow> int \<Rightarrow> bytes option \<Rightarrow> nat list \<Rightarrow> nat list \<Rightarrow> dev_heap \<Rightarrow> (nat list \<times> dev_heap) option" where
  "find_all_in_list vid pid sn [] found h = Some (found, h)"
| "find_all_in_list vid pid sn (a # as) found h = do {
     (ret, desc) \<leftarrow> uvc_get_device_descriptor a h;
     case desc of
       None \<Rightarrow> find_all_in_list vid pid sn as found h
     | Some desc \<Rightarrow>
         if desc_matches vid pid sn desc
         then do { h \<leftarrow> uvc_ref_device a h; find_all_in_list vid pid sn as (found @ [a]) h }
         else find_all_in_list vid pid sn as found h }"

definition uvc_find_devices ::
  "usb_device list option \<Rightarrow> int \<Rightarrow> int \<Rightarrow> bytes option \<Rightarrow> dev_heap \<Rightarrow> (int \<times> nat list option \<times> dev_heap) option" where
  "uvc_find_devices usbs vid pid sn h = do {
     (ret, list, h) \<leftarrow> uvc_get_device_list usbs h;
     case list of
       None \<Rightarrow> Some (ret, None, h)
     | Some list \<Rightarrow> do {
         (found, h) \<leftarrow> find_all_in_list vid pid sn list [] h;
         h \<leftarrow> uvc_free_device_list list True h;
         if found \<noteq> [] then Some (UVC_SUCCESS, Some found, h) else Some (UVC_ERROR_NO_DEVICE, None, h) } }"

section \<open>Specification\<close>

definition is_uvc :: "usb_device \<Rightarrow> bool" where
  "is_uvc d = (ud_desc_ret d = UVC_SUCCESS \<and>
     (case ud_config d of None \<Rightarrow> False | Some c \<Rightarrow> list_ex (list_ex (got_altsetting (ud_idVendor d) (ud_idProduct d))) c))"

definition usb_matches :: "int \<Rightarrow> int \<Rightarrow> bytes option \<Rightarrow> usb_device \<Rightarrow> bool" where
  "usb_matches vid pid sn d = ((vid = 0 \<or> uint (ud_idVendor d) = vid) \<and> (pid = 0 \<or> uint (ud_idProduct d) = pid) \<and>
     (sn = None \<or> ud_opens d \<and> string_field (ud_serial d) = sn))"

text \<open>Nothing lies at or above the next address, and every structure is referenced.\<close>

definition heap_ok :: "dev_heap \<Rightarrow> bool" where
  "heap_ok h = ((\<forall>a \<ge> hp_next h. hp_devices h a = None) \<and> (\<forall>a d. hp_devices h a = Some d \<longrightarrow> 0 < dv_ref d))"

text \<open>The devices \<open>us\<close> stored from the next address on, each with one reference.\<close>

definition dev_at :: "dev_heap \<Rightarrow> usb_device list \<Rightarrow> nat \<Rightarrow> uvc_device option" where
  "dev_at h us a = (if hp_next h \<le> a \<and> a < hp_next h + length us then Some \<lparr> dv_ref = 1, dv_usb_dev = us ! (a - hp_next h) \<rparr>
     else hp_devices h a)"

lemma scan_interfaces_of_eq: "scan_interfaces_of v p c = list_ex (list_ex (got_altsetting v p)) c"
proof -
  have "scan_altsettings v p = list_ex (got_altsetting v p)"
  proof
    fix i show "scan_altsettings v p i = list_ex (got_altsetting v p) i" by (induction i) auto
  qed
  then show ?thesis by (induction c) auto
qed

lemma new_device_eq:
  "new_device usb h = Some (hp_next h, h\<lparr> hp_devices := (hp_devices h)(hp_next h \<mapsto> \<lparr> dv_ref = 1, dv_usb_dev = usb \<rparr>),
     hp_next := hp_next h + 1, hp_usb_refs := (hp_usb_refs h)(ud_id usb := hp_usb_refs h (ud_id usb) + 1) \<rparr>)"
  by (simp add: new_device_def uvc_ref_device_def Let_def)

lemma list_devices_step:
  "list_devices (usb # usbs) list h =
     (if is_uvc usb then do { (a, h) \<leftarrow> new_device usb h; list_devices usbs (list @ [a]) h }
      else list_devices usbs list (h\<lparr> hp_configs := hp_configs h + (if ud_config usb \<noteq> None \<and> ud_desc_ret usb \<noteq> 0 then 1 else 0) \<rparr>))"
  by (auto simp: is_uvc_def scan_interfaces_of_eq Let_def split: option.splits)

declare list_devices.simps(2) [simp del]

text \<open>The references to one libusb device that a list of devices stands for.\<close>

definition refs_of :: "usb_device list \<Rightarrow> nat \<Rightarrow> int" where
  "refs_of us i = int (length (filter (\<lambda>d. ud_id d = i) us))"

lemma refs_of_simps [simp]: "refs_of [] i = 0" "refs_of (d # us) i = (if ud_id d = i then 1 else 0) + refs_of us i"
  by (simp_all add: refs_of_def)

lemma list_devices_eq:
  "\<exists>h'. list_devices usbs list h = Some (list @ [hp_next h..<hp_next h + length (filter is_uvc usbs)], h') \<and>
     hp_devices h' = dev_at h (filter is_uvc usbs) \<and> hp_next h' = hp_next h + length (filter is_uvc usbs) \<and>
     hp_usb_refs h' = (\<lambda>i. hp_usb_refs h i + refs_of (filter is_uvc usbs) i) \<and>
     hp_configs h' = hp_configs h + length (filter (\<lambda>d. ud_config d \<noteq> None \<and> ud_desc_ret d \<noteq> 0) usbs)"
proof (induction usbs arbitrary: list h)
  case Nil
  show ?case by (auto simp: dev_at_def fun_eq_iff)
next
  case (Cons usb usbs)
  show ?case
  proof (cases "is_uvc usb")
    case False
    let ?h = "h\<lparr> hp_configs := hp_configs h + (if ud_config usb \<noteq> None \<and> ud_desc_ret usb \<noteq> 0 then 1 else 0) \<rparr>"
    have "dev_at ?h us = dev_at h us" for us by (simp add: dev_at_def fun_eq_iff)
    with Cons.IH [of list ?h] False show ?thesis by (auto simp: list_devices_step)
  next
    case True
    then have d: "ud_desc_ret usb = 0" by (simp add: is_uvc_def)
    let ?h = "h\<lparr> hp_devices := (hp_devices h)(hp_next h \<mapsto> \<lparr> dv_ref = 1, dv_usb_dev = usb \<rparr>),
     hp_next := hp_next h + 1, hp_usb_refs := (hp_usb_refs h)(ud_id usb := hp_usb_refs h (ud_id usb) + 1) \<rparr>"
    let ?us = "filter is_uvc usbs" let ?n = "hp_next h"
    have at: "dev_at ?h ?us = dev_at h (usb # ?us)"
    proof
      fix a show "dev_at ?h ?us a = dev_at h (usb # ?us) a"
        by (cases "a = ?n") (auto simp: dev_at_def nth_Cons' diff_Suc)
    qed
    have upt: "[?n] @ [?n + 1..<?n + 1 + length ?us] = [?n..<?n + length (usb # ?us)]"
      using upt_conv_Cons [of ?n "?n + length (usb # ?us)"] by (simp del: upt_Suc)
    from Cons.IH [of "list @ [?n]" ?h] obtain h' where
      h': "list_devices usbs (list @ [?n]) ?h = Some ((list @ [?n]) @ [?n + 1..<?n + 1 + length ?us], h')"
      "hp_devices h' = dev_at ?h ?us" "hp_next h' = ?n + 1 + length ?us"
      "hp_usb_refs h' = (\<lambda>i. hp_usb_refs ?h i + refs_of ?us i)"
      "hp_configs h' = hp_configs h + length (filter (\<lambda>d. ud_config d \<noteq> None \<and> ud_desc_ret d \<noteq> 0) usbs)" by auto
    have "list_devices (usb # usbs) list h = Some (list @ [?n..<?n + length (usb # ?us)], h')"
      using h'(1) True unfolding upt [symmetric] by (simp add: list_devices_step new_device_eq)
    then show ?thesis using h'(2-5) True d at by (intro exI [of _ h']) (auto simp: fun_eq_iff)
  qed
qed

text \<open>What a reference more, or one less, does to the structure at each address of a list.\<close>

lemma unref_all_eq:
  assumes "distinct as" and "\<forall>a \<in> set as. hp_devices h a \<noteq> None"
  shows "\<exists>h'. unref_all as h = Some h' \<and> hp_next h' = hp_next h \<and> hp_configs h' = hp_configs h \<and>
    hp_devices h' = (\<lambda>a. if a \<in> set as then
        Option.bind (hp_devices h a) (\<lambda>d. if dv_ref d = 1 then None else Some (d\<lparr> dv_ref := dv_ref d - 1 \<rparr>))
      else hp_devices h a) \<and>
    hp_usb_refs h' = (\<lambda>i. hp_usb_refs h i - refs_of (map (\<lambda>a. dv_usb_dev (the (hp_devices h a))) as) i)"
  using assms
proof (induction as arbitrary: h)
  case (Cons a as)
  then obtain d where d: "hp_devices h a = Some d" by auto
  let ?h = "h\<lparr> hp_usb_refs := (hp_usb_refs h)(ud_id (dv_usb_dev d) := hp_usb_refs h (ud_id (dv_usb_dev d)) - 1),
    hp_devices := (hp_devices h)(a := (if dv_ref d = 1 then None else Some (d\<lparr> dv_ref := dv_ref d - 1 \<rparr>))) \<rparr>"
  have u: "uvc_unref_device a h = Some ?h" using d by (simp add: uvc_unref_device_def Let_def)
  have m: "map (\<lambda>a. dv_usb_dev (the (hp_devices ?h a))) as = map (\<lambda>a. dv_usb_dev (the (hp_devices h a))) as"
    using Cons.prems(1) by auto
  have pre: "distinct as" "\<forall>x \<in> set as. hp_devices ?h x \<noteq> None" using Cons.prems by auto
  from Cons.IH [OF pre, unfolded m] obtain h' where h': "unref_all as ?h = Some h'" "hp_next h' = hp_next h" "hp_configs h' = hp_configs h"
    "hp_devices h' = (\<lambda>a. if a \<in> set as then
        Option.bind (hp_devices ?h a) (\<lambda>d. if dv_ref d = 1 then None else Some (d\<lparr> dv_ref := dv_ref d - 1 \<rparr>))
      else hp_devices ?h a)"
    "hp_usb_refs h' = (\<lambda>i. hp_usb_refs ?h i - refs_of (map (\<lambda>a. dv_usb_dev (the (hp_devices h a))) as) i)"
    by auto
  have "unref_all (a # as) h = Some h'" using u h'(1) by simp
  then show ?case using h'(2-5) Cons.prems(1) d by (intro exI [of _ h']) (auto simp: fun_eq_iff)
qed (auto simp: fun_eq_iff)

lemma ref_device_eq:
  assumes "hp_devices h a = Some d"
  shows "uvc_ref_device a h = Some (h\<lparr> hp_devices := (hp_devices h)(a \<mapsto> d\<lparr> dv_ref := dv_ref d + 1 \<rparr>),
     hp_usb_refs := (hp_usb_refs h)(ud_id (dv_usb_dev d) := hp_usb_refs h (ud_id (dv_usb_dev d)) + 1) \<rparr>)"
  using assms by (simp add: uvc_ref_device_def Let_def)

text \<open>Testing a listed device: its descriptor could be read when it was listed.\<close>

lemma descriptor_matches:
  assumes "hp_devices h a = Some d" and "ud_desc_ret (dv_usb_dev d) = 0"
  shows "\<exists>desc. uvc_get_device_descriptor a h = Some (0, Some desc) \<and> desc_matches vid pid sn desc = usb_matches vid pid sn (dv_usb_dev d)"
  using assms by (auto simp: uvc_get_device_descriptor_def desc_matches_def usb_matches_def Let_def split: option.splits)

abbreviation hits :: "int \<Rightarrow> int \<Rightarrow> bytes option \<Rightarrow> dev_heap \<Rightarrow> nat \<Rightarrow> bool" where
  "hits vid pid sn h a \<equiv> usb_matches vid pid sn (dv_usb_dev (the (hp_devices h a)))"

lemma find_in_list_eq:
  assumes "\<forall>a \<in> set as. \<exists>d. hp_devices h a = Some d \<and> ud_desc_ret (dv_usb_dev d) = 0"
  shows "find_in_list vid pid sn as h = Some (find (hits vid pid sn h) as)"
  using assms
proof (induction as)
  case (Cons a as)
  then obtain d where d: "hp_devices h a = Some d" "ud_desc_ret (dv_usb_dev d) = 0" by auto
  from descriptor_matches [OF this, of vid pid sn] Cons d(1) show ?case by auto
qed simp

lemma find_all_in_list_eq:
  assumes "distinct as" and "\<forall>a \<in> set as. \<exists>d. hp_devices h a = Some d \<and> ud_desc_ret (dv_usb_dev d) = 0"
  shows "\<exists>h'. find_all_in_list vid pid sn as found h = Some (found @ filter (hits vid pid sn h) as, h') \<and>
    hp_next h' = hp_next h \<and> hp_configs h' = hp_configs h \<and>
    hp_devices h' = (\<lambda>a. if a \<in> set (filter (hits vid pid sn h) as) then map_option (\<lambda>d. d\<lparr> dv_ref := dv_ref d + 1 \<rparr>) (hp_devices h a)
      else hp_devices h a) \<and>
    hp_usb_refs h' = (\<lambda>i. hp_usb_refs h i + refs_of (map (\<lambda>a. dv_usb_dev (the (hp_devices h a))) (filter (hits vid pid sn h) as)) i)"
  using assms
proof (induction as arbitrary: found h)
  case (Cons a as)
  then obtain d where d: "hp_devices h a = Some d" "ud_desc_ret (dv_usb_dev d) = 0" by auto
  from descriptor_matches [OF this, of vid pid sn] obtain desc where
    desc: "uvc_get_device_descriptor a h = Some (0, Some desc)" "desc_matches vid pid sn desc = hits vid pid sn h a" using d(1) by auto
  show ?case
  proof (cases "hits vid pid sn h a")
    case False
    then show ?thesis using Cons.IH [of h found] Cons.prems desc by auto
  next
    case True
    let ?h = "h\<lparr> hp_devices := (hp_devices h)(a \<mapsto> d\<lparr> dv_ref := dv_ref d + 1 \<rparr>),
      hp_usb_refs := (hp_usb_refs h)(ud_id (dv_usb_dev d) := hp_usb_refs h (ud_id (dv_usb_dev d)) + 1) \<rparr>"
    have same: "hits vid pid sn ?h x = hits vid pid sn h x" "dv_usb_dev (the (hp_devices ?h x)) = dv_usb_dev (the (hp_devices h x))" for x
      using d(1) by simp_all
    have pre: "distinct as" "\<forall>x \<in> set as. \<exists>d. hp_devices ?h x = Some d \<and> ud_desc_ret (dv_usb_dev d) = 0"
      using Cons.prems by auto
    from Cons.IH [OF pre, of "found @ [a]", unfolded same] obtain h' where
      h': "find_all_in_list vid pid sn as (found @ [a]) ?h = Some ((found @ [a]) @ filter (hits vid pid sn h) as, h')"
      "hp_next h' = hp_next h" "hp_configs h' = hp_configs h"
      "hp_devices h' = (\<lambda>x. if x \<in> set (filter (hits vid pid sn h) as) then map_option (\<lambda>d. d\<lparr> dv_ref := dv_ref d + 1 \<rparr>) (hp_devices ?h x)
        else hp_devices ?h x)"
      "hp_usb_refs h' = (\<lambda>i. hp_usb_refs ?h i + refs_of (map (\<lambda>a. dv_usb_dev (the (hp_devices h a))) (filter (hits vid pid sn h) as)) i)"
      by auto
    have "find_all_in_list vid pid sn (a # as) found h = Some (found @ filter (hits vid pid sn h) (a # as), h')"
      using desc True h'(1) ref_device_eq [OF d(1)] by simp
    then show ?thesis using h'(2-5) Cons.prems(1) d(1) True by (intro exI [of _ h']) (auto simp: fun_eq_iff)
  qed
qed (auto simp: fun_eq_iff)

text \<open>
  Listing, taking a reference to some of the devices and freeing the list leaves those, with one
  reference, and nothing else.
\<close>

lemma settle:
  assumes ok: "heap_ok h" and n: "n = hp_next h"
    and S: "S \<subseteq> {n..<n + length us}"
    and h2: "hp_devices h2 = (\<lambda>a. if a \<in> S then map_option (\<lambda>d. d\<lparr> dv_ref := dv_ref d + 1 \<rparr>) (dev_at h us a) else dev_at h us a)"
      "hp_usb_refs h2 = (\<lambda>i. hp_usb_refs h i + refs_of us i + r i)" "hp_next h2 = n + length us"
  shows "\<exists>h3. unref_all [n..<n + length us] h2 = Some h3 \<and> hp_next h3 = n + length us \<and> hp_configs h3 = hp_configs h2 \<and>
    hp_devices h3 = (\<lambda>a. if a \<in> S then Some \<lparr> dv_ref = 1, dv_usb_dev = us ! (a - n) \<rparr> else hp_devices h a) \<and>
    hp_usb_refs h3 = (\<lambda>i. hp_usb_refs h i + r i)"
proof -
  have at: "dev_at h us a = Some \<lparr> dv_ref = 1, dv_usb_dev = us ! (a - n) \<rparr>" if "a \<in> {n..<n + length us}" for a
    using that n by (simp add: dev_at_def)
  have "map (\<lambda>a. dv_usb_dev (the (hp_devices h2 a))) [n..<n + length us] = map (\<lambda>a. us ! (a - n)) [n..<n + length us]"
    using at by (auto simp: h2)
  also have "\<dots> = us" by (rule nth_equalityI) auto
  finally have us: "map (\<lambda>a. dv_usb_dev (the (hp_devices h2 a))) [n..<n + length us] = us" .
  have "\<forall>a \<in> set [n..<n + length us]. hp_devices h2 a \<noteq> None" using at by (auto simp: h2)
  from unref_all_eq [OF distinct_upt this, unfolded us] obtain h3 where
    h3: "unref_all [n..<n + length us] h2 = Some h3" "hp_next h3 = hp_next h2" "hp_configs h3 = hp_configs h2"
    "hp_devices h3 = (\<lambda>a. if a \<in> set [n..<n + length us] then
        Option.bind (hp_devices h2 a) (\<lambda>d. if dv_ref d = 1 then None else Some (d\<lparr> dv_ref := dv_ref d - 1 \<rparr>))
      else hp_devices h2 a)"
    "hp_usb_refs h3 = (\<lambda>i. hp_usb_refs h2 i - refs_of us i)" by auto
  have "hp_devices h3 a = (if a \<in> S then Some \<lparr> dv_ref = 1, dv_usb_dev = us ! (a - n) \<rparr> else hp_devices h a)" for a
  proof (cases "a \<in> {n..<n + length us}")
    case True
    then have "hp_devices h a = None" using ok n by (simp add: heap_ok_def)
    then show ?thesis using True at [OF True] by (simp add: h3(4) h2(1))
  next
    case False
    then have "a \<notin> S" "dev_at h us a = hp_devices h a" using S n by (auto simp: dev_at_def)
    then show ?thesis using False by (auto simp: h3(4) h2(1))
  qed
  then show ?thesis using h3 h2(2,3) by auto
qed

lemma listed:
  obtains h1 where "uvc_get_device_list (Some usbs) h =
      Some (UVC_SUCCESS, Some [hp_next h..<hp_next h + length (filter is_uvc usbs)], h1)"
    and "hp_devices h1 = dev_at h (filter is_uvc usbs)" and "hp_next h1 = hp_next h + length (filter is_uvc usbs)"
    and "hp_usb_refs h1 = (\<lambda>i. hp_usb_refs h i + refs_of (filter is_uvc usbs) i)"
    and "\<forall>a \<in> set [hp_next h..<hp_next h + length (filter is_uvc usbs)].
      \<exists>d. hp_devices h1 a = Some d \<and> ud_desc_ret (dv_usb_dev d) = 0"
    and "map (\<lambda>a. dv_usb_dev (the (hp_devices h1 a))) [hp_next h..<hp_next h + length (filter is_uvc usbs)] = filter is_uvc usbs"
    and "hp_configs h1 = hp_configs h + length (filter (\<lambda>d. ud_config d \<noteq> None \<and> ud_desc_ret d \<noteq> 0) usbs)"
proof -
  define us where "us = filter is_uvc usbs"
  let ?n = "hp_next h" let ?as = "[hp_next h..<hp_next h + length us]"
  obtain h1 where h1: "list_devices usbs [] h = Some (?as, h1)" "hp_devices h1 = dev_at h us" "hp_next h1 = ?n + length us"
    "hp_usb_refs h1 = (\<lambda>i. hp_usb_refs h i + refs_of us i)" "hp_configs h1 = hp_configs h + length (filter (\<lambda>d. ud_config d \<noteq> None \<and> ud_desc_ret d \<noteq> 0) usbs)"
    using list_devices_eq [of usbs "[]" h] by (auto simp: us_def)
  have at: "dev_at h us a = Some \<lparr> dv_ref = 1, dv_usb_dev = us ! (a - ?n) \<rparr>" if "a \<in> set ?as" for a
    using that by (simp add: dev_at_def)
  have "\<exists>d. hp_devices h1 a = Some d \<and> ud_desc_ret (dv_usb_dev d) = 0" if "a \<in> set ?as" for a
  proof -
    have "us ! (a - ?n) \<in> set us" using that by (intro nth_mem) auto
    then have "ud_desc_ret (us ! (a - ?n)) = 0" by (simp add: us_def is_uvc_def)
    then show ?thesis using at [OF that] h1(2) by simp
  qed
  moreover have "map (\<lambda>a. dv_usb_dev (the (hp_devices h1 a))) ?as = us"
    using at by (intro nth_equalityI) (auto simp: h1(2))
  ultimately show ?thesis using that [of h1] h1 by (simp add: uvc_get_device_list_def us_def)
qed

lemma find_filter: "find P xs = (case filter P xs of [] \<Rightarrow> None | x # _ \<Rightarrow> Some x)"
  by (induction xs) auto

lemma filter_hits:
  assumes "map (\<lambda>a. dv_usb_dev (the (hp_devices h a))) as = us"
  shows "map (\<lambda>a. dv_usb_dev (the (hp_devices h a))) (filter (hits vid pid sn h) as) = filter (usb_matches vid pid sn) us"
  using assms [symmetric] by (simp add: filter_map o_def)

section \<open>Witnesses\<close>

definition sample_usb :: "nat \<Rightarrow> u8 \<Rightarrow> usb_device" where
  "sample_usb i cls = \<lparr> ud_id = i, ud_config = Some [[\<lparr> id_bInterfaceNumber = 1, id_bAlternateSetting = 0, id_bInterfaceClass = cls,
     id_bInterfaceSubClass = 2, id_endpoint = [], id_extra = [] \<rparr>]], ud_desc_ret = 0, ud_idVendor = 0x046d, ud_idProduct = 0x0825,
     ud_opens = True, ud_serial = (3, [65, 66, 67, 0, 9]), ud_manufacturer = (0, []), ud_product = (0, []) \<rparr>"

definition heap0 :: dev_heap where
  "heap0 = \<lparr> hp_devices = (\<lambda>_. None), hp_next = 5, hp_usb_refs = (\<lambda>_. 0), hp_configs = 0 \<rparr>"

lemma heap0_ok: "heap_ok heap0"
  by (simp add: heap_ok_def heap0_def)

lemma find_device_eq:
  assumes "heap_ok h"
  shows "case find (\<lambda>d. is_uvc d \<and> usb_matches vid pid sn d) usbs of
      None \<Rightarrow> \<exists>h'. uvc_find_device (Some usbs) vid pid sn h = Some (UVC_ERROR_NO_DEVICE, None, h') \<and>
        hp_devices h' = hp_devices h \<and> hp_usb_refs h' = hp_usb_refs h \<and> hp_configs h' = hp_configs h + length (filter (\<lambda>d. ud_config d \<noteq> None \<and> ud_desc_ret d \<noteq> 0) usbs) \<and> heap_ok h'
    | Some d \<Rightarrow> \<exists>a h'. uvc_find_device (Some usbs) vid pid sn h = Some (UVC_SUCCESS, Some a, h') \<and> hp_devices h a = None \<and>
        hp_devices h' = (hp_devices h)(a \<mapsto> \<lparr> dv_ref = 1, dv_usb_dev = d \<rparr>) \<and>
        hp_usb_refs h' = (hp_usb_refs h)(ud_id d := hp_usb_refs h (ud_id d) + 1) \<and> hp_configs h' = hp_configs h + length (filter (\<lambda>d. ud_config d \<noteq> None \<and> ud_desc_ret d \<noteq> 0) usbs) \<and> heap_ok h'"
proof -
  let ?us = "filter is_uvc usbs" let ?n = "hp_next h" let ?as = "[hp_next h..<hp_next h + length (filter is_uvc usbs)]"
  obtain h1 where h1: "uvc_get_device_list (Some usbs) h = Some (UVC_SUCCESS, Some ?as, h1)" "hp_devices h1 = dev_at h ?us"
    "hp_next h1 = ?n + length ?us" "hp_usb_refs h1 = (\<lambda>i. hp_usb_refs h i + refs_of ?us i)"
    "\<forall>a \<in> set ?as. \<exists>d. hp_devices h1 a = Some d \<and> ud_desc_ret (dv_usb_dev d) = 0"
    "map (\<lambda>a. dv_usb_dev (the (hp_devices h1 a))) ?as = ?us" "hp_configs h1 = hp_configs h + length (filter (\<lambda>d. ud_config d \<noteq> None \<and> ud_desc_ret d \<noteq> 0) usbs)" by (rule listed)
  have ms: "filter (\<lambda>d. is_uvc d \<and> usb_matches vid pid sn d) usbs = map (\<lambda>a. dv_usb_dev (the (hp_devices h1 a))) (filter (hits vid pid sn h1) ?as)"
    using filter_hits [OF h1(6), of vid pid sn] by (simp add: conj_commute)
  show ?thesis
  proof (cases "filter (hits vid pid sn h1) ?as")
    case Nil
    obtain h3 where h3: "unref_all ?as h1 = Some h3" "hp_devices h3 = hp_devices h" "hp_usb_refs h3 = hp_usb_refs h" "hp_next h3 = ?n + length ?us"
      "hp_configs h3 = hp_configs h1"
      using settle [OF assms refl, of "{}" ?us h1 "\<lambda>_. 0"] h1 by auto
    have "heap_ok h3" using assms h3(2,4) by (auto simp: heap_ok_def)
    then show ?thesis using Nil ms h1(1,7) h3 find_in_list_eq [OF h1(5), of vid pid sn]
      by (auto simp: find_filter uvc_find_device_def uvc_free_device_list_def)
  next
    case (Cons a as)
    then have a: "a \<in> set ?as" by (metis filter_is_subset list.set_intros(1) subsetD)
    let ?d = "?us ! (a - ?n)"
    have d: "hp_devices h1 a = Some \<lparr> dv_ref = 1, dv_usb_dev = ?d \<rparr>" using a h1(2) by (simp add: dev_at_def)
    let ?h2 = "h1\<lparr> hp_devices := (hp_devices h1)(a \<mapsto> \<lparr> dv_ref = 2, dv_usb_dev = ?d \<rparr>),
      hp_usb_refs := (hp_usb_refs h1)(ud_id ?d := hp_usb_refs h1 (ud_id ?d) + 1) \<rparr>"
    have ref: "uvc_ref_device a h1 = Some ?h2" using ref_device_eq [OF d] by simp
    obtain h3 where h3: "unref_all ?as ?h2 = Some h3" "hp_devices h3 = (\<lambda>x. if x \<in> {a} then Some \<lparr> dv_ref = 1, dv_usb_dev = ?us ! (x - ?n) \<rparr> else hp_devices h x)"
      "hp_usb_refs h3 = (\<lambda>i. hp_usb_refs h i + (if i = ud_id ?d then 1 else 0))" "hp_next h3 = ?n + length ?us"
      "hp_configs h3 = hp_configs ?h2"
    proof -
      have S: "{a} \<subseteq> {?n..<?n + length ?us}" using a by simp
      have at: "hp_devices ?h2 = (\<lambda>x. if x \<in> {a} then map_option (\<lambda>d. d\<lparr> dv_ref := dv_ref d + 1 \<rparr>) (dev_at h ?us x) else dev_at h ?us x)"
        using d h1(2) by (auto simp: fun_eq_iff)
      have refs: "hp_usb_refs ?h2 = (\<lambda>i. hp_usb_refs h i + refs_of ?us i + (if i = ud_id ?d then 1 else 0))" "hp_next ?h2 = ?n + length ?us"
        using h1(3,4) by (auto simp: fun_eq_iff)
      show thesis using settle [OF assms refl S at refs] that by (elim exE conjE)
    qed
    have "heap_ok h3" using assms a h3(2,4) by (auto simp: heap_ok_def split: if_splits)
    moreover have "hp_devices h a = None" using assms a by (simp add: heap_ok_def)
    moreover have "uvc_find_device (Some usbs) vid pid sn h = Some (UVC_SUCCESS, Some a, h3)"
      using Cons h1(1) ref h3(1) find_in_list_eq [OF h1(5), of vid pid sn]
      by (simp add: find_filter uvc_find_device_def uvc_free_device_list_def)
    ultimately show ?thesis using Cons ms d h1(7) h3(2,3,5) by (auto simp: find_filter fun_eq_iff)
  qed
qed

text \<open>
  C30: finding a device by vendor, product and serial number, on a heap in order.  The result is the
  first device of libusb's list that has a video streaming interface and matches; it is the one
  structure left allocated by the call, with one reference to it and one to the libusb device.  With no
  match no structure and no reference is left.  Either way one configuration descriptor stays allocated
  for each listed device whose configuration can be read and whose device descriptor cannot.
\<close>

theorem find_device_correct:
  assumes "heap_ok h"
  shows "case find (\<lambda>d. is_uvc d \<and> usb_matches vid pid sn d) usbs of
      None \<Rightarrow> \<exists>h'. uvc_find_device (Some usbs) vid pid sn h = Some (UVC_ERROR_NO_DEVICE, None, h') \<and>
        hp_devices h' = hp_devices h \<and> hp_usb_refs h' = hp_usb_refs h \<and>
        hp_configs h' = hp_configs h + length (filter (\<lambda>d. ud_config d \<noteq> None \<and> ud_desc_ret d \<noteq> 0) usbs)
    | Some d \<Rightarrow> \<exists>a h'. uvc_find_device (Some usbs) vid pid sn h = Some (UVC_SUCCESS, Some a, h') \<and> hp_devices h a = None \<and>
        hp_devices h' = (hp_devices h)(a \<mapsto> \<lparr> dv_ref = 1, dv_usb_dev = d \<rparr>) \<and>
        hp_usb_refs h' = (hp_usb_refs h)(ud_id d := hp_usb_refs h (ud_id d) + 1) \<and>
        hp_configs h' = hp_configs h + length (filter (\<lambda>d. ud_config d \<noteq> None \<and> ud_desc_ret d \<noteq> 0) usbs)"
  using find_device_eq [OF assms, of usbs vid pid sn] by (auto split: option.splits)

text \<open>The second device matches; the descriptor of the first cannot be read.\<close>

theorem find_device_correct_witness:
  "\<exists>a h'. uvc_find_device (Some [(sample_usb 1 3)\<lparr> ud_desc_ret := -1 \<rparr>, sample_usb 2 14, sample_usb 3 14]) 0x046d 0 (Some [65, 66, 67]) heap0 =
       Some (0, Some a, h') \<and>
     hp_devices h' a = Some \<lparr> dv_ref = 1, dv_usb_dev = sample_usb 2 14 \<rparr> \<and> hp_configs h' = 1"
proof -
  let ?usbs = "[(sample_usb 1 3)\<lparr> ud_desc_ret := -1 \<rparr>, sample_usb 2 14, sample_usb 3 14]"
  have "find (\<lambda>d. is_uvc d \<and> usb_matches 0x046d 0 (Some [65, 66, 67]) d) ?usbs = Some (sample_usb 2 14)"
    by (simp add: is_uvc_def usb_matches_def sample_usb_def got_altsetting_def string_field_def)
  moreover have "length (filter (\<lambda>d. ud_config d \<noteq> None \<and> ud_desc_ret d \<noteq> 0) ?usbs) = 1" "hp_configs heap0 = 0"
    by (simp_all add: sample_usb_def heap0_def)
  ultimately show ?thesis
    using find_device_correct [OF heap0_ok, of ?usbs "0x046d" 0 "Some [65, 66, 67]"] by auto
qed

lemma find_devices_eq:
  assumes "heap_ok h" and "ms = filter (\<lambda>d. is_uvc d \<and> usb_matches vid pid sn d) usbs"
  shows "\<exists>found h'. uvc_find_devices (Some usbs) vid pid sn h =
      Some (if ms = [] then UVC_ERROR_NO_DEVICE else UVC_SUCCESS, if ms = [] then None else Some found, h') \<and>
    distinct found \<and> (\<forall>a \<in> set found. hp_devices h a = None) \<and>
    map (hp_devices h') found = map (\<lambda>d. Some \<lparr> dv_ref = 1, dv_usb_dev = d \<rparr>) ms \<and>
    (\<forall>a. a \<notin> set found \<longrightarrow> hp_devices h' a = hp_devices h a) \<and>
    hp_usb_refs h' = (\<lambda>i. hp_usb_refs h i + refs_of ms i) \<and> heap_ok h'"
proof -
  let ?us = "filter is_uvc usbs" let ?n = "hp_next h" let ?as = "[hp_next h..<hp_next h + length (filter is_uvc usbs)]"
  obtain h1 where h1: "uvc_get_device_list (Some usbs) h = Some (UVC_SUCCESS, Some ?as, h1)" "hp_devices h1 = dev_at h ?us"
    "hp_next h1 = ?n + length ?us" "hp_usb_refs h1 = (\<lambda>i. hp_usb_refs h i + refs_of ?us i)"
    "\<forall>a \<in> set ?as. \<exists>d. hp_devices h1 a = Some d \<and> ud_desc_ret (dv_usb_dev d) = 0"
    "map (\<lambda>a. dv_usb_dev (the (hp_devices h1 a))) ?as = ?us" by (rule listed)
  let ?found = "filter (hits vid pid sn h1) ?as"
  have ms: "map (\<lambda>a. dv_usb_dev (the (hp_devices h1 a))) ?found = ms"
    using filter_hits [OF h1(6), of vid pid sn] by (simp add: conj_commute assms(2))
  obtain h2 where h2: "find_all_in_list vid pid sn ?as [] h1 = Some (?found, h2)" "hp_next h2 = hp_next h1"
    "hp_devices h2 = (\<lambda>a. if a \<in> set ?found then map_option (\<lambda>d. d\<lparr> dv_ref := dv_ref d + 1 \<rparr>) (hp_devices h1 a) else hp_devices h1 a)"
    "hp_usb_refs h2 = (\<lambda>i. hp_usb_refs h1 i + refs_of ms i)"
    using find_all_in_list_eq [OF distinct_upt h1(5), of vid pid sn "[]"] unfolding ms by auto
  have S: "set ?found \<subseteq> {?n..<?n + length ?us}" by auto
  have dev: "hp_devices h2 = (\<lambda>a. if a \<in> set ?found then map_option (\<lambda>d. d\<lparr> dv_ref := dv_ref d + 1 \<rparr>) (dev_at h ?us a) else dev_at h ?us a)"
    by (rule trans [OF h2(3)]) (simp only: h1(2))
  have refs: "hp_usb_refs h2 = (\<lambda>i. hp_usb_refs h i + refs_of ?us i + refs_of ms i)" "hp_next h2 = ?n + length ?us"
    using h2(2,4) h1(3,4) by simp_all
  from settle [OF assms(1) refl S dev refs] obtain h3 where
    h3: "unref_all ?as h2 = Some h3" "hp_next h3 = ?n + length ?us" "hp_usb_refs h3 = (\<lambda>i. hp_usb_refs h i + refs_of ms i)"
    "hp_devices h3 = (\<lambda>a. if a \<in> set ?found then Some \<lparr> dv_ref = 1, dv_usb_dev = ?us ! (a - ?n) \<rparr> else hp_devices h a)" by auto
  have empty: "?found = [] \<longleftrightarrow> ms = []" using ms by (metis map_is_Nil_conv)
  have call: "uvc_find_devices (Some usbs) vid pid sn h =
      Some (if ms = [] then UVC_ERROR_NO_DEVICE else UVC_SUCCESS, if ms = [] then None else Some ?found, h3)"
    using h1(1) h2(1) h3(1) by (simp add: uvc_find_devices_def uvc_free_device_list_def empty)
  have "map (hp_devices h3) ?found = map (\<lambda>d. Some \<lparr> dv_ref = 1, dv_usb_dev = d \<rparr>) ms"
    unfolding ms [symmetric] using h1(2) by (auto simp: h3(4) dev_at_def)
  moreover have "\<forall>a \<in> set ?found. hp_devices h a = None" using assms(1) by (auto simp: heap_ok_def)
  moreover have ok: "heap_ok h3" using assms(1) h3(2,4) by (auto simp: heap_ok_def split: if_splits)
  ultimately show ?thesis using call h3(3,4) ok by (intro exI [of _ ?found] exI [of _ h3]) auto
qed

text \<open>
  Finding all devices: the same for every match, in libusb's order.
\<close>

lemma find_devices_correct:
  assumes "heap_ok h" and "ms = filter (\<lambda>d. is_uvc d \<and> usb_matches vid pid sn d) usbs"
  shows "\<exists>found h'. uvc_find_devices (Some usbs) vid pid sn h =
      Some (if ms = [] then UVC_ERROR_NO_DEVICE else UVC_SUCCESS, if ms = [] then None else Some found, h') \<and>
    distinct found \<and> (\<forall>a \<in> set found. hp_devices h a = None) \<and>
    map (hp_devices h') found = map (\<lambda>d. Some \<lparr> dv_ref = 1, dv_usb_dev = d \<rparr>) ms \<and>
    (\<forall>a. a \<notin> set found \<longrightarrow> hp_devices h' a = hp_devices h a) \<and>
    hp_usb_refs h' = (\<lambda>i. hp_usb_refs h i + refs_of ms i)"
  using find_devices_eq [OF assms] by blast

lemma find_devices_correct_witness:
  "\<exists>found h'. uvc_find_devices (Some [sample_usb 1 3, sample_usb 2 14, sample_usb 3 14]) 0 0 None heap0 = Some (0, Some found, h') \<and>
     map (hp_devices h') found = map (\<lambda>d. Some \<lparr> dv_ref = 1, dv_usb_dev = d \<rparr>) [sample_usb 2 14, sample_usb 3 14]"
proof -
  have "[sample_usb 2 14, sample_usb 3 14] = filter (\<lambda>d. is_uvc d \<and> usb_matches 0 0 None d) [sample_usb 1 3, sample_usb 2 14, sample_usb 3 14]"
    by (simp add: is_uvc_def usb_matches_def sample_usb_def got_altsetting_def)
  from find_devices_correct [OF heap0_ok this] show ?thesis by auto
qed

end
