(* ===== verification/Lifecycle.thy ===== *)
theory Lifecycle
  imports Stream_Life Dev_List
begin

text \<open>
  Contexts, opening and closing devices, and the event handler thread (init.c, device.c).  Opening
  composes the descriptor parser, the interface claim and the first status submit; closing composes
  the stop of all streams, the stop of the status transfer and the release of the interfaces.  How the
  stop of the status transfer interleaves with its callback is theory \<open>Status_Xfer\<close>; here its result is
  an argument.
\<close>

section \<open>State\<close>

text \<open>
  A device handle: \<open>dh_id\<close> is its address, \<open>dh_dev\<close> that of its \<^verbatim>\<open>uvc_device_t\<close>, \<open>dh_status_xfer\<close> whether
  it has a status transfer.
\<close>

record 'u uvc_device_handle =
  dh_id :: nat
  dh_dev :: nat
  dh_sd :: "'u stream_dev"
  dh_status_xfer :: bool
  dh_has_quarantined_status_xfer :: bool

text \<open>
  The first group are the fields of the context; \<open>cx_handler_thread\<close> is \<^term>\<open>None\<close> when there is no
  thread to join.  The second is the outside: the threads inside \<^verbatim>\<open>_uvc_handle_events\<close>, those that were
  joined, the next free
  address, the heap of device structures, the handles kept for ever, for each freed handle its claims
  and the streams it left with a transfer pending, and whether the libusb context was destroyed and the context freed.
\<close>

record 'u uvc_context =
  cx_own_usb_ctx :: bool
  cx_open_devices :: "'u uvc_device_handle list"
  cx_handler_thread :: "nat option"
  cx_kill_handler_thread :: bool
  cx_has_quarantined_device :: bool
  cx_running :: "nat list"
  cx_joined :: "nat list"
  cx_next :: nat
  cx_heap :: dev_heap
  cx_quarantined :: "'u uvc_device_handle list"
  cx_closed :: "('u devh_claims \<times> uvc_stream_handle list) list"
  cx_usb_exited :: bool
  cx_freed :: bool

section \<open>The context\<close>

text \<open>
  \<open>usb_init\<close> is what \<^verbatim>\<open>libusb_init\<close> answers; \<open>given\<close> whether the caller passed a libusb context.  The
  allocation of the context, which the code does not check, is taken to succeed.
\<close>

definition uvc_init :: "int \<Rightarrow> bool \<Rightarrow> dev_heap \<Rightarrow> int \<times> 'u uvc_context option" where
  "uvc_init usb_init given heap =
     (let ctx = \<lparr> cx_own_usb_ctx = \<not> given, cx_open_devices = [], cx_handler_thread = None, cx_kill_handler_thread = False,
            cx_has_quarantined_device = False, cx_running = [], cx_joined = [], cx_next = 0, cx_heap = heap, cx_quarantined = [], cx_closed = [],
            cx_usb_exited = False, cx_freed = False \<rparr>
      in if given then (UVC_SUCCESS, Some ctx)
         else if usb_init \<noteq> UVC_SUCCESS then (usb_init, None) else (usb_init, Some ctx))"

text \<open>A handler thread at the head of its loop.\<close>

definition uvc_handle_events :: "nat \<Rightarrow> 'u uvc_context \<Rightarrow> 'u uvc_context" where
  "uvc_handle_events t c = (if \<not> cx_kill_handler_thread c then c else c\<lparr> cx_running := removeAll t (cx_running c) \<rparr>)"

definition uvc_start_handler_thread :: "'u uvc_context \<Rightarrow> 'u uvc_context" where
  "uvc_start_handler_thread c =
     (if cx_own_usb_ctx c
      then c\<lparr> cx_handler_thread := Some (cx_next c), cx_running := cx_next c # cx_running c, cx_next := cx_next c + 1 \<rparr>
      else c)"

text \<open>
  \<^verbatim>\<open>pthread_join\<close> on the stored thread.  \<open>turns\<close> is whether the thread, if it runs, comes back from libusb to
  the head of its loop; the call returns only when the thread has left the loop.
\<close>

definition join_handler_thread :: "bool \<Rightarrow> 'u uvc_context \<Rightarrow> 'u uvc_context waiting option" where
  "join_handler_thread turns c = do {
     t \<leftarrow> cx_handler_thread c;
     let c = (if turns then uvc_handle_events t c else c);
     if t \<in> set (cx_running c) then Some Still_waiting
     else Some (Returned UVC_SUCCESS (c\<lparr> cx_handler_thread := None, cx_joined := t # cx_joined c \<rparr>)) }"

definition uvc_already_open :: "'u uvc_context \<Rightarrow> nat \<Rightarrow> bool option" where
  "uvc_already_open c usb = foldr (\<lambda>h r. do {
     d \<leftarrow> hp_devices (cx_heap c) (dh_dev h);
     if ud_id (dv_usb_dev d) = usb then Some True else r }) (cx_open_devices c) (Some False)"

definition uvc_num_devices :: "'u uvc_context \<Rightarrow> nat" where
  "uvc_num_devices c = foldl (\<lambda>count h. count + 1) 0 (cx_open_devices c)"

definition uvc_get_device :: "'u uvc_device_handle \<Rightarrow> 'u uvc_context \<Rightarrow> (nat \<times> 'u uvc_context) option" where
  "uvc_get_device h c = do { heap \<leftarrow> uvc_ref_device (dh_dev h) (cx_heap c); Some (dh_dev h, c\<lparr> cx_heap := heap \<rparr>) }"

section \<open>Opening\<close>

text \<open>
  What an open meets: libusb on interfaces, the reattach guard's source, whether the allocations of the
  structure of a wrapped device and of the handle, which the code does not check, and of the info
  structure and the status transfer, which it does, succeed, libusb's answer to the first submit, the USB state
  and the guard's resources.
\<close>

record 'u open_env =
  oe_ops :: "'u libusb_if_ops"
  oe_gs :: guard_source
  oe_dev_alloc :: bool
  oe_handle_alloc :: bool
  oe_info_alloc :: bool
  oe_xfer_alloc :: bool
  oe_submit :: int
  oe_usb :: 'u
  oe_res :: guard_res

text \<open>
  The failure path: \<open>ctrl\<close> is the control interface when there is an info structure.  The handle with
  its guard is freed; \<open>cx_closed\<close> records its claims.
\<close>

definition open_fail ::
  "'u libusb_if_ops \<Rightarrow> nat \<Rightarrow> nat option \<Rightarrow> 'u devh_claims \<Rightarrow> int \<Rightarrow> 'u uvc_context
   \<Rightarrow> (int \<times> 'u uvc_device_handle option \<times> 'u uvc_context) option" where
  "open_fail ops dev ctrl claims ret c = do {
     claims \<leftarrow> (case ctrl of None \<Rightarrow> Some claims | Some idx \<Rightarrow> map_option snd (uvc_release_if ops idx claims));
     heap \<leftarrow> uvc_unref_device dev (cx_heap c);
     let claims = claims\<lparr> dc_guard_res := uvc_reattach_guard_destroy (dc_reattach_guard claims) (dc_guard_res claims) \<rparr>;
     Some (ret, None, c\<lparr> cx_heap := heap, cx_closed := (claims, []) # cx_closed c \<rparr>) }"

definition uvc_open_internal ::
  "'u open_env \<Rightarrow> nat \<Rightarrow> 'u uvc_context \<Rightarrow> (int \<times> 'u uvc_device_handle option \<times> 'u uvc_context) option" where
  "uvc_open_internal env dev c = do {
     heap \<leftarrow> uvc_ref_device dev (cx_heap c);
     let c = c\<lparr> cx_heap := heap \<rparr>;
     _ \<leftarrow> (if oe_handle_alloc env then Some () else None);
     usb \<leftarrow> map_option dv_usb_dev (hp_devices heap dev);
     let claims = \<lparr> dc_claimed = 0, dc_reattach_guard = None, dc_usb = oe_usb env, dc_guard_res = oe_res env, dc_past = [] \<rparr>;
     (ret, info) \<leftarrow> uvc_get_device_info (oe_info_alloc env) (ud_config usb)
       (if ud_desc_ret usb = UVC_SUCCESS then Some (ud_idVendor usb, ud_idProduct usb) else None);
     case info of
       None \<Rightarrow> open_fail (oe_ops env) dev None claims ret c
     | Some info \<Rightarrow> do {
         let ctrl = unat (ci_bInterfaceNumber (in_ctrl_if info));
         (ret, claims) \<leftarrow> uvc_claim_if (oe_ops env) (oe_gs env) ctrl claims;
         if ret \<noteq> UVC_SUCCESS then open_fail (oe_ops env) dev (Some ctrl) claims ret c
         else if ud_desc_ret usb \<noteq> UVC_SUCCESS then None
         else do {
           let is_isight = (ud_idVendor usb = 0x05ac \<and> ud_idProduct usb = 0x8501);
           let has_status = (ci_bEndpointAddress (in_ctrl_if info) \<noteq> 0);
           if has_status \<and> \<not> oe_xfer_alloc env then open_fail (oe_ops env) dev (Some ctrl) claims UVC_ERROR_NO_MEM c
           else if has_status \<and> oe_submit env \<noteq> 0 then open_fail (oe_ops env) dev (Some ctrl) claims (oe_submit env) c
           else do {
             let c = (if cx_own_usb_ctx c \<and> cx_open_devices c = [] \<and> \<not> cx_has_quarantined_device c
                      then uvc_start_handler_thread c else c);
             let h = \<lparr> dh_id = cx_next c, dh_dev = dev, dh_sd = \<lparr> sd_claims = claims, sd_info = info, sd_streams = [],
                   sd_is_isight = is_isight, sd_transfer_buffer_count = 0, sd_has_quarantined_stream = False, sd_leaked = [],
                   sd_freed = [] \<rparr>, dh_status_xfer = has_status, dh_has_quarantined_status_xfer = False \<rparr>;
             Some (UVC_SUCCESS, Some h, c\<lparr> cx_next := cx_next c + 1, cx_open_devices := cx_open_devices c @ [h] \<rparr>) } } } }"

text \<open>\<open>usb_open\<close> is what \<^verbatim>\<open>libusb_open\<close> answers.\<close>

definition uvc_open ::
  "int \<Rightarrow> 'u open_env \<Rightarrow> nat \<Rightarrow> 'u uvc_context \<Rightarrow> (int \<times> 'u uvc_device_handle option \<times> 'u uvc_context) option" where
  "uvc_open usb_open env dev c =
     (if usb_open \<noteq> UVC_SUCCESS then Some (usb_open, None, c) else uvc_open_internal env dev c)"

text \<open>
  Wrapping a system handle: the device structure is allocated here, with no reference.  That libusb is
  asked to detach kernel drivers by itself only changes how it answers later, so it is part of \<open>env\<close>.
\<close>

definition uvc_wrap ::
  "int \<Rightarrow> usb_device \<Rightarrow> 'u open_env \<Rightarrow> 'u uvc_context \<Rightarrow> (int \<times> 'u uvc_device_handle option \<times> 'u uvc_context) option" where
  "uvc_wrap err usb env c =
     (if err \<noteq> UVC_SUCCESS then Some (err, None, c)
      else if \<not> oe_dev_alloc env then None
      else let heap = cx_heap c; dev = hp_next heap;
               heap = heap\<lparr> hp_devices := (hp_devices heap)(dev \<mapsto> \<lparr> dv_ref = 0, dv_usb_dev = usb \<rparr>), hp_next := dev + 1 \<rparr>
           in uvc_open_internal env dev (c\<lparr> cx_heap := heap \<rparr>))"

section \<open>Closing\<close>

text \<open>
  What a close meets: libusb on interfaces, the clock, the stop of each stream by interface number,
  whether the status transfer was seen to stop within the bound, and whether the event thread comes back
  to the head of its loop once the USB handle is closed.
\<close>

record 'u close_env =
  ce_ops :: "'u libusb_if_ops"
  ce_now :: "nat \<Rightarrow> int"
  ce_ws :: "u8 \<Rightarrow> stop_env"
  ce_stopped :: bool
  ce_turns :: bool

definition find_handle :: "nat \<Rightarrow> 'u uvc_context \<Rightarrow> 'u uvc_device_handle option" where
  "find_handle i c = find (\<lambda>h. dh_id h = i) (cx_open_devices c)"

definition unlink_handle :: "nat \<Rightarrow> 'u uvc_context \<Rightarrow> 'u uvc_context" where
  "unlink_handle i c = c\<lparr> cx_open_devices := filter (\<lambda>h. dh_id h \<noteq> i) (cx_open_devices c) \<rparr>"

text \<open>The end of the event thread with the last open device.\<close>

definition end_handler_thread :: "'u close_env \<Rightarrow> nat \<Rightarrow> 'u uvc_context \<Rightarrow> 'u uvc_context waiting option" where
  "end_handler_thread env i c =
     (if cx_own_usb_ctx c \<and> map dh_id (cx_open_devices c) = [i] \<and> \<not> cx_has_quarantined_device c
      then join_handler_thread (ce_turns env) (c\<lparr> cx_kill_handler_thread := True \<rparr>) else Some (Returned UVC_SUCCESS c))"

definition uvc_close :: "'u close_env \<Rightarrow> nat \<Rightarrow> 'u uvc_context \<Rightarrow> 'u uvc_context waiting option" where
  "uvc_close env i c = do {
     h \<leftarrow> find_handle i c;
     r \<leftarrow> (if sd_streams (dh_sd h) \<noteq> [] then uvc_stop_streaming (ce_ops env) (ce_now env) (ce_ws env) (dh_sd h)
          else Some (Returned UVC_SUCCESS (dh_sd h)));
     case r of
       Still_waiting \<Rightarrow> Some Still_waiting
     | Returned _ sd \<Rightarrow>
         let h = h\<lparr> dh_sd := sd, dh_has_quarantined_status_xfer := dh_status_xfer h \<and> \<not> ce_stopped env \<rparr> in
         if sd_has_quarantined_stream sd \<or> dh_has_quarantined_status_xfer h
         then Some (Returned UVC_SUCCESS ((unlink_handle i c)\<lparr> cx_has_quarantined_device := True,
                cx_quarantined := h # cx_quarantined c \<rparr>))
         else do {
           claims \<leftarrow> uvc_release_claimed_ifs (ce_ops env) (Some (unat (ci_bInterfaceNumber (in_ctrl_if (sd_info sd))))) (sd_claims sd);
           r \<leftarrow> end_handler_thread env i c;
           case r of
             Still_waiting \<Rightarrow> Some Still_waiting
           | Returned _ c \<Rightarrow> do {
               let c = unlink_handle i c;
               heap \<leftarrow> uvc_unref_device (dh_dev h) (cx_heap c);
               let claims = claims\<lparr> dc_guard_res := uvc_reattach_guard_destroy (dc_reattach_guard claims) (dc_guard_res claims) \<rparr>;
               Some (Returned UVC_SUCCESS (c\<lparr> cx_heap := heap, cx_closed := (claims, sd_leaked sd) # cx_closed c \<rparr>)) } } }"

text \<open>The loop of \<^verbatim>\<open>uvc_exit\<close>; the next node is read before the body.\<close>

fun close_all :: "(nat \<Rightarrow> 'u close_env) \<Rightarrow> nat list \<Rightarrow> 'u uvc_context \<Rightarrow> 'u uvc_context waiting option" where
  "close_all env [] c = Some (Returned UVC_SUCCESS c)"
| "close_all env (i # is) c = do {
     r \<leftarrow> uvc_close (env i) i c;
     case r of Still_waiting \<Rightarrow> Some Still_waiting | Returned _ c \<Rightarrow> close_all env is c }"

definition uvc_exit :: "(nat \<Rightarrow> 'u close_env) \<Rightarrow> 'u uvc_context \<Rightarrow> 'u uvc_context waiting option" where
  "uvc_exit env c = do {
     r \<leftarrow> close_all env (map dh_id (cx_open_devices c)) c;
     case r of
       Still_waiting \<Rightarrow> Some Still_waiting
     | Returned _ c \<Rightarrow>
         if cx_has_quarantined_device c then Some (Returned UVC_SUCCESS c)
         else let c = (if cx_own_usb_ctx c then c\<lparr> cx_usb_exited := True \<rparr> else c)
              in Some (Returned UVC_SUCCESS (c\<lparr> cx_freed := True \<rparr>)) }"

section \<open>Steps\<close>

text \<open>The handles that refer to a device structure.\<close>

definition holders :: "'u uvc_context \<Rightarrow> nat \<Rightarrow> int" where
  "holders c dev = int (length (filter (\<lambda>h. dh_dev h = dev) (cx_open_devices c @ cx_quarantined c)))"

text \<open>
  The calls a program may make on a live context, and the turns of the handler threads.  A program gives
  back only references of its own; \<open>use\<close> stands for whatever it does with the streams of an open device.
\<close>

inductive life_step :: "'u uvc_context \<Rightarrow> 'u uvc_context \<Rightarrow> bool" where
  "open": "\<not> cx_freed c \<Longrightarrow> uvc_open usb_open env dev c = Some (ret, hp, c') \<Longrightarrow> life_step c c'"
| wrap: "\<not> cx_freed c \<Longrightarrow> uvc_wrap err usb env c = Some (ret, hp, c') \<Longrightarrow> life_step c c'"
| "use": "\<not> cx_freed c \<Longrightarrow>
    life_step c (c\<lparr> cx_open_devices := map (\<lambda>h. if dh_id h = i then h\<lparr> dh_sd := sd \<rparr> else h) (cx_open_devices c) \<rparr>)"
| get: "\<not> cx_freed c \<Longrightarrow> h \<in> set (cx_open_devices c) \<Longrightarrow> uvc_get_device h c = Some (dev, c') \<Longrightarrow> life_step c c'"
| find: "\<not> cx_freed c \<Longrightarrow> uvc_find_devices usbs vid pid sn (cx_heap c) = Some (ret, found, heap) \<Longrightarrow> life_step c (c\<lparr> cx_heap := heap \<rparr>)"
| ref: "uvc_ref_device dev (cx_heap c) = Some heap \<Longrightarrow> life_step c (c\<lparr> cx_heap := heap \<rparr>)"
| unref: "hp_devices (cx_heap c) dev = Some d \<Longrightarrow> holders c dev < dv_ref d \<Longrightarrow>
    uvc_unref_device dev (cx_heap c) = Some heap \<Longrightarrow> life_step c (c\<lparr> cx_heap := heap \<rparr>)"
| close: "\<not> cx_freed c \<Longrightarrow> uvc_close cenv i c = Some (Returned r c') \<Longrightarrow> life_step c c'"
| exit: "\<not> cx_freed c \<Longrightarrow> uvc_exit cenvs c = Some (Returned r c') \<Longrightarrow> life_step c c'"
| thread: "t \<in> set (cx_running c) \<Longrightarrow> life_step c (uvc_handle_events t c)"

inductive life_reachable :: "'u uvc_context \<Rightarrow> bool" where
  init: "uvc_init usb_init given heap = (ret, Some c) \<Longrightarrow> heap_ok heap \<Longrightarrow> life_reachable c"
| step: "life_reachable c \<Longrightarrow> life_step c c' \<Longrightarrow> life_reachable c'"

section \<open>The invariant\<close>

definition refs_ok :: "'u uvc_context \<Rightarrow> bool" where
  "refs_ok c = (heap_ok (cx_heap c) \<and>
     (\<forall>a. 0 < holders c a \<longrightarrow> (\<exists>d. hp_devices (cx_heap c) a = Some d \<and> holders c a \<le> dv_ref d)))"

definition ids_ok :: "'u uvc_context \<Rightarrow> bool" where
  "ids_ok c = (distinct (map dh_id (cx_open_devices c)) \<and> (\<forall>h \<in> set (cx_open_devices c). dh_id h < cx_next c))"

text \<open>
  A thread can be joined exactly while a device is open on a context that owns its libusb context, or one
  was quarantined there; at most one thread runs, the joinable one; it runs unless it was told to end; and
  the context holds the order to end exactly when a thread was joined before.
\<close>

definition thread_ok :: "'u uvc_context \<Rightarrow> bool" where
  "thread_ok c =
     ((cx_handler_thread c \<noteq> None \<longleftrightarrow> cx_own_usb_ctx c \<and> (cx_open_devices c \<noteq> [] \<or> cx_has_quarantined_device c)) \<and>
      (cx_running c = [] \<or> (\<exists>t. cx_running c = [t] \<and> cx_handler_thread c = Some t)) \<and>
      (cx_handler_thread c \<noteq> None \<and> \<not> cx_kill_handler_thread c \<longrightarrow> cx_running c \<noteq> []) \<and>
      (cx_kill_handler_thread c \<longleftrightarrow> cx_joined c \<noteq> []))"

definition life_inv :: "'u uvc_context \<Rightarrow> bool" where
  "life_inv c = (refs_ok c \<and> ids_ok c \<and> thread_ok c \<and> (cx_quarantined c \<noteq> [] \<longrightarrow> cx_has_quarantined_device c) \<and>
     (cx_freed c \<longrightarrow> cx_open_devices c = [] \<and> \<not> cx_has_quarantined_device c))"

lemma holders_nonneg [simp]: "0 \<le> holders c a"
  by (simp add: holders_def)

lemma holders_heap [simp]: "holders (c\<lparr> cx_heap := h \<rparr>) a = holders c a"
  by (simp add: holders_def)

lemma thread_ok_heap [simp]: "thread_ok (c\<lparr> cx_heap := h \<rparr>) = thread_ok c"
  by (simp add: thread_ok_def)

lemma ids_ok_heap [simp]: "ids_ok (c\<lparr> cx_heap := h \<rparr>) = ids_ok c"
  by (simp add: ids_ok_def)

lemma inv_refs: "life_inv c \<Longrightarrow> hp_devices (cx_heap c) a = Some d \<Longrightarrow> 0 < holders c a \<Longrightarrow> holders c a \<le> dv_ref d"
  by (auto simp: life_inv_def refs_ok_def)

lemma inv_ref_ex: "life_inv c \<Longrightarrow> 0 < holders c a \<Longrightarrow> \<exists>d. hp_devices (cx_heap c) a = Some d \<and> holders c a \<le> dv_ref d"
  by (simp add: life_inv_def refs_ok_def)

text \<open>Changes of the heap alone keep the invariant when no held reference is lost.\<close>

lemma inv_heap:
  assumes "life_inv c" and "heap_ok heap"
    and "\<And>a d. hp_devices (cx_heap c) a = Some d \<Longrightarrow> 0 < holders c a \<Longrightarrow> \<exists>d'. hp_devices heap a = Some d' \<and> holders c a \<le> dv_ref d'"
  shows "life_inv (c\<lparr> cx_heap := heap \<rparr>)"
  using assms by (fastforce simp: life_inv_def refs_ok_def)

lemma ref_device_cases:
  assumes "uvc_ref_device dev h = Some h'"
  obtains d where "hp_devices h dev = Some d" "hp_devices h' = (hp_devices h)(dev \<mapsto> d\<lparr> dv_ref := dv_ref d + 1 \<rparr>)" "hp_next h' = hp_next h"
  using assms by (auto simp: uvc_ref_device_def Let_def bind_eq_Some_conv)

lemma unref_device_cases:
  assumes "uvc_unref_device dev h = Some h'"
  obtains d where "hp_devices h dev = Some d" "hp_next h' = hp_next h"
    "hp_devices h' = (hp_devices h)(dev := (if dv_ref d = 1 then None else Some (d\<lparr> dv_ref := dv_ref d - 1 \<rparr>)))"
  using assms by (auto simp: uvc_unref_device_def Let_def bind_eq_Some_conv)

lemma ref_heap_ok: "uvc_ref_device dev h = Some h' \<Longrightarrow> heap_ok h \<Longrightarrow> heap_ok h'"
  by (elim ref_device_cases) (force simp: heap_ok_def)

lemma unref_heap_ok: "uvc_unref_device dev h = Some h' \<Longrightarrow> heap_ok h \<Longrightarrow> heap_ok h'"
  by (elim unref_device_cases) (force simp: heap_ok_def split: if_splits)

lemma ref_inv: "life_inv c \<Longrightarrow> uvc_ref_device dev (cx_heap c) = Some heap \<Longrightarrow> life_inv (c\<lparr> cx_heap := heap \<rparr>)"
proof (rule inv_heap)
  assume inv: "life_inv c" and r: "uvc_ref_device dev (cx_heap c) = Some heap"
  then show "heap_ok heap" by (auto simp: life_inv_def refs_ok_def intro: ref_heap_ok)
  show "\<exists>d'. hp_devices heap a = Some d' \<and> holders c a \<le> dv_ref d'" if "hp_devices (cx_heap c) a = Some d" "0 < holders c a" for a d
    using r that inv by (elim ref_device_cases) (fastforce simp: life_inv_def refs_ok_def)
qed

lemma unref_inv:
  assumes "life_inv c" and "hp_devices (cx_heap c) dev = Some d" and "holders c dev < dv_ref d"
    and "uvc_unref_device dev (cx_heap c) = Some heap"
  shows "life_inv (c\<lparr> cx_heap := heap \<rparr>)"
proof (rule inv_heap [OF assms(1)])
  show "heap_ok heap" using assms(1,4) by (auto simp: life_inv_def refs_ok_def intro: unref_heap_ok)
  show "\<exists>d'. hp_devices heap a = Some d' \<and> holders c a \<le> dv_ref d'" if "hp_devices (cx_heap c) a = Some d'" "0 < holders c a" for a d'
    using assms that by (elim unref_device_cases) (fastforce simp: life_inv_def refs_ok_def)
qed

lemma find_inv:
  assumes "life_inv c" and "uvc_find_devices usbs vid pid sn (cx_heap c) = Some (ret, found, heap)"
  shows "life_inv (c\<lparr> cx_heap := heap \<rparr>)"
proof (cases usbs)
  case None
  then show ?thesis using assms by (auto simp: uvc_find_devices_def uvc_get_device_list_def)
next
  case (Some us)
  have ok: "heap_ok (cx_heap c)" using assms(1) by (simp add: life_inv_def refs_ok_def)
  from find_devices_eq [OF ok refl, of us vid pid sn] obtain as h' where
    h': "\<forall>a \<in> set as. hp_devices (cx_heap c) a = None" "\<forall>a. a \<notin> set as \<longrightarrow> hp_devices h' a = hp_devices (cx_heap c) a" "heap_ok h'"
    and r: "\<exists>x y. uvc_find_devices (Some us) vid pid sn (cx_heap c) = Some (x, y, h')" by blast
  have "h' = heap" using r assms(2) Some by auto
  note h = h' [unfolded this]
  show ?thesis
  proof (rule inv_heap [OF assms(1) h(3)])
    fix a d assume a: "hp_devices (cx_heap c) a = Some d" "0 < holders c a"
    then have "a \<notin> set as" using h(1) by auto
    then show "\<exists>d'. hp_devices heap a = Some d' \<and> holders c a \<le> dv_ref d'" using h(2) a inv_refs [OF assms(1) a] by simp
  qed
qed

lemma holders_append: "holders (c\<lparr> cx_open_devices := cx_open_devices c @ [h] \<rparr>) a = holders c a + (if dh_dev h = a then 1 else 0)"
  by (simp add: holders_def)

lemma open_fail_cases:
  assumes "open_fail ops dev ctrl claims ret c = Some (r, hp, c')"
  obtains heap cl where "r = ret" "hp = None" "uvc_unref_device dev (cx_heap c) = Some heap"
    "c' = c\<lparr> cx_heap := heap, cx_closed := cl # cx_closed c \<rparr>"
  using assms by (auto simp: open_fail_def Let_def bind_eq_Some_conv)

text \<open>What an open can end in.\<close>

lemma open_internal_cases:
  assumes "uvc_open_internal env dev c = Some (ret, hp, c')"
  obtains (failed) heap heap' cl where "uvc_ref_device dev (cx_heap c) = Some heap" "uvc_unref_device dev heap = Some heap'" "hp = None"
      "ret \<noteq> UVC_SUCCESS" "c' = c\<lparr> cx_heap := heap', cx_closed := cl # cx_closed c \<rparr>"
  | (opened) heap c1 h info where "uvc_ref_device dev (cx_heap c) = Some heap" "hp = Some h" "ret = UVC_SUCCESS"
      "c1 = (if cx_own_usb_ctx c \<and> cx_open_devices c = [] \<and> \<not> cx_has_quarantined_device c
         then uvc_start_handler_thread (c\<lparr> cx_heap := heap \<rparr>) else c\<lparr> cx_heap := heap \<rparr>)"
      "dh_id h = cx_next c1" "dh_dev h = dev" "sd_streams (dh_sd h) = []" "sd_info (dh_sd h) = info"
      "bit (dc_claimed (sd_claims (dh_sd h))) (unat (ci_bInterfaceNumber (in_ctrl_if info)))"
      "dh_status_xfer h \<longleftrightarrow> ci_bEndpointAddress (in_ctrl_if info) \<noteq> 0"
      "c' = c1\<lparr> cx_next := cx_next c1 + 1, cx_open_devices := cx_open_devices c1 @ [h] \<rparr>"
proof -
  obtain heap usb where heap: "uvc_ref_device dev (cx_heap c) = Some heap" "map_option dv_usb_dev (hp_devices heap dev) = Some usb"
    and alloc: "(if oe_handle_alloc env then Some () else None) = Some ()"
    using assms by (auto simp: uvc_open_internal_def Let_def bind_eq_Some_conv split: if_splits)
  let ?c = "c\<lparr> cx_heap := heap \<rparr>"
  let ?claims = "\<lparr> dc_claimed = 0, dc_reattach_guard = None, dc_usb = oe_usb env, dc_guard_res = oe_res env, dc_past = [] \<rparr>"
  have fail: thesis if "open_fail ops dev ctrl cl e ?c = Some (ret, hp, c')" "e \<noteq> UVC_SUCCESS" for ops ctrl cl e
    using that failed [OF heap(1)] by (elim open_fail_cases) auto
  note body = assms [unfolded uvc_open_internal_def Let_def heap alloc Option.bind.simps]
  obtain r info where info: "uvc_get_device_info (oe_info_alloc env) (ud_config usb)
      (if ud_desc_ret usb = UVC_SUCCESS then Some (ud_idVendor usb, ud_idProduct usb) else None) = Some (r, info)"
    using body by (auto simp: bind_eq_Some_conv)
  show thesis
  proof (cases info)
    case None
    then have "r \<noteq> UVC_SUCCESS" using info by (auto simp: uvc_get_device_info_def bind_eq_Some_conv split: if_splits option.splits)
    then show thesis using body info None fail by simp
  next
    case (Some i)
    let ?ctrl = "unat (ci_bInterfaceNumber (in_ctrl_if i))"
    obtain r2 cl where claim: "uvc_claim_if (oe_ops env) (oe_gs env) ?ctrl ?claims = Some (r2, cl)"
      using body info Some by (auto simp: bind_eq_Some_conv)
    note body = body [unfolded info Some, simplified, unfolded claim, simplified]
    show thesis
    proof (cases "r2 = UVC_SUCCESS \<and> \<not> (ci_bEndpointAddress (in_ctrl_if i) \<noteq> 0 \<and> (\<not> oe_xfer_alloc env \<or> oe_submit env \<noteq> 0))")
      case False
      then show thesis using body fail by (auto split: if_splits)
    next
      case True
      then have "bit (dc_claimed cl) ?ctrl" using claim_if_claimed claim by fastforce
      then show thesis using body True
        by (auto intro!: opened [OF heap(1), of _ "if cx_own_usb_ctx c \<and> cx_open_devices c = [] \<and> \<not> cx_has_quarantined_device c
            then uvc_start_handler_thread ?c else ?c" i] split: if_splits)
    qed
  qed
qed


lemma start_thread_ok:
  assumes "thread_ok c" and "cx_own_usb_ctx c" and "cx_open_devices c = []" and "\<not> cx_has_quarantined_device c"
  shows "thread_ok ((uvc_start_handler_thread c)\<lparr> cx_next := n, cx_open_devices := [h] \<rparr>)"
  using assms by (auto simp: thread_ok_def uvc_start_handler_thread_def)

lemma open_internal_inv:
  assumes call: "uvc_open_internal env dev c = Some (ret, hp, c')" and live: "\<not> cx_freed c"
    and ref: "uvc_ref_device dev (cx_heap c) = Some heap" "life_inv (c\<lparr> cx_heap := heap \<rparr>)"
      "hp_devices heap dev = Some d" "holders c dev < dv_ref d"
  shows "life_inv c'"
  using call
proof (cases rule: open_internal_cases)
  case (failed heap1 heap' cl)
  then have "uvc_unref_device dev (cx_heap (c\<lparr> cx_heap := heap \<rparr>)) = Some heap'" using ref(1) by simp
  from unref_inv [OF ref(2) _ _ this] ref(3,4) have "life_inv (c\<lparr> cx_heap := heap' \<rparr>)" by simp
  then show ?thesis using failed(5) by (simp add: life_inv_def refs_ok_def ids_ok_def thread_ok_def holders_def)
next
  case (opened heap1 c1 h info)
  have [simp]: "heap1 = heap" using opened(1) ref(1) by simp
  have same: "cx_open_devices c1 = cx_open_devices c" "cx_quarantined c1 = cx_quarantined c" "cx_heap c1 = heap" "cx_next c \<le> cx_next c1"
    "cx_has_quarantined_device c1 = cx_has_quarantined_device c" "cx_freed c1 = cx_freed c"
    using opened(4) by (auto simp: uvc_start_handler_thread_def)
  have hold: "holders c' a = holders c a + (if a = dev then 1 else 0)" for a
    using opened(6,11) by (simp add: holders_def same)
  have "cx_heap c' = heap" using opened(11) same by simp
  then have "refs_ok c'"
    using ref(2-4) by (auto simp: life_inv_def refs_ok_def hold)
  moreover have "\<forall>h \<in> set (cx_open_devices c). dh_id h < cx_next c1" using ref(2) same(4) by (force simp: life_inv_def ids_ok_def)
  then have "ids_ok c'" using ref(2) opened(5) by (fastforce simp: life_inv_def ids_ok_def opened(11) same)
  moreover have "thread_ok c'"
    using ref(2) opened(4) by (auto simp: life_inv_def thread_ok_def opened(11) uvc_start_handler_thread_def split: if_splits)
  ultimately show ?thesis using ref(2) live by (auto simp: life_inv_def opened(11) same)
qed

lemma open_inv:
  assumes "life_inv c" and "\<not> cx_freed c" and "uvc_open usb_open env dev c = Some (ret, hp, c')"
  shows "life_inv c'"
proof (cases "usb_open = UVC_SUCCESS")
  case True
  then have call: "uvc_open_internal env dev c = Some (ret, hp, c')" using assms(3) by (simp add: uvc_open_def)
  obtain heap where r: "uvc_ref_device dev (cx_heap c) = Some heap" using call by (cases rule: open_internal_cases) auto
  obtain d where d: "hp_devices (cx_heap c) dev = Some d" "hp_devices heap = (hp_devices (cx_heap c))(dev \<mapsto> d\<lparr> dv_ref := dv_ref d + 1 \<rparr>)"
    using r by (rule ref_device_cases)
  have "holders c dev \<le> dv_ref d" using assms(1) d(1) by (cases "0 < holders c dev") (fastforce simp: life_inv_def refs_ok_def heap_ok_def)+
  then show ?thesis using open_internal_inv [OF call assms(2) r ref_inv [OF assms(1) r]] d(2) by simp
next
  case False
  then show ?thesis using assms by (simp add: uvc_open_def)
qed

lemma wrap_inv:
  assumes inv: "life_inv c" and "\<not> cx_freed c" and "uvc_wrap err usb env c = Some (ret, hp, c')"
  shows "life_inv c'"
proof (cases "err = UVC_SUCCESS")
  case True
  let ?h = "cx_heap c" let ?dev = "hp_next ?h"
  let ?heap = "?h\<lparr> hp_devices := (hp_devices ?h)(?dev \<mapsto> \<lparr> dv_ref = 0, dv_usb_dev = usb \<rparr>), hp_next := ?dev + 1 \<rparr>"
  let ?c = "c\<lparr> cx_heap := ?heap \<rparr>"
  have call: "uvc_open_internal env ?dev ?c = Some (ret, hp, c')" using assms(3) True by (simp add: uvc_wrap_def Let_def split: if_splits)
  have fresh: "hp_devices ?h ?dev = None" using inv by (auto simp: life_inv_def refs_ok_def heap_ok_def)
  have none: "holders c ?dev = 0" using inv fresh holders_nonneg [of c ?dev] unfolding life_inv_def refs_ok_def
    by (metis option.distinct(1) order_le_imp_less_or_eq)
  obtain heap where r: "uvc_ref_device ?dev (cx_heap ?c) = Some heap" using call by (cases rule: open_internal_cases) auto
  have heap: "hp_devices heap = (hp_devices ?h)(?dev \<mapsto> \<lparr> dv_ref = 1, dv_usb_dev = usb \<rparr>)" "hp_next heap = ?dev + 1"
    using r by (auto simp: uvc_ref_device_def Let_def)
  have ok: "heap_ok heap" using inv by (auto simp: life_inv_def refs_ok_def heap_ok_def heap split: if_splits)
  have "life_inv (c\<lparr> cx_heap := heap \<rparr>)"
    by (rule inv_heap [OF inv ok]) (use inv fresh in \<open>fastforce simp: life_inv_def refs_ok_def heap\<close>)
  then show ?thesis using open_internal_inv [OF call _ r] assms(2) heap(1) none by simp
next
  case False
  then show ?thesis using assms by (simp add: uvc_wrap_def)
qed

lemma find_handleE:
  assumes "find_handle i c = Some h" and "ids_ok c"
  obtains xs ys where "cx_open_devices c = xs @ h # ys" "dh_id h = i" "filter (\<lambda>h. dh_id h \<noteq> i) (cx_open_devices c) = xs @ ys"
proof -
  have h: "h \<in> set (cx_open_devices c)" "dh_id h = i" using assms(1) by (auto simp: find_handle_def find_Some_iff)
  obtain xs ys where s: "cx_open_devices c = xs @ h # ys" using h(1) by (meson split_list)
  have "i \<notin> dh_id ` set xs" "i \<notin> dh_id ` set ys" using assms(2) s h(2) by (auto simp: ids_ok_def)
  then have "filter (\<lambda>h. dh_id h \<noteq> i) xs = xs" "filter (\<lambda>h. dh_id h \<noteq> i) ys = ys" by (auto simp: filter_id_conv)
  then show thesis using that [OF s h(2)] s h(2) by simp
qed

lemma waiting_bind:
  "Option.bind m (\<lambda>r. case r of Still_waiting \<Rightarrow> Some Still_waiting | Returned x s \<Rightarrow> f s) = Some (Returned r t) \<longleftrightarrow>
     (\<exists>x s. m = Some (Returned x s) \<and> f s = Some (Returned r t))"
proof (cases m)
  case (Some w)
  then show ?thesis by (cases w) auto
qed simp

text \<open>What a close that returns can end in: the handle kept for ever, or gone.\<close>

lemma close_cases:
  assumes "uvc_close env i c = Some (Returned r c')"
  obtains (quarantined) h h' where "find_handle i c = Some h" "dh_dev h' = dh_dev h"
      "sd_has_quarantined_stream (dh_sd h') \<or> dh_has_quarantined_status_xfer h'"
      "c' = (unlink_handle i c)\<lparr> cx_has_quarantined_device := True, cx_quarantined := h' # cx_quarantined c \<rparr>"
  | (closed) h c1 heap cl where "find_handle i c = Some h"
      "end_handler_thread env i c = Some (Returned UVC_SUCCESS c1)"
      "uvc_unref_device (dh_dev h) (cx_heap c) = Some heap"
      "c' = (unlink_handle i c1)\<lparr> cx_heap := heap, cx_closed := cl # cx_closed c1 \<rparr>"
proof -
  obtain h where h: "find_handle i c = Some h" using assms by (auto simp: uvc_close_def bind_eq_Some_conv)
  let ?stop = "if sd_streams (dh_sd h) \<noteq> [] then uvc_stop_streaming (ce_ops env) (ce_now env) (ce_ws env) (dh_sd h)
      else Some (Returned UVC_SUCCESS (dh_sd h))"
  note body = assms [unfolded uvc_close_def h Option.bind.simps]
  obtain y where y: "?stop = Some y" using body by (cases ?stop) auto
  note body = body [unfolded y Option.bind.simps]
  obtain x sd where sd: "y = Returned x sd" using body by (cases y) auto
  note body = body [unfolded sd waiting.case Let_def]
  show thesis
  proof (cases "sd_has_quarantined_stream sd \<or> dh_status_xfer h \<and> \<not> ce_stopped env")
    case True
    then show thesis using body
      by (intro quarantined [OF h, of "h\<lparr> dh_sd := sd, dh_has_quarantined_status_xfer := dh_status_xfer h \<and> \<not> ce_stopped env \<rparr>"])
        auto
  next
    case False
    let ?rel = "uvc_release_claimed_ifs (ce_ops env) (Some (unat (ci_bInterfaceNumber (in_ctrl_if (sd_info sd))))) (sd_claims sd)"
    obtain cl where cl: "?rel = Some cl" using body False by (cases ?rel) auto
    obtain w where w: "end_handler_thread env i c = Some w" using body False cl by (cases "end_handler_thread env i c") auto
    obtain x c1 where x: "w = Returned x c1" using body False cl w by (cases w) auto
    obtain heap y where j: "end_handler_thread env i c = Some (Returned x c1)"
      "uvc_unref_device (dh_dev h) (cx_heap (unlink_handle i c1)) = Some heap"
      "c' = (unlink_handle i c1)\<lparr> cx_heap := heap, cx_closed := y # cx_closed c1 \<rparr>"
      using body False cl w x by (auto simp: bind_eq_Some_conv unlink_handle_def)
    have "cx_heap c1 = cx_heap c" "x = UVC_SUCCESS"
      using j(1) by (auto simp: end_handler_thread_def join_handler_thread_def uvc_handle_events_def bind_eq_Some_conv Let_def split: if_splits)
    then show thesis using closed [OF h, of c1 heap y] j by (simp add: unlink_handle_def)
  qed
qed

lemma end_handler_same:
  assumes "end_handler_thread env i c = Some (Returned r c1)"
  shows "cx_open_devices c1 = cx_open_devices c" "cx_quarantined c1 = cx_quarantined c" "cx_heap c1 = cx_heap c"
    "cx_has_quarantined_device c1 = cx_has_quarantined_device c" "cx_next c1 = cx_next c" "cx_own_usb_ctx c1 = cx_own_usb_ctx c"
    "cx_freed c1 = cx_freed c" "cx_closed c1 = cx_closed c"
  using assms by (auto simp: end_handler_thread_def join_handler_thread_def uvc_handle_events_def bind_eq_Some_conv Let_def split: if_splits)

lemma join_thread_ok:
  assumes "thread_ok c" and "join_handler_thread turns (c\<lparr> cx_kill_handler_thread := True \<rparr>) = Some (Returned r c1)"
  shows "cx_handler_thread c1 = None" "cx_running c1 = []" "cx_kill_handler_thread c1" "cx_joined c1 \<noteq> []"
  using assms by (auto simp: join_handler_thread_def uvc_handle_events_def thread_ok_def bind_eq_Some_conv Let_def split: if_splits)

text \<open>Giving back the reference of a handle that is unlinked keeps the others.\<close>

lemma unlink_refs_ok:
  assumes inv: "life_inv c" and "uvc_unref_device (dh_dev h) (cx_heap c) = Some (cx_heap c')"
    and hold: "\<And>a. holders c a = holders c' a + (if a = dh_dev h then 1 else 0)"
  shows "refs_ok c'"
proof -
  have "heap_ok (cx_heap c')" using inv assms(2) by (auto simp: life_inv_def refs_ok_def intro: unref_heap_ok)
  obtain d where d: "hp_devices (cx_heap c) (dh_dev h) = Some d"
    "hp_devices (cx_heap c') = (hp_devices (cx_heap c))(dh_dev h := (if dv_ref d = 1 then None else Some (d\<lparr> dv_ref := dv_ref d - 1 \<rparr>)))"
    using assms(2) by (rule unref_device_cases)
  have le: "holders c (dh_dev h) \<le> dv_ref d" using inv_refs [OF inv d(1)] hold [of "dh_dev h"] holders_nonneg [of c' "dh_dev h"] by simp
  have "\<exists>d. hp_devices (cx_heap c') a = Some d \<and> holders c' a \<le> dv_ref d" if pos: "0 < holders c' a" for a
  proof (cases "a = dh_dev h")
    case True
    then show ?thesis using pos hold [of a] d le by auto
  next
    case False
    then obtain d' where "hp_devices (cx_heap c) a = Some d'" "holders c a \<le> dv_ref d'"
      using inv_ref_ex [OF inv, of a] pos hold [of a] by auto
    then show ?thesis using False hold [of a] d(2) by (intro exI [of _ d']) simp
  qed
  with \<open>heap_ok (cx_heap c')\<close> show ?thesis by (simp add: refs_ok_def)
qed

lemma close_inv:
  assumes inv: "life_inv c" and live: "\<not> cx_freed c" and "uvc_close env i c = Some (Returned r c')"
  shows "life_inv c'"
  using assms(3)
proof (cases rule: close_cases)
  case (quarantined h h')
  obtain xs ys where s: "cx_open_devices c = xs @ h # ys" "filter (\<lambda>h. dh_id h \<noteq> i) (cx_open_devices c) = xs @ ys"
    using quarantined(1) inv by (elim find_handleE) (auto simp: life_inv_def)
  have "holders c' a = holders c a" for a using quarantined(2,4) s by (simp add: holders_def unlink_handle_def)
  then have "refs_ok c'" using inv quarantined(4) by (simp add: life_inv_def refs_ok_def unlink_handle_def)
  moreover have "ids_ok c'" using inv quarantined(4) s by (auto simp: life_inv_def ids_ok_def unlink_handle_def)
  moreover have "thread_ok c'" using inv quarantined(4) s by (auto simp: life_inv_def thread_ok_def unlink_handle_def)
  ultimately show ?thesis using inv live quarantined(4) by (simp add: life_inv_def unlink_handle_def)
next
  case (closed h c1 heap cl)
  obtain xs ys where s: "cx_open_devices c = xs @ h # ys" "filter (\<lambda>h. dh_id h \<noteq> i) (cx_open_devices c) = xs @ ys"
    using closed(1) inv by (elim find_handleE) (auto simp: life_inv_def)
  have th: "thread_ok c" using inv by (simp add: life_inv_def)
  have c1: "cx_open_devices c1 = cx_open_devices c" "cx_quarantined c1 = cx_quarantined c"
    "cx_has_quarantined_device c1 = cx_has_quarantined_device c" "cx_next c1 = cx_next c" "cx_own_usb_ctx c1 = cx_own_usb_ctx c" "cx_freed c1 = cx_freed c"
    using end_handler_same [OF closed(2)] by simp_all
  have "holders c a = holders c' a + (if a = dh_dev h then 1 else 0)" for a
    using closed(4) s c1 by (simp add: holders_def unlink_handle_def)
  then have "refs_ok c'" using unlink_refs_ok [OF inv, of h c'] closed(3,4) by simp
  moreover have "ids_ok c'" using inv closed(4) s c1 by (auto simp: life_inv_def ids_ok_def unlink_handle_def)
  moreover have "thread_ok c'"
  proof (cases "cx_own_usb_ctx c \<and> map dh_id (cx_open_devices c) = [i] \<and> \<not> cx_has_quarantined_device c")
    case True
    then have "join_handler_thread (ce_turns env) (c\<lparr> cx_kill_handler_thread := True \<rparr>) = Some (Returned UVC_SUCCESS c1)"
      using closed(2) by (simp add: end_handler_thread_def)
    moreover have "xs = [] \<and> ys = []" using True s(1) by (cases xs) auto
    ultimately show ?thesis using join_thread_ok [OF th] True s(2) c1 by (simp add: thread_ok_def closed(4) unlink_handle_def)
  next
    case False
    then have [simp]: "c1 = c" using closed(2) by (simp add: end_handler_thread_def split: if_splits)
    have "xs @ ys \<noteq> [] \<or> \<not> cx_own_usb_ctx c \<or> cx_has_quarantined_device c"
      using False s closed(1) by (auto simp: find_handle_def find_Some_iff)
    then show ?thesis using th s by (auto simp: thread_ok_def closed(4) unlink_handle_def)
  qed
  ultimately show ?thesis using inv live c1 closed(4) by (simp add: life_inv_def unlink_handle_def)
qed

lemma close_open_devices:
  assumes "uvc_close env i c = Some (Returned r c')"
  shows "cx_open_devices c' = filter (\<lambda>h. dh_id h \<noteq> i) (cx_open_devices c)" "cx_freed c' = cx_freed c"
  using assms by (cases rule: close_cases; auto simp: unlink_handle_def dest: end_handler_same)+

lemma close_all_inv:
  assumes "life_inv c" and "\<not> cx_freed c" and "close_all env is c = Some (Returned r c')"
  shows "life_inv c' \<and> \<not> cx_freed c' \<and> cx_open_devices c' = filter (\<lambda>h. dh_id h \<notin> set is) (cx_open_devices c)"
  using assms
proof (induction "is" arbitrary: c)
  case (Cons i "is")
  obtain x c1 where c1: "uvc_close (env i) i c = Some (Returned x c1)" "close_all env is c1 = Some (Returned r c')"
    using Cons.prems(3) by (auto simp: waiting_bind)
  note o = close_open_devices [OF c1(1)]
  from Cons.IH [OF close_inv [OF Cons.prems(1,2) c1(1)] _ c1(2)] o Cons.prems(2)
  show ?case by (simp add: conj_commute)
qed simp

lemma exit_inv:
  assumes "life_inv c" and "\<not> cx_freed c" and "uvc_exit env c = Some (Returned r c')"
  shows "life_inv c'"
proof -
  obtain x c1 where c1: "close_all env (map dh_id (cx_open_devices c)) c = Some (Returned x c1)"
    using assms(3) by (auto simp: uvc_exit_def waiting_bind)
  note inv = close_all_inv [OF assms(1,2) c1]
  then have empty: "cx_open_devices c1 = []" by simp
  have "c' = (if cx_has_quarantined_device c1 then c1 else (if cx_own_usb_ctx c1 then c1\<lparr> cx_usb_exited := True \<rparr> else c1)\<lparr> cx_freed := True \<rparr>)"
    using assms(3) c1 by (auto simp: uvc_exit_def Let_def)
  then show ?thesis using inv empty by (auto simp: life_inv_def refs_ok_def ids_ok_def thread_ok_def holders_def)
qed

lemma use_inv:
  assumes "life_inv c"
  shows "life_inv (c\<lparr> cx_open_devices := map (\<lambda>h. if dh_id h = i then h\<lparr> dh_sd := sd \<rparr> else h) (cx_open_devices c) \<rparr>)"
proof -
  let ?f = "\<lambda>h. if dh_id h = i then h\<lparr> dh_sd := sd \<rparr> else h"
  have id: "dh_id (?f h) = dh_id h" "dh_dev (?f h) = dh_dev h" for h by auto
  let ?c = "c\<lparr> cx_open_devices := map ?f (cx_open_devices c) \<rparr>"
  have "holders ?c a = holders c a" for a
    by (simp add: holders_def filter_map o_def id)
  then have "refs_ok ?c" using assms by (simp add: life_inv_def refs_ok_def)
  moreover have "map dh_id (map ?f (cx_open_devices c)) = map dh_id (cx_open_devices c)" by (simp add: o_def id)
  then have "ids_ok ?c" using assms by (auto simp: life_inv_def ids_ok_def simp del: map_map)
  moreover have "thread_ok ?c" using assms by (simp add: life_inv_def thread_ok_def)
  ultimately show ?thesis using assms by (simp add: life_inv_def)
qed

lemma life_step_inv: "life_step c c' \<Longrightarrow> life_inv c \<Longrightarrow> life_inv c'"
proof (induction rule: life_step.induct)
  case (get c h dev c')
  then show ?case by (auto simp: uvc_get_device_def bind_eq_Some_conv intro: ref_inv)
next
  case (thread t c)
  then show ?case by (auto simp: uvc_handle_events_def life_inv_def refs_ok_def ids_ok_def thread_ok_def holders_def)
qed (auto intro: open_inv wrap_inv use_inv find_inv ref_inv unref_inv close_inv exit_inv)

lemma life_reachable_inv: "life_reachable c \<Longrightarrow> life_inv c"
proof (induction rule: life_reachable.induct)
  case (init usb_init given heap ret c)
  then show ?case by (auto simp: uvc_init_def life_inv_def refs_ok_def ids_ok_def thread_ok_def holders_def Let_def split: if_splits)
qed (auto intro: life_step_inv)

lemma stream_close_info:
  "uvc_stream_close ops now ws s d = Some (Returned r d') \<Longrightarrow> sd_info d' = sd_info d"
  unfolding uvc_stream_close_def waiting_bind by (auto simp: unlink_stream_def Let_def bind_eq_Some_conv split: if_splits)

lemma stop_streams_info: "stop_streams ops now ws ss d = Some (Returned r d') \<Longrightarrow> sd_info d' = sd_info d"
  by (induction ss arbitrary: d) (auto simp: waiting_bind dest: stream_close_info)

lemma release_claimed_Some:
  assumes "idx < 32"
  shows "\<exists>d'. uvc_release_claimed_ifs ops (Some idx) d = Some d'"
proof -
  have "\<exists>d'. release_others ops ctrl n d = Some d'" if "n \<le> 32" for ctrl n and d :: "'a devh_claims"
    using that
  proof (induction n arbitrary: d)
    case (Suc n)
    have "32 - Suc n < 32" by simp
    from release_if_Some [OF this, of ops d] obtain ret d1 where "uvc_release_if ops (32 - Suc n) d = Some (ret, d1)" by blast
    then show ?case using Suc by (auto simp: Let_def)
  qed simp
  from this [of 32 "Some idx" d] obtain d1 where "release_others ops (Some idx) 32 d = Some d1" by auto
  then show ?thesis using release_if_Some [OF assms, of ops d1] by (auto simp: uvc_release_claimed_ifs_def)
qed

lemma join_returns:
  assumes "thread_ok c" and "ce_turns env"
  shows "\<exists>c1. end_handler_thread env i c = Some (Returned UVC_SUCCESS c1)"
  using assms by (auto simp: end_handler_thread_def thread_ok_def join_handler_thread_def uvc_handle_events_def Let_def)

lemma holders_pos:
  assumes "h \<in> set (cx_open_devices c @ cx_quarantined c)"
  shows "0 < holders c (dh_dev h)"
proof -
  have "h \<in> set (filter (\<lambda>x. dh_dev x = dh_dev h) (cx_open_devices c @ cx_quarantined c))" using assms by simp
  then show ?thesis unfolding holders_def by (metis length_pos_if_in_set of_nat_0_less_iff)
qed

text \<open>How a close ends once the streams are stopped.\<close>

lemma close_after_stop:
  assumes "life_inv c" and "find_handle i c = Some h"
    and "(if sd_streams (dh_sd h) \<noteq> [] then uvc_stop_streaming (ce_ops env) (ce_now env) (ce_ws env) (dh_sd h)
      else Some (Returned UVC_SUCCESS (dh_sd h))) = Some (Returned r sd)"
    and "unat (ci_bInterfaceNumber (in_ctrl_if (sd_info sd))) < 32"
    and "q = (dh_status_xfer h \<and> \<not> ce_stopped env)" and "ce_turns env"
  obtains c1 heap cl where "end_handler_thread env i c = Some (Returned UVC_SUCCESS c1)"
    "uvc_unref_device (dh_dev h) (cx_heap c) = Some heap"
    "uvc_close env i c = Some (Returned UVC_SUCCESS
       (if sd_has_quarantined_stream sd \<or> q
        then (unlink_handle i c)\<lparr> cx_has_quarantined_device := True,
               cx_quarantined := h\<lparr> dh_sd := sd, dh_has_quarantined_status_xfer := q \<rparr> # cx_quarantined c \<rparr>
        else (unlink_handle i c1)\<lparr> cx_heap := heap, cx_closed := (cl, sd_leaked sd) # cx_closed c \<rparr>))"
proof -
  obtain cl where cl: "uvc_release_claimed_ifs (ce_ops env) (Some (unat (ci_bInterfaceNumber (in_ctrl_if (sd_info sd))))) (sd_claims sd) = Some cl"
    using release_claimed_Some [OF assms(4)] by metis
  obtain c1 where c1: "end_handler_thread env i c = Some (Returned UVC_SUCCESS c1)"
    using join_returns [OF _ assms(6), of c i] assms(1) by (auto simp: life_inv_def)
  note same = end_handler_same [OF c1]
  have "h \<in> set (cx_open_devices c)" using assms(2) by (auto simp: find_handle_def find_Some_iff)
  then have "0 < holders c (dh_dev h)" using holders_pos [of h c] by simp
  then obtain heap where heap: "uvc_unref_device (dh_dev h) (cx_heap c) = Some heap"
    using assms(1) by (auto simp: life_inv_def refs_ok_def uvc_unref_device_def Let_def)
  show thesis
    by (rule that [OF c1 heap, of "cl\<lparr> dc_guard_res := uvc_reattach_guard_destroy (dc_reattach_guard cl) (dc_guard_res cl) \<rparr>"])
      (unfold uvc_close_def assms(2,3,5) Option.bind.simps waiting.case Let_def, use cl c1 same heap in \<open>auto simp: unlink_handle_def\<close>)
qed

text \<open>A camera with the sample configuration, opened and closed on a context of its own.\<close>

definition cam_usb :: usb_device where
  "cam_usb = (sample_usb 7 14)\<lparr> ud_config := Some sample_config \<rparr>"

definition cam_env :: "kernel_state open_env" where
  "cam_env = \<lparr> oe_ops = kernel_ops, oe_gs = sample_source, oe_dev_alloc = True, oe_handle_alloc = True, oe_info_alloc = True, oe_xfer_alloc = True, oe_submit = 0,
     oe_usb = dc_usb (sample_claims []), oe_res = dc_guard_res (sample_claims []) \<rparr>"

definition cam_close :: "bool \<Rightarrow> kernel_state close_env" where
  "cam_close stopped = \<lparr> ce_ops = kernel_ops, ce_now = (\<lambda>_. 0), ce_ws = (\<lambda>_. \<lparr> sw_waits = [], sw_joined = False \<rparr>),
     ce_stopped = stopped, ce_turns = True \<rparr>"

definition cam_claims :: "kernel_state devh_claims" where
  "cam_claims = (case uvc_claim_if kernel_ops sample_source 0 (sample_claims []) of Some (_, cl) \<Rightarrow> cl)"

definition cam_handle :: "nat \<Rightarrow> kernel_state uvc_device_handle" where
  "cam_handle i = \<lparr> dh_id = i, dh_dev = 0, dh_sd = \<lparr> sd_claims = cam_claims, sd_info = sample_info, sd_streams = [], sd_is_isight = False,
     sd_transfer_buffer_count = 0, sd_has_quarantined_stream = False, sd_leaked = [], sd_freed = [] \<rparr>,
     dh_status_xfer = True, dh_has_quarantined_status_xfer = False \<rparr>"

definition cam_ctx :: "kernel_state uvc_context" where
  "cam_ctx = the (snd (uvc_init 0 False (heap0\<lparr> hp_devices := [0 \<mapsto> \<lparr> dv_ref = 1, dv_usb_dev = cam_usb \<rparr>], hp_next := 1 \<rparr>)))"

definition cam_opened :: "kernel_state uvc_context \<Rightarrow> kernel_state uvc_context" where
  "cam_opened c = c\<lparr> cx_heap := the (uvc_ref_device 0 (cx_heap c)), cx_handler_thread := Some (cx_next c),
     cx_running := cx_next c # cx_running c, cx_next := cx_next c + 2, cx_open_devices := [cam_handle (cx_next c + 1)] \<rparr>"

definition cam_closed :: "bool \<Rightarrow> kernel_state uvc_context" where
  "cam_closed stopped = (case uvc_close (cam_close stopped) 1 (cam_opened cam_ctx) of Some (Returned _ c') \<Rightarrow> c')"

lemma cam_parts:
  "uvc_claim_if kernel_ops sample_source 0 (sample_claims []) = Some (0, cam_claims)"
  "uvc_get_device_info True (Some sample_config) (Some (0x046d, 0x0825)) = Some (0, Some sample_info)"
  "ci_bInterfaceNumber (in_ctrl_if sample_info) = 0" "ci_bEndpointAddress (in_ctrl_if sample_info) \<noteq> 0"
proof -
  have "map_option fst (uvc_claim_if kernel_ops sample_source 0 (sample_claims [])) = Some 0" by code_simp
  then show "uvc_claim_if kernel_ops sample_source 0 (sample_claims []) = Some (0, cam_claims)" by (auto simp: cam_claims_def)
qed code_simp+

lemma cam_open:
  assumes "hp_devices (cx_heap c) 0 = Some \<lparr> dv_ref = 1, dv_usb_dev = cam_usb \<rparr>"
    and "cx_own_usb_ctx c" and "cx_open_devices c = []" and "\<not> cx_has_quarantined_device c"
  shows "uvc_open 0 cam_env 0 c = Some (0, Some (cam_handle (cx_next c + 1)), cam_opened c)"
  using assms cam_parts
  by (simp add: uvc_open_def uvc_open_internal_def uvc_ref_device_def Let_def cam_usb_def sample_usb_def cam_env_def sample_claims_def
      uvc_start_handler_thread_def cam_handle_def cam_opened_def)

lemma cam_ctx_eq:
  "cam_ctx = \<lparr> cx_own_usb_ctx = True, cx_open_devices = [], cx_handler_thread = None, cx_kill_handler_thread = False,
     cx_has_quarantined_device = False, cx_running = [], cx_joined = [], cx_next = 0,
     cx_heap = heap0\<lparr> hp_devices := [0 \<mapsto> \<lparr> dv_ref = 1, dv_usb_dev = cam_usb \<rparr>], hp_next := 1 \<rparr>,
     cx_quarantined = [], cx_closed = [], cx_usb_exited = False, cx_freed = False \<rparr>"
  by (simp add: cam_ctx_def uvc_init_def Let_def)

lemma cam_ctx_open: "uvc_open 0 cam_env 0 cam_ctx = Some (0, Some (cam_handle 1), cam_opened cam_ctx)"
  using cam_open [of cam_ctx] by (simp add: cam_ctx_eq)

lemma cam_heap_ok: "heap_ok (cx_heap cam_ctx)"
  by (simp add: heap_ok_def cam_ctx_eq heap0_def)

lemma cam_opened_reachable: "life_reachable (cam_opened cam_ctx)"
proof -
  have "uvc_init 0 False (cx_heap cam_ctx) = (0, Some cam_ctx)" by (simp add: cam_ctx_eq uvc_init_def Let_def)
  from life_reachable.init [OF this cam_heap_ok] show ?thesis
    by (rule life_reachable.step) (rule life_step.open [OF _ cam_ctx_open], simp add: cam_ctx_eq)
qed

lemma cam_closed_eq:
  obtains c1 heap cl where "join_handler_thread True ((cam_opened cam_ctx)\<lparr> cx_kill_handler_thread := True \<rparr>) = Some (Returned UVC_SUCCESS c1)"
    "uvc_unref_device 0 (cx_heap (cam_opened cam_ctx)) = Some heap"
    "uvc_close (cam_close stopped) 1 (cam_opened cam_ctx) = Some (Returned UVC_SUCCESS (cam_closed stopped))"
    "cam_closed stopped =
       (if \<not> stopped
        then (unlink_handle 1 (cam_opened cam_ctx))\<lparr> cx_has_quarantined_device := True,
               cx_quarantined := [(cam_handle 1)\<lparr> dh_has_quarantined_status_xfer := True \<rparr>] \<rparr>
        else (unlink_handle 1 c1)\<lparr> cx_heap := heap, cx_closed := [(cl, [])] \<rparr>)"
proof -
  have h: "find_handle 1 (cam_opened cam_ctx) = Some (cam_handle 1)" by (simp add: find_handle_def cam_opened_def cam_ctx_eq cam_handle_def)
  have q: "(\<not> stopped) = (dh_status_xfer (cam_handle 1) \<and> \<not> ce_stopped (cam_close stopped))" by (simp add: cam_handle_def cam_close_def)
  have s: "(if sd_streams (dh_sd (cam_handle 1)) \<noteq> [] then uvc_stop_streaming (ce_ops (cam_close stopped)) (ce_now (cam_close stopped))
      (ce_ws (cam_close stopped)) (dh_sd (cam_handle 1)) else Some (Returned UVC_SUCCESS (dh_sd (cam_handle 1)))) =
      Some (Returned UVC_SUCCESS (dh_sd (cam_handle 1)))" by (simp add: cam_handle_def)
  have n: "unat (ci_bInterfaceNumber (in_ctrl_if (sd_info (dh_sd (cam_handle 1))))) < 32" using cam_parts(3) by (simp add: cam_handle_def)
  have f: "cx_own_usb_ctx (cam_opened cam_ctx)" "map dh_id (cx_open_devices (cam_opened cam_ctx)) = [1]"
    "\<not> cx_has_quarantined_device (cam_opened cam_ctx)" "cx_quarantined (cam_opened cam_ctx) = []" "cx_closed (cam_opened cam_ctx) = []"
    "dh_dev (cam_handle 1) = 0" "\<not> sd_has_quarantined_stream (dh_sd (cam_handle 1))" "sd_leaked (dh_sd (cam_handle 1)) = []"
    by (simp_all add: cam_opened_def cam_ctx_eq cam_handle_def)
  have turns: "ce_turns (cam_close stopped)" by (simp add: cam_close_def)
  obtain c1 heap cl where "end_handler_thread (cam_close stopped) 1 (cam_opened cam_ctx) = Some (Returned UVC_SUCCESS c1)"
    "uvc_unref_device 0 (cx_heap (cam_opened cam_ctx)) = Some heap"
    and c: "uvc_close (cam_close stopped) 1 (cam_opened cam_ctx) = Some (Returned UVC_SUCCESS
       (if \<not> stopped
        then (unlink_handle 1 (cam_opened cam_ctx))\<lparr> cx_has_quarantined_device := True,
               cx_quarantined := [(cam_handle 1)\<lparr> dh_sd := dh_sd (cam_handle 1), dh_has_quarantined_status_xfer := \<not> stopped \<rparr>] \<rparr>
        else (unlink_handle 1 c1)\<lparr> cx_heap := heap, cx_closed := [(cl, [])] \<rparr>))"
    by (rule close_after_stop [OF life_reachable_inv [OF cam_opened_reachable] h s n q turns]) (simp only: f simp_thms if_True)
  moreover have "cam_closed stopped = (if \<not> stopped
        then (unlink_handle 1 (cam_opened cam_ctx))\<lparr> cx_has_quarantined_device := True,
               cx_quarantined := [(cam_handle 1)\<lparr> dh_sd := dh_sd (cam_handle 1), dh_has_quarantined_status_xfer := \<not> stopped \<rparr>] \<rparr>
        else (unlink_handle 1 c1)\<lparr> cx_heap := heap, cx_closed := [(cl, [])] \<rparr>)"
    unfolding cam_closed_def c by (simp only: option.case waiting.case)
  ultimately show thesis using c f(1-3) turns by (intro that [of c1 heap cl]) (simp_all add: end_handler_thread_def)
qed

lemma cam_closed_reachable: "life_reachable (cam_closed stopped)"
proof (rule cam_closed_eq)
  have "\<not> cx_freed (cam_opened cam_ctx)" by (simp add: cam_opened_def cam_ctx_eq)
  then show "uvc_close (cam_close stopped) 1 (cam_opened cam_ctx) = Some (Returned UVC_SUCCESS (cam_closed stopped)) \<Longrightarrow> ?thesis"
    by (intro life_reachable.step [OF cam_opened_reachable life_step.close])
qed

section \<open>Properties\<close>

text \<open>
  C6: whatever a program does with a context, at most one event handler thread runs on it; a device
  structure lives as long as an open or a quarantined handle refers to it, with at least as many
  references as such handles; and once the context is freed, no handler thread runs on it, no handle is
  open and none was quarantined.
\<close>

theorem context_safe:
  assumes "life_reachable c"
  shows "length (cx_running c) \<le> 1 \<and>
    (\<forall>h \<in> set (cx_open_devices c @ cx_quarantined c). \<exists>d. hp_devices (cx_heap c) (dh_dev h) = Some d \<and> holders c (dh_dev h) \<le> dv_ref d) \<and>
    (cx_freed c \<longrightarrow> cx_running c = [] \<and> cx_open_devices c = [] \<and> cx_quarantined c = [])"
proof -
  note inv = life_reachable_inv [OF assms]
  have "\<exists>d. hp_devices (cx_heap c) (dh_dev h) = Some d \<and> holders c (dh_dev h) \<le> dv_ref d"
    if "h \<in> set (cx_open_devices c @ cx_quarantined c)" for h
    using holders_pos [OF that] inv by (simp add: life_inv_def refs_ok_def)
  then show ?thesis using inv by (auto simp: life_inv_def thread_ok_def)
qed

text \<open>The status transfer does not stop: the handle is kept, with its reference.\<close>

theorem context_safe_witness:
  "\<exists>h d. cx_quarantined (cam_closed False) = [h] \<and> cx_running (cam_closed False) = [0] \<and>
     hp_devices (cx_heap (cam_closed False)) (dh_dev h) = Some d \<and> 1 \<le> dv_ref d"
proof -
  obtain h where h: "cx_quarantined (cam_closed False) = [h]" "cx_running (cam_closed False) = [0]" "cx_open_devices (cam_closed False) = []"
    by (rule cam_closed_eq [of False]) (simp add: unlink_handle_def cam_opened_def cam_ctx_eq cam_handle_def)
  then have "holders (cam_closed False) (dh_dev h) = 1" by (simp add: holders_def)
  with h context_safe [OF cam_closed_reachable, of False] show ?thesis by auto
qed





text \<open>
  C24: opening a device.  On success the handle is the last open device, refers to the device with a
  reference of its own, has no stream, and its control interface is claimed; on failure the open devices
  and the event thread are as before, and so is every device structure.
\<close>

theorem open_correct:
  assumes "uvc_open usb_open env dev c = Some (ret, hp, c')" and "heap_ok (cx_heap c)"
  shows "case hp of
      None \<Rightarrow> ret \<noteq> UVC_SUCCESS \<and> cx_open_devices c' = cx_open_devices c \<and> cx_running c' = cx_running c \<and>
        hp_devices (cx_heap c') = hp_devices (cx_heap c)
    | Some h \<Rightarrow> ret = UVC_SUCCESS \<and> cx_open_devices c' = cx_open_devices c @ [h] \<and> dh_dev h = dev \<and> sd_streams (dh_sd h) = [] \<and>
        (\<exists>d. hp_devices (cx_heap c) dev = Some d \<and>
           hp_devices (cx_heap c') = (hp_devices (cx_heap c))(dev \<mapsto> d\<lparr> dv_ref := dv_ref d + 1 \<rparr>)) \<and>
        bit (dc_claimed (sd_claims (dh_sd h))) (unat (ci_bInterfaceNumber (in_ctrl_if (sd_info (dh_sd h)))))"
proof (cases "usb_open = UVC_SUCCESS")
  case True
  then have "uvc_open_internal env dev c = Some (ret, hp, c')" using assms(1) by (simp add: uvc_open_def)
  then show ?thesis
  proof (cases rule: open_internal_cases)
    case (failed heap heap' cl)
    obtain d where d: "hp_devices (cx_heap c) dev = Some d" "hp_devices heap = (hp_devices (cx_heap c))(dev \<mapsto> d\<lparr> dv_ref := dv_ref d + 1 \<rparr>)"
      using failed(1) by (rule ref_device_cases)
    have "0 < dv_ref d" using assms(2) d(1) by (auto simp: heap_ok_def)
    then have "hp_devices heap' = hp_devices (cx_heap c)" using failed(2) d by (elim unref_device_cases) (auto simp: fun_eq_iff)
    then show ?thesis using failed by simp
  next
    case (opened heap c1 h info)
    obtain d where d: "hp_devices (cx_heap c) dev = Some d" "hp_devices heap = (hp_devices (cx_heap c))(dev \<mapsto> d\<lparr> dv_ref := dv_ref d + 1 \<rparr>)"
      using opened(1) by (rule ref_device_cases)
    then show ?thesis using opened by (auto simp: uvc_start_handler_thread_def)
  qed
next
  case False
  then show ?thesis using assms by (auto simp: uvc_open_def)
qed

theorem open_correct_witness:
  "cx_open_devices (cam_opened cam_ctx) = [cam_handle 1] \<and> bit (dc_claimed (sd_claims (dh_sd (cam_handle 1)))) 0"
  using open_correct [OF cam_ctx_open cam_heap_ok] cam_parts(3) by (simp add: cam_ctx_eq cam_handle_def)

text \<open>
  C23: closing a device ends.  Assumed are an open handle in order, whose interface numbers fit the claim
  mask; that the stop of each running stream ends, by five timeouts or the completion of its transfers and
  by the end of its callback thread; and that the event thread comes back from libusb to the head of its
  loop.  Then the close returns without a fault; afterwards the handle is not open, and it was either
  freed, with the slots of all its streams empty, or kept for ever and the context marked.
\<close>

theorem close_returns:
  assumes "life_reachable c" and "h \<in> set (cx_open_devices c)" and "dev_ok (dh_sd h)"
    and "\<forall>s \<in> set (sd_streams (dh_sd h)). unat (stream_num s) < 32"
    and "\<forall>s \<in> set (sd_streams (dh_sd h)). sh_running s \<longrightarrow> stop_ends (ce_ws env (stream_num s)) s"
    and "unat (ci_bInterfaceNumber (in_ctrl_if (sd_info (dh_sd h)))) < 32" and "ce_turns env"
  shows "\<exists>c'. uvc_close env (dh_id h) c = Some (Returned UVC_SUCCESS c') \<and> dh_id h \<notin> dh_id ` set (cx_open_devices c') \<and>
    ((\<exists>cl. cx_closed c' = (cl, []) # cx_closed c \<and> cx_quarantined c' = cx_quarantined c \<and>
        cx_has_quarantined_device c' = cx_has_quarantined_device c) \<or>
     (\<exists>h'. cx_quarantined c' = h' # cx_quarantined c \<and> cx_has_quarantined_device c' \<and> dh_id h' = dh_id h \<and>
       (dh_has_quarantined_status_xfer h' \<or> sd_has_quarantined_stream (dh_sd h')) \<and> cx_closed c' = cx_closed c))"
proof -
  note inv = life_reachable_inv [OF assms(1)]
  let ?i = "dh_id h"
  have h: "find_handle ?i c = Some h"
  proof -
    have "inj_on dh_id (set (cx_open_devices c))" using inv by (simp add: life_inv_def ids_ok_def distinct_map)
    then have "\<forall>x. find_handle ?i c = Some x \<longrightarrow> x = h" using assms(2) by (auto simp: find_handle_def find_Some_iff inj_on_def)
    moreover have "find_handle ?i c \<noteq> None" using assms(2) by (auto simp: find_handle_def find_None_iff)
    ultimately show ?thesis by auto
  qed
  obtain r sd where sd: "(if sd_streams (dh_sd h) \<noteq> [] then uvc_stop_streaming (ce_ops env) (ce_now env) (ce_ws env) (dh_sd h)
      else Some (Returned UVC_SUCCESS (dh_sd h))) = Some (Returned r sd)" "dev_ok sd" "sd_info sd = sd_info (dh_sd h)"
  proof (cases "sd_streams (dh_sd h) = []")
    case False
    then show thesis using that stop_streams_ok [OF assms(3) refl assms(4,5), of "ce_ops env" "ce_now env"]
      by (auto simp: uvc_stop_streaming_def dest: stop_streams_info)
  qed (use that assms(3) in simp)
  let ?q = "dh_status_xfer h \<and> \<not> ce_stopped env"
  have num: "unat (ci_bInterfaceNumber (in_ctrl_if (sd_info sd))) < 32" using assms(6) sd(3) by simp
  obtain c1 heap cl where c1: "end_handler_thread env ?i c = Some (Returned UVC_SUCCESS c1)"
    and call: "uvc_close env ?i c = Some (Returned UVC_SUCCESS
       (if sd_has_quarantined_stream sd \<or> ?q
        then (unlink_handle ?i c)\<lparr> cx_has_quarantined_device := True,
               cx_quarantined := h\<lparr> dh_sd := sd, dh_has_quarantined_status_xfer := ?q \<rparr> # cx_quarantined c \<rparr>
        else (unlink_handle ?i c1)\<lparr> cx_heap := heap, cx_closed := (cl, sd_leaked sd) # cx_closed c \<rparr>))"
    by (rule close_after_stop [OF inv h sd(1) num refl assms(7)])
  note c1' = end_handler_same [OF c1]
  have "\<not> sd_has_quarantined_stream sd \<Longrightarrow> sd_leaked sd = []" using sd(2) by (auto simp: dev_ok_def)
  then show ?thesis unfolding call using c1' by (auto simp: unlink_handle_def)
qed

theorem close_returns_witness:
  "\<exists>c'. uvc_close (cam_close True) 1 (cam_opened cam_ctx) = Some (Returned UVC_SUCCESS c') \<and> cx_open_devices c' = []"
proof -
  have "cam_handle 1 \<in> set (cx_open_devices (cam_opened cam_ctx))" "dev_ok (dh_sd (cam_handle 1))"
    by (simp_all add: cam_opened_def cam_ctx_eq dev_ok_def cam_handle_def)
  from close_returns [OF cam_opened_reachable this, of "cam_close True"] cam_parts(3)
  obtain c' where c': "uvc_close (cam_close True) 1 (cam_opened cam_ctx) = Some (Returned UVC_SUCCESS c')"
    by (auto simp: cam_handle_def cam_close_def)
  moreover have "cx_open_devices c' = []"
    using close_open_devices(1) [OF c'] by (simp add: cam_opened_def cam_ctx_eq cam_handle_def)
  ultimately show ?thesis by blast
qed

end
