(* ===== verification/Status_Event.thy ===== *)
theory Status_Event
  imports Desc_Types
begin

text \<open>
  The status events of a device (device.c): decoding of a completed status transfer and the callbacks of
  the program.  When the transfer is processed at all is theory \<open>Status_Xfer\<close>.  Reading outside the
  buffer has no result.
\<close>

section \<open>State\<close>

text \<open>The four fields of the handle; function and user pointers are numbers, 0 is \<^verbatim>\<open>NULL\<close>.\<close>

record status_target =
  st_status_cb :: nat
  st_status_user_ptr :: nat
  st_button_cb :: nat
  st_button_user_ptr :: nat

datatype uvc_status_class = CONTROL | CONTROL_CAMERA | CONTROL_PROCESSING

text \<open>A call of a callback with its arguments: the function, then what it is given.\<close>

datatype callback_call =
    Status_call nat uvc_status_class int int u8 bytes nat
  | Button_call nat int int nat

definition uvc_set_status_callback :: "nat \<Rightarrow> nat \<Rightarrow> status_target \<Rightarrow> status_target" where
  "uvc_set_status_callback cb user_ptr h = h\<lparr> st_status_cb := cb, st_status_user_ptr := user_ptr \<rparr>"

definition uvc_set_button_callback :: "nat \<Rightarrow> nat \<Rightarrow> status_target \<Rightarrow> status_target" where
  "uvc_set_button_callback cb user_ptr h = h\<lparr> st_button_cb := cb, st_button_user_ptr := user_ptr \<rparr>"

section \<open>Events\<close>

definition find_entity :: "u8 \<Rightarrow> uvc_control_interface \<Rightarrow> uvc_status_class option" where
  "find_entity originator ci =
     (if \<exists>t \<in> set (ci_input_term_descs ci). it_bTerminalID t = originator then Some CONTROL_CAMERA
      else if \<exists>u \<in> set (ci_processing_unit_descs ci). pu_bUnitID u = originator then Some CONTROL_PROCESSING
      else None)"

definition uvc_process_control_status ::
  "status_target \<Rightarrow> uvc_control_interface \<Rightarrow> bytes \<Rightarrow> int \<Rightarrow> callback_call list option" where
  "uvc_process_control_status h ci data len =
     (if len < 5 then Some []
      else do {
        originator \<leftarrow> rd data 1;
        event \<leftarrow> rd data 2;
        selector \<leftarrow> rd data 3;
        if originator = 0 then Some []
        else if event \<noteq> 0 then Some []
        else case find_entity originator ci of
          None \<Rightarrow> Some []
        | Some status_class \<Rightarrow> do {
            attribute \<leftarrow> rd data 4;
            content \<leftarrow> rd_bytes data 5 (nat len - 5);
            if st_status_cb h = 0 then Some []
            else Some [Status_call (st_status_cb h) status_class (uint event) (uint selector) attribute content (st_status_user_ptr h)] } })"

definition uvc_process_streaming_status :: "status_target \<Rightarrow> bytes \<Rightarrow> int \<Rightarrow> callback_call list option" where
  "uvc_process_streaming_status h data len =
     (if len < 3 then Some []
      else do {
        event \<leftarrow> rd data 2;
        if event \<noteq> 0 then Some []
        else if len < 4 then Some []
        else if st_button_cb h = 0 then Some []
        else do {
          intf \<leftarrow> rd data 1;
          pressed \<leftarrow> rd data 3;
          Some [Button_call (st_button_cb h) (uint intf) (uint pressed) (st_button_user_ptr h)] } })"

definition uvc_process_status_xfer ::
  "status_target \<Rightarrow> uvc_control_interface \<Rightarrow> bytes \<Rightarrow> int \<Rightarrow> callback_call list option" where
  "uvc_process_status_xfer h ci buffer actual_length =
     (if actual_length > 0
      then do {
        b \<leftarrow> rd buffer 0;
        if b AND 0x0f = 1 then uvc_process_control_status h ci buffer actual_length
        else if b AND 0x0f = 2 then uvc_process_streaming_status h buffer actual_length
        else Some [] }
      else Some [])"

section \<open>What a status packet means\<close>

text \<open>
  The packets of the USB video class: the first byte says who reports, the second which entity, the third
  the kind of event.  An entity known as a terminal or a processing unit reports the change of a control
  (selector, what changed, the rest); an interface reports its button.
\<close>

datatype status_event = Control_change uvc_status_class u8 u8 bytes | Button u8 u8

fun decode_status :: "uvc_control_interface \<Rightarrow> bytes \<Rightarrow> status_event option" where
  "decode_status ci (kind # origin # event # rest) =
     (if event \<noteq> 0 then None
      else if kind AND 0x0f = 1
      then (case rest of
          selector # attribute # content \<Rightarrow>
            if origin = 0 then None else map_option (\<lambda>c. Control_change c selector attribute content) (find_entity origin ci)
        | _ \<Rightarrow> None)
      else if kind AND 0x0f = 2 then (case rest of state # _ \<Rightarrow> Some (Button origin state) | [] \<Rightarrow> None)
      else None)"
| "decode_status ci _ = None"

definition deliver :: "status_target \<Rightarrow> status_event option \<Rightarrow> callback_call list" where
  "deliver h e = (case e of
       Some (Control_change c selector attribute content) \<Rightarrow>
         if st_status_cb h = 0 then [] else [Status_call (st_status_cb h) c 0 (uint selector) attribute content (st_status_user_ptr h)]
     | Some (Button intf state) \<Rightarrow>
         if st_button_cb h = 0 then [] else [Button_call (st_button_cb h) (uint intf) (uint state) (st_button_user_ptr h)]
     | None \<Rightarrow> [])"

text \<open>A list of given length, opened up to its fifth element.\<close>

lemma open_list:
  obtains (nil) "xs = []" | (one) a where "xs = [a]" | (two) a b where "xs = [a, b]" | (three) a b c where "xs = [a, b, c]"
  | (four) a b c d where "xs = [a, b, c, d]" | (more) a b c d e ys where "xs = a # b # c # d # e # ys"
  by (metis neq_Nil_conv)

lemma rd_in_front: "i < length xs \<Longrightarrow> rd (xs @ ys) i = Some (xs ! i)"
  by (simp add: rd_def nth_append)

lemma process_front: "uvc_process_status_xfer h ci (xs @ ys) (int (length xs)) = Some (deliver h (decode_status ci xs))"
  by (cases xs rule: open_list)
    (auto simp: uvc_process_status_xfer_def uvc_process_control_status_def uvc_process_streaming_status_def deliver_def rd_bytes_def
      split: option.splits)

section \<open>Properties\<close>

text \<open>
  C27: processing a completed status transfer.  Whatever the device sends, and whatever an earlier transfer
  left behind it in the buffer, the bytes received alone decide; no other byte is read.  The program is
  called exactly for the events these bytes stand for, with the data of the event, and only through a
  callback that is set; everything else is dropped.
\<close>

theorem status_event_correct:
  assumes "nat actual_length \<le> length buffer"
  shows "uvc_process_status_xfer h ci buffer actual_length = Some (deliver h (decode_status ci (take (nat actual_length) buffer)))"
proof (cases "actual_length \<le> 0")
  case True
  then show ?thesis by (simp add: uvc_process_status_xfer_def deliver_def)
next
  case False
  let ?n = "nat actual_length"
  have "int (length (take ?n buffer)) = actual_length" using assms False by simp
  then show ?thesis using process_front [of h ci "take ?n buffer" "drop ?n buffer"] by simp
qed

text \<open>The terminal 1 of the sample reports a new value 7 of its control 9; the buffer is longer.\<close>

theorem status_event_correct_witness:
  "uvc_process_status_xfer (uvc_set_status_callback 100 200 \<lparr> st_status_cb = 0, st_status_user_ptr = 0, st_button_cb = 0, st_button_user_ptr = 0 \<rparr>)
     (ctrl_if0\<lparr> ci_input_term_descs := [\<lparr> it_bTerminalID = 1, it_wTerminalType = 0x201, it_wObjectiveFocalLengthMin = 0,
       it_wObjectiveFocalLengthMax = 0, it_wOcularFocalLength = 0, it_bmControls = 0 \<rparr>] \<rparr>)
     ([1, 1, 0, 9, 0, 7] @ replicate 26 255) 6 = Some [Status_call 100 CONTROL_CAMERA 0 9 0 [7] 200]"
  by (subst status_event_correct)
    (simp_all add: deliver_def find_entity_def uvc_set_status_callback_def ctrl_if0_def)

end
