(* ===== verification/Utlist.thy ===== *)
theory Utlist
  imports Uvc_Prelude
begin

text \<open>
  The doubly linked lists of utlist.h, on a heap of nodes: the macros the library uses to keep open
  devices, streams and descriptors.  Elsewhere in the development such a list is a HOL list; here the
  pointers are shown to represent it.  Address 0 is \<^verbatim>\<open>NULL\<close>; a read or write of a node that is not
  allocated has no result.
\<close>

section \<open>Nodes\<close>

record node =
  n_prev :: nat
  n_next :: nat

type_synonym node_heap = "nat \<Rightarrow> node option"

definition set_prev :: "nat \<Rightarrow> nat \<Rightarrow> node_heap \<Rightarrow> node_heap option" where
  "set_prev a p h = map_option (\<lambda>n. h(a \<mapsto> n\<lparr> n_prev := p \<rparr>)) (h a)"

definition set_next :: "nat \<Rightarrow> nat \<Rightarrow> node_heap \<Rightarrow> node_heap option" where
  "set_next a p h = map_option (\<lambda>n. h(a \<mapsto> n\<lparr> n_next := p \<rparr>)) (h a)"

abbreviation prev_of :: "node_heap \<Rightarrow> nat \<Rightarrow> nat option" where
  "prev_of h a \<equiv> map_option n_prev (h a)"

abbreviation next_of :: "node_heap \<Rightarrow> nat \<Rightarrow> nat option" where
  "next_of h a \<equiv> map_option n_next (h a)"

section \<open>The macros\<close>

text \<open>Each returns the new head and the heap.\<close>

definition DL_PREPEND :: "nat \<Rightarrow> nat \<Rightarrow> node_heap \<Rightarrow> (nat \<times> node_heap) option" where
  "DL_PREPEND head add h = do {
     h \<leftarrow> set_next add head h;
     h \<leftarrow> (if head \<noteq> 0 then do {
            p \<leftarrow> prev_of h head;
            h \<leftarrow> set_prev add p h;
            set_prev head add h }
          else set_prev add add h);
     Some (add, h) }"

definition DL_APPEND :: "nat \<Rightarrow> nat \<Rightarrow> node_heap \<Rightarrow> (nat \<times> node_heap) option" where
  "DL_APPEND head add h =
     (if head \<noteq> 0 then do {
        p \<leftarrow> prev_of h head;
        h \<leftarrow> set_prev add p h;
        p \<leftarrow> prev_of h head;
        h \<leftarrow> set_next p add h;
        h \<leftarrow> set_prev head add h;
        h \<leftarrow> set_next add 0 h;
        Some (head, h) }
      else do {
        h \<leftarrow> set_prev add add h;
        h \<leftarrow> set_next add 0 h;
        Some (add, h) })"

definition DL_DELETE :: "nat \<Rightarrow> nat \<Rightarrow> node_heap \<Rightarrow> (nat \<times> node_heap) option" where
  "DL_DELETE head del h = do {
     p \<leftarrow> prev_of h del;
     nx \<leftarrow> next_of h del;
     if p = del then Some (0, h)
     else if del = head then do { h \<leftarrow> set_prev nx p h; nx \<leftarrow> next_of h del; Some (nx, h) }
     else do {
       h \<leftarrow> set_next p nx h;
       nx \<leftarrow> next_of h del;
       p \<leftarrow> prev_of h del;
       h \<leftarrow> (if nx \<noteq> 0 then set_prev nx p h else set_prev head p h);
       Some (head, h) } }"

text \<open>
  The two loops with a body that changes the heap, and the collecting loop.  \<open>DL_FOREACH\<close> reads the next
  pointer after the body, \<open>DL_FOREACH_SAFE\<close> before it.  The state of the body is the head and the heap.
\<close>

partial_function (option) DL_FOREACH ::
  "(nat \<Rightarrow> nat \<times> node_heap \<Rightarrow> (nat \<times> node_heap) option) \<Rightarrow> nat \<Rightarrow> nat \<times> node_heap \<Rightarrow> (nat \<times> node_heap) option" where
  "DL_FOREACH body el s =
     (if el = 0 then Some s
      else do { s \<leftarrow> body el s; nx \<leftarrow> next_of (snd s) el; DL_FOREACH body nx s })"

partial_function (option) DL_FOREACH_SAFE ::
  "(nat \<Rightarrow> nat \<times> node_heap \<Rightarrow> (nat \<times> node_heap) option) \<Rightarrow> nat \<Rightarrow> nat \<times> node_heap \<Rightarrow> (nat \<times> node_heap) option" where
  "DL_FOREACH_SAFE body el s =
     (if el = 0 then Some s
      else do { tmp \<leftarrow> next_of (snd s) el; s \<leftarrow> body el s; DL_FOREACH_SAFE body tmp s })"

partial_function (option) dl_elements :: "node_heap \<Rightarrow> nat \<Rightarrow> nat list option" where
  "dl_elements h el = (if el = 0 then Some [] else do { nx \<leftarrow> next_of h el; xs \<leftarrow> dl_elements h nx; Some (el # xs) })"

text \<open>The body of every clean-up loop: unlink the element and free it.\<close>

definition delete_free :: "nat \<Rightarrow> nat \<times> node_heap \<Rightarrow> (nat \<times> node_heap) option" where
  "delete_free el s = do { (head, h) \<leftarrow> DL_DELETE (fst s) el (snd s); Some (head, h(el := None)) }"

section \<open>What they represent\<close>

definition hd_or :: "nat \<Rightarrow> nat list \<Rightarrow> nat" where
  "hd_or q xs = (if xs = [] then q else hd xs)"

definition last_or :: "nat \<Rightarrow> nat list \<Rightarrow> nat" where
  "last_or p xs = (if xs = [] then p else last xs)"

lemma hd_or_simps [simp]: "hd_or q [] = q" "hd_or q (x # xs) = x" "hd_or q (xs @ ys) = hd_or (hd_or q ys) xs"
  by (simp_all add: hd_or_def)

lemma last_or_simps [simp]: "last_or p [] = p" "last_or p (x # xs) = last_or x xs" "last_or p (xs @ ys) = last_or (last_or p xs) ys"
  by (simp_all add: last_or_def)

text \<open>A stretch of nodes, entered from \<open>p\<close> and left to \<open>q\<close>.\<close>

fun dl_seg :: "node_heap \<Rightarrow> nat \<Rightarrow> nat list \<Rightarrow> nat \<Rightarrow> bool" where
  "dl_seg h p [] q = True"
| "dl_seg h p (x # xs) q = (h x = Some \<lparr> n_prev = p, n_next = hd_or q xs \<rparr> \<and> dl_seg h x xs q)"

text \<open>A whole list: the head's \<^verbatim>\<open>prev\<close> is the last element, the last element's \<^verbatim>\<open>next\<close> is \<^verbatim>\<open>NULL\<close>.\<close>

definition dl_list :: "node_heap \<Rightarrow> nat \<Rightarrow> nat list \<Rightarrow> bool" where
  "dl_list h head xs = (distinct xs \<and> 0 \<notin> set xs \<and> head = hd_or 0 xs \<and> dl_seg h (last_or 0 xs) xs 0)"

lemma dl_seg_append [simp]:
  "dl_seg h p (xs @ ys) q \<longleftrightarrow> dl_seg h p xs (hd_or q ys) \<and> dl_seg h (last_or p xs) ys q"
  by (induction xs arbitrary: p) auto

lemma dl_seg_upd [simp]: "a \<notin> set xs \<Longrightarrow> dl_seg (h(a := n)) p xs q = dl_seg h p xs q"
  by (induction xs arbitrary: p) auto

lemma dl_seg_cong: "(\<And>a. a \<in> set xs \<Longrightarrow> h a = h' a) \<Longrightarrow> dl_seg h p xs q = dl_seg h' p xs q"
  by (induction xs arbitrary: p) auto

lemma list_ends:
  obtains (nil) "xs = []" | (one) x where "xs = [x]" | (more) x ys z where "xs = x # ys @ [z]"
  by (metis neq_Nil_conv rev_exhaust)

lemma append_list:
  assumes "dl_list h head xs" and "add \<noteq> 0" and "add \<notin> set xs" and "h add \<noteq> None"
  shows "\<exists>head' h'. DL_APPEND head add h = Some (head', h') \<and> dl_list h' head' (xs @ [add]) \<and>
    (\<forall>a. a \<notin> set (add # xs) \<longrightarrow> h' a = h a)"
  using assms by (cases xs rule: list_ends) (auto simp: dl_list_def DL_APPEND_def set_prev_def set_next_def)

lemma prepend_list:
  assumes "dl_list h head xs" and "add \<noteq> 0" and "add \<notin> set xs" and "h add \<noteq> None"
  shows "\<exists>head' h'. DL_PREPEND head add h = Some (head', h') \<and> dl_list h' head' (add # xs) \<and>
    (\<forall>a. a \<notin> set (add # xs) \<longrightarrow> h' a = h a)"
  using assms by (cases xs rule: list_ends) (auto simp: dl_list_def DL_PREPEND_def set_prev_def set_next_def)

lemma delete_head:
  assumes "dl_list h head (x # xs)"
  shows "\<exists>head' h'. DL_DELETE head x h = Some (head', h') \<and> dl_list h' head' xs \<and> (\<forall>a. a \<notin> set (x # xs) \<longrightarrow> h' a = h a)"
  using assms by (cases xs rule: list_ends) (auto simp: dl_list_def DL_DELETE_def set_prev_def set_next_def)

lemma delete_last:
  assumes "dl_list h head (xs @ [x])" and "xs \<noteq> []"
  shows "\<exists>head' h'. DL_DELETE head x h = Some (head', h') \<and> dl_list h' head' xs \<and> (\<forall>a. a \<notin> set (xs @ [x]) \<longrightarrow> h' a = h a)"
  using assms by (cases xs rule: list_ends) (auto simp: dl_list_def DL_DELETE_def set_prev_def set_next_def)

lemma delete_middle:
  assumes "dl_list h head (xs @ x # y # ys)" and "xs \<noteq> []"
  shows "\<exists>head' h'. DL_DELETE head x h = Some (head', h') \<and> dl_list h' head' (xs @ y # ys) \<and>
    (\<forall>a. a \<notin> set (xs @ x # y # ys) \<longrightarrow> h' a = h a)"
  using assms by (cases xs rule: list_ends) (auto simp: dl_list_def DL_DELETE_def set_prev_def set_next_def)

lemma delete_list:
  assumes "dl_list h head xs" and "x \<in> set xs"
  shows "\<exists>head' h'. DL_DELETE head x h = Some (head', h') \<and> dl_list h' head' (remove1 x xs) \<and> (\<forall>a. a \<notin> set xs \<longrightarrow> h' a = h a)"
proof -
  obtain us vs where s: "xs = us @ x # vs" "x \<notin> set us" using assms(2) by (meson split_list_first)
  have r: "remove1 x xs = us @ vs" using s by (simp add: remove1_append)
  show ?thesis
  proof (cases "us = []")
    case True
    then show ?thesis using assms(1) s r delete_head [of h head x vs] by simp
  next
    case False
    then show ?thesis using assms(1) s r delete_last [of h head us x] delete_middle [of h head us x] by (cases vs) auto
  qed
qed

lemma set_dom: "set_prev a p h = Some h' \<Longrightarrow> dom h' = dom h" "set_next a p h = Some h' \<Longrightarrow> dom h' = dom h"
  by (auto simp: set_prev_def set_next_def split: if_splits)

lemma append_dom: "DL_APPEND head add h = Some (head', h') \<Longrightarrow> dom h' = dom h"
  by (clarsimp simp: DL_APPEND_def bind_eq_Some_conv split: if_splits; metis set_dom)

lemma delete_dom: "DL_DELETE head x h = Some (head', h') \<Longrightarrow> dom h' = dom h"
  by (auto simp: DL_DELETE_def bind_eq_Some_conv set_prev_def set_next_def split: if_splits)

section \<open>Lists as an interface\<close>

text \<open>
  What the rest of the library relies on: adding at the end and removing an element, on any representation.
  \<open>avail\<close> says which elements may be added.
\<close>

datatype 'a list_op = Add 'a | Remove 'a

fun spec_ops :: "'a list_op list \<Rightarrow> 'a list \<Rightarrow> 'a list" where
  "spec_ops [] xs = xs"
| "spec_ops (Add a # ops) xs = spec_ops ops (xs @ [a])"
| "spec_ops (Remove a # ops) xs = spec_ops ops (filter (\<lambda>x. x \<noteq> a) xs)"

fun ops_ok :: "'a set \<Rightarrow> 'a list_op list \<Rightarrow> 'a list \<Rightarrow> bool" where
  "ops_ok A [] xs = True"
| "ops_ok A (Add a # ops) xs = (a \<in> A \<and> a \<notin> set xs \<and> ops_ok A ops (xs @ [a]))"
| "ops_ok A (Remove a # ops) xs = (a \<in> set xs \<and> ops_ok A ops (filter (\<lambda>x. x \<noteq> a) xs))"

fun run_ops :: "('a \<Rightarrow> 's \<Rightarrow> 's option) \<Rightarrow> ('a \<Rightarrow> 's \<Rightarrow> 's option) \<Rightarrow> 'a list_op list \<Rightarrow> 's \<Rightarrow> 's option" where
  "run_ops ins del [] s = Some s"
| "run_ops ins del (Add a # ops) s = Option.bind (ins a s) (run_ops ins del ops)"
| "run_ops ins del (Remove a # ops) s = Option.bind (del a s) (run_ops ins del ops)"

locale list_impl =
  fixes ins :: "'a \<Rightarrow> 's \<Rightarrow> 's option" and del :: "'a \<Rightarrow> 's \<Rightarrow> 's option"
    and avail :: "'s \<Rightarrow> 'a set" and rep :: "'s \<Rightarrow> 'a list \<Rightarrow> bool"
  assumes ins_rep: "rep s xs \<Longrightarrow> a \<in> avail s \<Longrightarrow> a \<notin> set xs \<Longrightarrow> \<exists>s'. ins a s = Some s' \<and> rep s' (xs @ [a])"
    and del_rep: "rep s xs \<Longrightarrow> a \<in> set xs \<Longrightarrow> \<exists>s'. del a s = Some s' \<and> rep s' (filter (\<lambda>x. x \<noteq> a) xs)"
    and ins_avail: "ins a s = Some s' \<Longrightarrow> avail s' = avail s"
    and del_avail: "del a s = Some s' \<Longrightarrow> avail s' = avail s"
begin

lemma run_refines:
  "rep s xs \<Longrightarrow> ops_ok (avail s) ops xs \<Longrightarrow> \<exists>s'. run_ops ins del ops s = Some s' \<and> rep s' (spec_ops ops xs)"
proof (induction ops arbitrary: s xs)
  case (Cons op ops)
  show ?case
  proof (cases op)
    case (Add a)
    then obtain s' where s': "ins a s = Some s'" "rep s' (xs @ [a])" using Cons.prems ins_rep by fastforce
    then show ?thesis using Cons Add ins_avail [OF s'(1)] by simp
  next
    case (Remove a)
    then obtain s' where s': "del a s = Some s'" "rep s' (filter (\<lambda>x. x \<noteq> a) xs)" using Cons.prems del_rep by fastforce
    then show ?thesis using Cons Remove del_avail [OF s'(1)] by simp
  qed
qed simp

end

lemma remove1_filter: "distinct xs \<Longrightarrow> remove1 a xs = filter (\<lambda>x. x \<noteq> a) xs"
  unfolding distinct_remove1_removeAll removeAll_filter_not_eq by (rule filter_cong) auto

abbreviation dl_append :: "nat \<Rightarrow> nat \<times> node_heap \<Rightarrow> (nat \<times> node_heap) option" where
  "dl_append a s \<equiv> DL_APPEND (fst s) a (snd s)"

abbreviation dl_delete :: "nat \<Rightarrow> nat \<times> node_heap \<Rightarrow> (nat \<times> node_heap) option" where
  "dl_delete a s \<equiv> DL_DELETE (fst s) a (snd s)"

interpretation dl: list_impl dl_append dl_delete "\<lambda>s. dom (snd s) - {0}" "\<lambda>s. dl_list (snd s) (fst s)"
proof
  fix s xs and a :: nat
  assume "dl_list (snd s) (fst s) xs" "a \<in> dom (snd s) - {0}" "a \<notin> set xs"
  then show "\<exists>s'. dl_append a s = Some s' \<and> dl_list (snd s') (fst s') (xs @ [a])" using append_list [of "snd s" "fst s" xs a] by auto
next
  fix s xs and a :: nat
  assume a: "dl_list (snd s) (fst s) xs" "a \<in> set xs"
  then have "remove1 a xs = filter (\<lambda>x. x \<noteq> a) xs" by (simp add: dl_list_def remove1_filter)
  then show "\<exists>s'. dl_delete a s = Some s' \<and> dl_list (snd s') (fst s') (filter (\<lambda>x. x \<noteq> a) xs)" using delete_list [OF a] by auto
next
  fix s s' and a :: nat
  assume "dl_append a s = Some s'"
  then show "dom (snd s') - {0} = dom (snd s) - {0}" using append_dom [of "fst s" a "snd s" "fst s'" "snd s'"] by simp
next
  fix s s' and a :: nat
  assume "dl_delete a s = Some s'"
  then show "dom (snd s') - {0} = dom (snd s) - {0}" using delete_dom [of "fst s" a "snd s" "fst s'" "snd s'"] by simp
qed

section \<open>Loops\<close>

lemma elements_seg: "dl_seg h p xs 0 \<Longrightarrow> 0 \<notin> set xs \<Longrightarrow> dl_elements h (hd_or 0 xs) = Some xs"
proof (induction xs arbitrary: p)
  case (Cons x xs)
  then have "dl_elements h (hd_or 0 xs) = Some xs" using Cons.IH [of x] by simp
  then show ?case using Cons.prems by (subst dl_elements.simps) simp
qed (simp add: dl_elements.simps)

lemma elements_list: "dl_list h head xs \<Longrightarrow> dl_elements h head = Some xs"
  by (auto simp: dl_list_def intro: elements_seg)

text \<open>The clean-up of a list with the safe loop frees every element and touches nothing else.\<close>

lemma delete_free_head:
  assumes "dl_list h head (x # xs)"
  obtains head' h' where "delete_free x (head, h) = Some (head', h')" "dl_list h' head' xs" "h' x = None"
    "\<forall>a. a \<notin> set (x # xs) \<longrightarrow> h' a = h a"
proof -
  obtain head' h1 where d: "DL_DELETE head x h = Some (head', h1)" "dl_list h1 head' xs" "\<forall>a. a \<notin> set (x # xs) \<longrightarrow> h1 a = h a"
    using delete_head [OF assms] by auto
  moreover have "x \<notin> set xs" using assms by (simp add: dl_list_def)
  ultimately show thesis by (intro that [of head' "h1(x := None)"]) (auto simp: delete_free_def dl_list_def)
qed

lemma cleanup:
  "dl_list h head xs \<Longrightarrow> DL_FOREACH_SAFE delete_free head (head, h) = Some (0, \<lambda>a. if a \<in> set xs then None else h a)"
proof (induction xs arbitrary: h head)
  case (Cons x xs)
  then obtain head' h' where d: "delete_free x (head, h) = Some (head', h')" "dl_list h' head' xs" "h' x = None"
    "\<forall>a. a \<notin> set (x # xs) \<longrightarrow> h' a = h a" by (elim delete_free_head)
  have x: "head = x" "x \<noteq> 0" "h x = Some \<lparr> n_prev = last_or 0 (x # xs), n_next = head' \<rparr>" using Cons.prems d(2) by (auto simp: dl_list_def)
  have "(\<lambda>a. if a \<in> set xs then None else h' a) = (\<lambda>a. if a \<in> set (x # xs) then None else h a)" using d(3,4) by auto
  then show ?case using Cons.IH [OF d(2)] d(1) x by (subst DL_FOREACH_SAFE.simps) simp
qed (auto simp: dl_list_def DL_FOREACH_SAFE.simps)

section \<open>Properties\<close>

text \<open>
  C9: the pointers represent a list.  Whatever nodes are appended and deleted, in any order, the macros
  never touch memory that is not allocated, and walking the pointers afterwards visits exactly the
  elements of the list obtained by adding at the end and removing.
\<close>

theorem dl_refines:
  assumes "dl_list h head xs" and "ops_ok (dom h - {0}) ops xs"
  shows "\<exists>head' h'. run_ops dl_append dl_delete ops (head, h) = Some (head', h') \<and> dl_list h' head' (spec_ops ops xs) \<and>
    dl_elements h' head' = Some (spec_ops ops xs)"
proof -
  from dl.run_refines [of "(head, h)" xs ops] assms obtain s where
    "run_ops dl_append dl_delete ops (head, h) = Some s" "dl_list (snd s) (fst s) (spec_ops ops xs)" by auto
  then show ?thesis by (cases s) (simp add: elements_list)
qed

theorem dl_refines_witness:
  "\<exists>head h. run_ops dl_append dl_delete [Add 3, Add 8, Add 5, Remove 3, Add 3, Remove 5] (0, \<lambda>_. Some \<lparr> n_prev = 9, n_next = 9 \<rparr>) = Some (head, h) \<and>
     dl_elements h head = Some [8, 3]"
proof -
  have "dl_list (\<lambda>_. Some \<lparr> n_prev = 9, n_next = 9 \<rparr>) 0 []" by (simp add: dl_list_def)
  moreover have "dom (\<lambda>_. Some \<lparr> n_prev = 9, n_next = 9 \<rparr>) = UNIV" by auto
  ultimately show ?thesis
    using dl_refines [of "\<lambda>_. Some \<lparr> n_prev = 9, n_next = 9 \<rparr>" 0 "[]" "[Add 3, Add 8, Add 5, Remove 3, Add 3, Remove 5]"] by auto
qed

text \<open>
  Freeing the elements of a list while walking it.  The safe loop ends with an empty list, every
  element freed and nothing else touched; the plain loop reads a freed node on every list that is not
  empty.
\<close>

lemma cleanup_loops:
  assumes "dl_list h head xs"
  shows "DL_FOREACH_SAFE delete_free head (head, h) = Some (0, \<lambda>a. if a \<in> set xs then None else h a) \<and>
    (DL_FOREACH delete_free head (head, h) = None \<longleftrightarrow> xs \<noteq> [])"
proof -
  have "DL_FOREACH delete_free head (head, h) = None" if xs: "xs = x # ys" for x ys
  proof -
    obtain head' h' where "delete_free x (head, h) = Some (head', h')" "h' x = None"
      using assms [unfolded xs] by (elim delete_free_head)
    moreover have "head = x" "x \<noteq> 0" using assms xs by (auto simp: dl_list_def)
    ultimately show ?thesis by (subst DL_FOREACH.simps) simp
  qed
  moreover have "DL_FOREACH delete_free head (head, h) = Some (head, h)" if "xs = []"
    using assms that by (simp add: dl_list_def DL_FOREACH.simps)
  ultimately show ?thesis using cleanup [OF assms] by (cases xs) auto
qed

lemma cleanup_loops_witness:
  "DL_FOREACH delete_free 4 (4, [4 \<mapsto> \<lparr> n_prev = 6, n_next = 6 \<rparr>, 6 \<mapsto> \<lparr> n_prev = 4, n_next = 0 \<rparr>]) = None \<and>
   map_option fst (DL_FOREACH_SAFE delete_free 4 (4, [4 \<mapsto> \<lparr> n_prev = 6, n_next = 6 \<rparr>, 6 \<mapsto> \<lparr> n_prev = 4, n_next = 0 \<rparr>])) = Some 0"
  using cleanup_loops [of "[4 \<mapsto> \<lparr> n_prev = 6, n_next = 6 \<rparr>, 6 \<mapsto> \<lparr> n_prev = 4, n_next = 0 \<rparr>]" 4 "[4, 6]"] by (simp add: dl_list_def)

end
