(* ===== verification/Mjpeg.thy ===== *)
theory Mjpeg
  imports Frame_Conv
begin

text \<open>
  Decoding of MJPEG frames (frame-mjpeg.c): the standard Huffman tables for streams that carry none, and
  the loop that lets libjpeg write one line after the other into the output frame.  libjpeg is a parameter.
  Its error exit, a \<^verbatim>\<open>longjmp\<close> to the failure path, is the answer \<^term>\<open>None\<close> of one of its functions; a read or
  write outside a buffer leaves the whole call without a result.
\<close>

section \<open>Huffman tables\<close>

text \<open>Number of codes for each length (entry 0 unused), and the values in order of their codes.\<close>

definition dc_lumi_len :: bytes where
  "dc_lumi_len =
     [0, 0, 1, 5, 1, 1, 1, 1, 1, 1, 0, 0, 0, 0, 0, 0, 0]"

definition dc_lumi_val :: bytes where
  "dc_lumi_val =
     [0, 1, 2, 3, 4, 5, 6, 7, 8, 9, 10, 11]"

definition dc_chromi_len :: bytes where
  "dc_chromi_len =
     [0, 0, 3, 1, 1, 1, 1, 1, 1, 1, 1, 1, 0, 0, 0, 0, 0]"

definition dc_chromi_val :: bytes where
  "dc_chromi_val =
     [0, 1, 2, 3, 4, 5, 6, 7, 8, 9, 10, 11]"

definition ac_lumi_len :: bytes where
  "ac_lumi_len =
     [0, 0, 2, 1, 3, 3, 2, 4, 3, 5, 5, 4, 4, 0, 0, 1, 125]"

definition ac_lumi_val :: bytes where
  "ac_lumi_val =
     [0x01, 0x02, 0x03, 0x00, 0x04, 0x11, 0x05, 0x12, 0x21, 0x31, 0x41, 0x06, 0x13, 0x51, 0x61, 0x07, 0x22, 0x71,
      0x14, 0x32, 0x81, 0x91, 0xa1, 0x08, 0x23, 0x42, 0xb1, 0xc1, 0x15, 0x52, 0xd1, 0xf0, 0x24, 0x33, 0x62, 0x72,
      0x82, 0x09, 0x0a, 0x16, 0x17, 0x18, 0x19, 0x1a, 0x25, 0x26, 0x27, 0x28, 0x29, 0x2a, 0x34, 0x35, 0x36, 0x37,
      0x38, 0x39, 0x3a, 0x43, 0x44, 0x45, 0x46, 0x47, 0x48, 0x49, 0x4a, 0x53, 0x54, 0x55, 0x56, 0x57, 0x58, 0x59,
      0x5a, 0x63, 0x64, 0x65, 0x66, 0x67, 0x68, 0x69, 0x6a, 0x73, 0x74, 0x75, 0x76, 0x77, 0x78, 0x79, 0x7a, 0x83,
      0x84, 0x85, 0x86, 0x87, 0x88, 0x89, 0x8a, 0x92, 0x93, 0x94, 0x95, 0x96, 0x97, 0x98, 0x99, 0x9a, 0xa2, 0xa3,
      0xa4, 0xa5, 0xa6, 0xa7, 0xa8, 0xa9, 0xaa, 0xb2, 0xb3, 0xb4, 0xb5, 0xb6, 0xb7, 0xb8, 0xb9, 0xba, 0xc2, 0xc3,
      0xc4, 0xc5, 0xc6, 0xc7, 0xc8, 0xc9, 0xca, 0xd2, 0xd3, 0xd4, 0xd5, 0xd6, 0xd7, 0xd8, 0xd9, 0xda, 0xe1, 0xe2,
      0xe3, 0xe4, 0xe5, 0xe6, 0xe7, 0xe8, 0xe9, 0xea, 0xf1, 0xf2, 0xf3, 0xf4, 0xf5, 0xf6, 0xf7, 0xf8, 0xf9, 0xfa]"

definition ac_chromi_len :: bytes where
  "ac_chromi_len =
     [0, 0, 2, 1, 2, 4, 4, 3, 4, 7, 5, 4, 4, 0, 1, 2, 119]"

definition ac_chromi_val :: bytes where
  "ac_chromi_val =
     [0x00, 0x01, 0x02, 0x03, 0x11, 0x04, 0x05, 0x21, 0x31, 0x06, 0x12, 0x41, 0x51, 0x07, 0x61, 0x71, 0x13, 0x22,
      0x32, 0x81, 0x08, 0x14, 0x42, 0x91, 0xa1, 0xb1, 0xc1, 0x09, 0x23, 0x33, 0x52, 0xf0, 0x15, 0x62, 0x72, 0xd1,
      0x0a, 0x16, 0x24, 0x34, 0xe1, 0x25, 0xf1, 0x17, 0x18, 0x19, 0x1a, 0x26, 0x27, 0x28, 0x29, 0x2a, 0x35, 0x36,
      0x37, 0x38, 0x39, 0x3a, 0x43, 0x44, 0x45, 0x46, 0x47, 0x48, 0x49, 0x4a, 0x53, 0x54, 0x55, 0x56, 0x57, 0x58,
      0x59, 0x5a, 0x63, 0x64, 0x65, 0x66, 0x67, 0x68, 0x69, 0x6a, 0x73, 0x74, 0x75, 0x76, 0x77, 0x78, 0x79, 0x7a,
      0x82, 0x83, 0x84, 0x85, 0x86, 0x87, 0x88, 0x89, 0x8a, 0x92, 0x93, 0x94, 0x95, 0x96, 0x97, 0x98, 0x99, 0x9a,
      0xa2, 0xa3, 0xa4, 0xa5, 0xa6, 0xa7, 0xa8, 0xa9, 0xaa, 0xb2, 0xb3, 0xb4, 0xb5, 0xb6, 0xb7, 0xb8, 0xb9, 0xba,
      0xc2, 0xc3, 0xc4, 0xc5, 0xc6, 0xc7, 0xc8, 0xc9, 0xca, 0xd2, 0xd3, 0xd4, 0xd5, 0xd6, 0xd7, 0xd8, 0xd9, 0xda,
      0xe2, 0xe3, 0xe4, 0xe5, 0xe6, 0xe7, 0xe8, 0xe9, 0xea, 0xf2, 0xf3, 0xf4, 0xf5, 0xf6, 0xf7, 0xf8, 0xf9, 0xfa]"

record huff_tbl =
  ht_bits :: bytes
  ht_huffval :: bytes

text \<open>\<open>dinfo\<close>: what the header of the stream has set.\<close>

record jpeg_decompress =
  jd_dc_huff_tbl_ptrs :: "huff_tbl option list"
  jd_ac_huff_tbl_ptrs :: "huff_tbl option list"

datatype color_space = JCS_RGB | JCS_GRAYSCALE

text \<open>
  libjpeg: a new table with any content, the header of a stream, the output size after
  \<^verbatim>\<open>jpeg_start_decompress\<close> as width and height, one line of the image, and whether
  \<^verbatim>\<open>jpeg_finish_decompress\<close> returned.  The source is in memory, so a line is never delayed.
\<close>

record libjpeg =
  jp_alloc_huff_table :: huff_tbl
  jp_read_header :: "bytes \<Rightarrow> jpeg_decompress option"
  jp_start_decompress :: "bytes \<Rightarrow> jpeg_decompress \<Rightarrow> color_space \<Rightarrow> (nat \<times> nat) option"
  jp_read_scanline :: "bytes \<Rightarrow> jpeg_decompress \<Rightarrow> color_space \<Rightarrow> nat \<Rightarrow> bytes option"
  jp_finish_decompress :: "bytes \<Rightarrow> jpeg_decompress \<Rightarrow> color_space \<Rightarrow> bool"

definition COPY_HUFF_TABLE :: "huff_tbl \<Rightarrow> huff_tbl option \<Rightarrow> bytes \<Rightarrow> bytes \<Rightarrow> huff_tbl option" where
  "COPY_HUFF_TABLE fresh tbl len val = do {
     let t = (case tbl of None \<Rightarrow> fresh | Some t \<Rightarrow> t);
     bits \<leftarrow> mem_put (ht_bits t) 0 len;
     huffval \<leftarrow> mem_put (replicate (length (ht_huffval t)) 0) 0 val;
     Some \<lparr> ht_bits = bits, ht_huffval = huffval \<rparr> }"

definition insert_huff_tables :: "libjpeg \<Rightarrow> jpeg_decompress \<Rightarrow> jpeg_decompress option" where
  "insert_huff_tables J d = do {
     t \<leftarrow> rd (jd_dc_huff_tbl_ptrs d) 0;
     t \<leftarrow> COPY_HUFF_TABLE (jp_alloc_huff_table J) t dc_lumi_len dc_lumi_val;
     let d = d\<lparr> jd_dc_huff_tbl_ptrs := (jd_dc_huff_tbl_ptrs d)[0 := Some t] \<rparr>;
     t \<leftarrow> rd (jd_dc_huff_tbl_ptrs d) 1;
     t \<leftarrow> COPY_HUFF_TABLE (jp_alloc_huff_table J) t dc_chromi_len dc_chromi_val;
     let d = d\<lparr> jd_dc_huff_tbl_ptrs := (jd_dc_huff_tbl_ptrs d)[1 := Some t] \<rparr>;
     t \<leftarrow> rd (jd_ac_huff_tbl_ptrs d) 0;
     t \<leftarrow> COPY_HUFF_TABLE (jp_alloc_huff_table J) t ac_lumi_len ac_lumi_val;
     let d = d\<lparr> jd_ac_huff_tbl_ptrs := (jd_ac_huff_tbl_ptrs d)[0 := Some t] \<rparr>;
     t \<leftarrow> rd (jd_ac_huff_tbl_ptrs d) 1;
     t \<leftarrow> COPY_HUFF_TABLE (jp_alloc_huff_table J) t ac_chromi_len ac_chromi_val;
     Some (d\<lparr> jd_ac_huff_tbl_ptrs := (jd_ac_huff_tbl_ptrs d)[1 := Some t] \<rparr>) }"

text \<open>A stream without tables gets the standard ones.\<close>

definition fill_huff_tables :: "libjpeg \<Rightarrow> jpeg_decompress \<Rightarrow> jpeg_decompress option" where
  "fill_huff_tables J d = do {
     t \<leftarrow> rd (jd_dc_huff_tbl_ptrs d) 0;
     if t = None then insert_huff_tables J d else Some d }"

section \<open>Decoding\<close>

text \<open>
  The loop over the lines, \<open>k\<close> left of \<open>height\<close>; the result says whether libjpeg took its error exit, and
  holds the buffer as it was left.
\<close>

fun read_scanlines :: "(nat \<Rightarrow> bytes option) \<Rightarrow> nat \<Rightarrow> nat \<Rightarrow> nat \<Rightarrow> bytes \<Rightarrow> (bool \<times> bytes) option" where
  "read_scanlines line step height 0 buf = Some (True, buf)"
| "read_scanlines line step height (Suc k) buf =
     (let lines_read = height - Suc k in
      case line lines_read of
        None \<Rightarrow> Some (False, buf)
      | Some row \<Rightarrow> do { buf \<leftarrow> mem_put buf (lines_read * step) row; read_scanlines line step height k buf })"

definition uvc_mjpeg_convert :: "libjpeg \<Rightarrow> uvc_frame \<Rightarrow> uvc_frame \<Rightarrow> (int \<times> uvc_frame) option" where
  "uvc_mjpeg_convert J in' out = do {
     src \<leftarrow> rd_bytes (mem_of (f_data in')) 0 (f_data_bytes in');
     case jp_read_header J src of
       None \<Rightarrow> Some (UVC_ERROR_OTHER, out)
     | Some d \<Rightarrow> do {
         d \<leftarrow> fill_huff_tables J d;
         case (if f_frame_format out = FORMAT_RGB then Some JCS_RGB
               else if f_frame_format out = FORMAT_GRAY8 then Some JCS_GRAYSCALE else None) of
           None \<Rightarrow> Some (UVC_ERROR_OTHER, out)
         | Some cs \<Rightarrow>
             (case jp_start_decompress J src d cs of
                None \<Rightarrow> Some (UVC_ERROR_OTHER, out)
              | Some (width, height) \<Rightarrow> do {
                  (ok, buf) \<leftarrow> read_scanlines (jp_read_scanline J src d cs) (f_step out) height height (mem_of (f_data out));
                  let out = out\<lparr> f_data := map_option (\<lambda>_. buf) (f_data out) \<rparr>;
                  Some (if ok \<and> jp_finish_decompress J src d cs then 0 else UVC_ERROR_OTHER, out) }) } }"

text \<open>The two entry points differ in the target format and its bytes per pixel.\<close>

definition mjpeg_to :: "uvc_frame_format \<Rightarrow> u32 \<Rightarrow> libjpeg \<Rightarrow> allocator \<Rightarrow> uvc_frame \<Rightarrow> uvc_frame \<Rightarrow> (int \<times> uvc_frame) option" where
  "mjpeg_to dst bpp J al in' out =
     (if f_frame_format in' \<noteq> FORMAT_MJPEG then Some (UVC_ERROR_INVALID_PARAM, out)
      else let (r, out) = uvc_ensure_frame_size al out (unat (f_width in' * f_height in' * bpp)) in
        if r < 0 then Some (UVC_ERROR_NO_MEM, out)
        else uvc_mjpeg_convert J in' (out\<lparr> f_width := f_width in', f_height := f_height in', f_frame_format := dst,
               f_step := unat (f_width in' * bpp), f_sequence := f_sequence in', f_capture_time := f_capture_time in',
               f_capture_time_finished := f_capture_time_finished in', f_source := f_source in' \<rparr>))"

definition uvc_mjpeg2rgb :: "libjpeg \<Rightarrow> allocator \<Rightarrow> uvc_frame \<Rightarrow> uvc_frame \<Rightarrow> (int \<times> uvc_frame) option" where
  "uvc_mjpeg2rgb = mjpeg_to FORMAT_RGB 3"

definition uvc_mjpeg2gray :: "libjpeg \<Rightarrow> allocator \<Rightarrow> uvc_frame \<Rightarrow> uvc_frame \<Rightarrow> (int \<times> uvc_frame) option" where
  "uvc_mjpeg2gray = mjpeg_to FORMAT_GRAY8 1"

section \<open>Tables\<close>

text \<open>
  A table libjpeg can build a decoder from: as many values as codes, no value twice, and the codes of all
  lengths leave at least the code of sixteen ones free.
\<close>

definition kraft :: "bytes \<Rightarrow> nat" where
  "kraft len = (\<Sum>i \<leftarrow> [1..<17]. unat (len ! i) * 2 ^ (16 - i))"

definition huff_spec_ok :: "bytes \<Rightarrow> bytes \<Rightarrow> bool" where
  "huff_spec_ok len val = (length len = 17 \<and> len ! 0 = 0 \<and> sum_list (map unat len) = length val \<and> length val \<le> 256 \<and>
     distinct val \<and> kraft len < 2 ^ 16)"

lemma distinct_vals: "distinct dc_lumi_val" "distinct dc_chromi_val" "distinct ac_lumi_val" "distinct ac_chromi_val"
  by (simp_all add: dc_lumi_val_def dc_chromi_val_def ac_lumi_val_def ac_chromi_val_def)

lemma table_lengths:
  "length dc_lumi_len = 17" "length dc_chromi_len = 17" "length ac_lumi_len = 17" "length ac_chromi_len = 17"
  "length dc_lumi_val = 12" "length dc_chromi_val = 12" "length ac_lumi_val = 162" "length ac_chromi_val = 162"
  by (simp_all add: dc_lumi_len_def dc_chromi_len_def ac_lumi_len_def ac_chromi_len_def
      dc_lumi_val_def dc_chromi_val_def ac_lumi_val_def ac_chromi_val_def)

lemma standard_specs:
  "huff_spec_ok dc_lumi_len dc_lumi_val" "huff_spec_ok dc_chromi_len dc_chromi_val"
  "huff_spec_ok ac_lumi_len ac_lumi_val" "huff_spec_ok ac_chromi_len ac_chromi_val"
  by (simp_all add: huff_spec_ok_def distinct_vals table_lengths kraft_def upt_rec)
    (simp_all add: dc_lumi_len_def dc_chromi_len_def ac_lumi_len_def ac_chromi_len_def)

text \<open>What libjpeg documents: tables have 17 counts and 256 values, there are four of each kind, a line has the width of the image.\<close>

definition huff_tbl_ok :: "huff_tbl \<Rightarrow> bool" where
  "huff_tbl_ok t = (length (ht_bits t) = 17 \<and> length (ht_huffval t) = 256)"

definition dinfo_ok :: "jpeg_decompress \<Rightarrow> bool" where
  "dinfo_ok d = (length (jd_dc_huff_tbl_ptrs d) = 4 \<and> length (jd_ac_huff_tbl_ptrs d) = 4 \<and>
     (\<forall>t. Some t \<in> set (jd_dc_huff_tbl_ptrs d @ jd_ac_huff_tbl_ptrs d) \<longrightarrow> huff_tbl_ok t))"

fun components :: "color_space \<Rightarrow> nat" where
  "components JCS_RGB = 3"
| "components JCS_GRAYSCALE = 1"

definition libjpeg_ok :: "libjpeg \<Rightarrow> bool" where
  "libjpeg_ok J = (huff_tbl_ok (jp_alloc_huff_table J) \<and> (\<forall>src d. jp_read_header J src = Some d \<longrightarrow> dinfo_ok d) \<and>
     (\<forall>src d cs w h n row. jp_start_decompress J src d cs = Some (w, h) \<longrightarrow> jp_read_scanline J src d cs n = Some row \<longrightarrow>
        length row = w * components cs))"

lemma line_length:
  "libjpeg_ok J \<Longrightarrow> jp_start_decompress J src d cs = Some (w, h) \<Longrightarrow> jp_read_scanline J src d cs n = Some row \<Longrightarrow>
   length row = w * components cs"
  unfolding libjpeg_ok_def by blast

text \<open>The table a specification gives.\<close>

definition table_of :: "bytes \<Rightarrow> bytes \<Rightarrow> huff_tbl" where
  "table_of len val = \<lparr> ht_bits = len, ht_huffval = val @ replicate (256 - length val) 0 \<rparr>"

lemma copy_huff_table:
  assumes "huff_tbl_ok fresh" and "\<forall>t. tbl = Some t \<longrightarrow> huff_tbl_ok t" and "length len = 17" and "length val \<le> 256"
  shows "COPY_HUFF_TABLE fresh tbl len val = Some (table_of len val)"
  using assms by (auto simp: COPY_HUFF_TABLE_def mem_put_def table_of_def huff_tbl_ok_def Let_def split: option.splits)

lemma insert_huff_tables_eq:
  assumes "huff_tbl_ok (jp_alloc_huff_table J)" and "dinfo_ok d"
  shows "insert_huff_tables J d = Some (d\<lparr>
    jd_dc_huff_tbl_ptrs := (jd_dc_huff_tbl_ptrs d)[0 := Some (table_of dc_lumi_len dc_lumi_val), 1 := Some (table_of dc_chromi_len dc_chromi_val)],
    jd_ac_huff_tbl_ptrs := (jd_ac_huff_tbl_ptrs d)[0 := Some (table_of ac_lumi_len ac_lumi_val), 1 := Some (table_of ac_chromi_len ac_chromi_val)] \<rparr>)"
proof -
  obtain a0 a1 a2 a3 b0 b1 b2 b3 where "jd_dc_huff_tbl_ptrs d = [a0, a1, a2, a3]" "jd_ac_huff_tbl_ptrs d = [b0, b1, b2, b3]"
    using assms(2) by (auto simp: dinfo_ok_def length_Suc_conv eval_nat_numeral)
  then show ?thesis using assms by (simp add: insert_huff_tables_def dinfo_ok_def copy_huff_table table_lengths Let_def)
qed

lemma fill_huff_tables_defined:
  assumes "libjpeg_ok J" and "jp_read_header J src = Some d"
  shows "\<exists>d'. fill_huff_tables J d = Some d'"
  using assms insert_huff_tables_eq [of J d] by (auto simp: libjpeg_ok_def dinfo_ok_def fill_huff_tables_def rd_def)

section \<open>Lines\<close>

lemma read_scanlines_fault:
  assumes "\<And>n row. line n = Some row \<Longrightarrow> length row = rl" and "k \<le> height"
  shows "read_scanlines line step height k buf = None \<longleftrightarrow>
    (\<exists>n. height - k \<le> n \<and> n < height \<and> (\<forall>m. height - k \<le> m \<longrightarrow> m \<le> n \<longrightarrow> line m \<noteq> None) \<and> length buf < n * step + rl)"
  using assms(2)
proof (induction k arbitrary: buf)
  case (Suc k)
  let ?l = "height - Suc k"
  have l: "height - k = Suc ?l" using Suc.prems by simp
  show ?case
  proof (cases "line ?l")
    case None
    then show ?thesis by auto
  next
    case (Some row)
    show ?thesis
    proof (cases "mem_put buf (?l * step) row")
      case None
      then have "length buf < ?l * step + rl" using assms(1) [OF Some] by (auto simp: mem_put_def split: if_splits)
      then show ?thesis using None Some Suc.prems by (auto simp: Let_def intro!: exI [of _ ?l] dest: le_antisym)
    next
      case P: (Some buf')
      then have fits: "?l * step + rl \<le> length buf" using assms(1) [OF Some] by (auto simp: mem_put_def split: if_splits)
      have all: "(\<forall>m. ?l \<le> m \<longrightarrow> m \<le> n \<longrightarrow> line m \<noteq> None) \<longleftrightarrow> (\<forall>m. Suc ?l \<le> m \<longrightarrow> m \<le> n \<longrightarrow> line m \<noteq> None)" for n
        using Some by (metis Suc_leI le_neq_implies_less option.distinct(1) Suc_leD)
      have "read_scanlines line step height (Suc k) buf = None \<longleftrightarrow>
          (\<exists>n. Suc ?l \<le> n \<and> n < height \<and> (\<forall>m. Suc ?l \<le> m \<longrightarrow> m \<le> n \<longrightarrow> line m \<noteq> None) \<and> length buf < n * step + rl)"
        using Suc P Some mem_put_length [OF P] by (simp add: l Let_def)
      also have "\<dots> \<longleftrightarrow> (\<exists>n. ?l \<le> n \<and> n < height \<and> (\<forall>m. ?l \<le> m \<longrightarrow> m \<le> n \<longrightarrow> line m \<noteq> None) \<and> length buf < n * step + rl)"
        unfolding all using fits by (metis Suc_leD Suc_leI le_neq_implies_less not_le)
      finally show ?thesis .
    qed
  qed
qed simp

lemma read_scanlines_rows:
  assumes "\<And>n. n < height \<Longrightarrow> line n = Some (row n) \<and> length (row n) = step" and "height * step \<le> length buf" and "k \<le> height"
  shows "read_scanlines line step height k buf =
    Some (True, take ((height - k) * step) buf @ concat (map row [height - k..<height]) @ drop (height * step) buf)"
  using assms(2,3)
proof (induction k arbitrary: buf)
  case (Suc k)
  let ?l = "height - Suc k"
  have l: "height - k = Suc ?l" "?l < height" using Suc.prems by simp_all
  have le: "?l * step + step \<le> height * step" using l(2) by (metis Suc_leI add.commute mult_Suc mult_le_mono1)
  let ?buf = "take (?l * step) buf @ row ?l @ drop (?l * step + step) buf"
  have p: "mem_put buf (?l * step) (row ?l) = Some ?buf" using assms(1) [OF l(2)] Suc.prems le by (simp add: mem_put_def)
  have len: "length (row ?l) = step" using assms(1) [OF l(2)] by simp
  have "length ?buf = length buf" using p mem_put_length by blast
  then have "read_scanlines line step height k ?buf =
      Some (True, take ((height - k) * step) ?buf @ concat (map row [height - k..<height]) @ drop (height * step) ?buf)"
    using Suc by simp
  moreover have "take ((height - k) * step) ?buf = take (?l * step) buf @ row ?l" using Suc.prems le len by (simp add: l)
  moreover have "drop (height * step) ?buf = drop (height * step) buf" using Suc.prems le len by simp
  moreover have "[?l..<height] = ?l # [height - k..<height]" using l by (simp add: upt_rec)
  ultimately show ?case using assms(1) [OF l(2)] p by (simp add: Let_def)
qed simp

section \<open>Properties\<close>

definition mjpeg_converters ::
  "((libjpeg \<Rightarrow> allocator \<Rightarrow> uvc_frame \<Rightarrow> uvc_frame \<Rightarrow> (int \<times> uvc_frame) option) \<times> uvc_frame_format \<times> u32 \<times> color_space) list" where
  "mjpeg_converters = [(uvc_mjpeg2rgb, FORMAT_RGB, 3, JCS_RGB), (uvc_mjpeg2gray, FORMAT_GRAY8, 1, JCS_GRAYSCALE)]"

lemma mjpeg_converter_eq:
  assumes "(conv, dst, bpp, cs) \<in> set mjpeg_converters"
  shows "conv = mjpeg_to dst bpp" and "unat bpp = components cs"
    and "(if dst = FORMAT_RGB then Some JCS_RGB else if dst = FORMAT_GRAY8 then Some JCS_GRAYSCALE else None) = Some cs"
  using assms by (auto simp: mjpeg_converters_def uvc_mjpeg2rgb_def uvc_mjpeg2gray_def)

text \<open>A conversion once libjpeg has read the header: the lines go into the buffer.\<close>

lemma mjpeg_runs:
  assumes "(conv, dst, bpp, cs) \<in> set mjpeg_converters" and "f_frame_format in' = FORMAT_MJPEG"
    and "uvc_ensure_frame_size al out (unat (f_width in' * f_height in' * bpp)) = (UVC_SUCCESS, sized)"
    and "f_data_bytes in' \<le> length (mem_of (f_data in'))" and "src = take (f_data_bytes in') (mem_of (f_data in'))"
    and "jp_read_header J src = Some d0" and "fill_huff_tables J d0 = Some d"
    and "jp_start_decompress J src d cs = Some (w, h)"
    and "step = unat (f_width in' * bpp)"
  shows "conv J al in' out = do {
      (ok, buf) \<leftarrow> read_scanlines (jp_read_scanline J src d cs) step h h (mem_of (f_data sized));
      Some (if ok \<and> jp_finish_decompress J src d cs then UVC_SUCCESS else UVC_ERROR_OTHER,
        sized\<lparr> f_width := f_width in', f_height := f_height in', f_frame_format := dst, f_step := step, f_sequence := f_sequence in',
          f_capture_time := f_capture_time in', f_capture_time_finished := f_capture_time_finished in', f_source := f_source in',
          f_data := map_option (\<lambda>_. buf) (f_data sized) \<rparr>) }"
proof -
  have "rd_bytes (mem_of (f_data in')) 0 (f_data_bytes in') = Some src" using assms(4,5) by (simp add: rd_bytes_def)
  moreover have "dst = FORMAT_RGB \<and> cs = JCS_RGB \<or> dst = FORMAT_GRAY8 \<and> cs = JCS_GRAYSCALE"
    using assms(1) by (auto simp: mjpeg_converters_def)
  ultimately show ?thesis
    using assms(2,3,6-9) mjpeg_converter_eq(1) [OF assms(1)]
    by (elim disjE conjE) (simp_all add: mjpeg_to_def uvc_mjpeg_convert_def Let_def)
qed

text \<open>
  C26: when decoding an MJPEG frame leaves its buffer.  The output buffer is sized for the width and height
  of the frame, the lines have the width and the number the stream itself states; nothing compares the
  two.  The call is undefined exactly when some line that libjpeg delivers ends past the buffer.
\<close>

theorem mjpeg_fault_iff:
  assumes "(conv, dst, bpp, cs) \<in> set mjpeg_converters" and "libjpeg_ok J" and "f_frame_format in' = FORMAT_MJPEG"
    and "uvc_ensure_frame_size al out (unat (f_width in' * f_height in' * bpp)) = (UVC_SUCCESS, sized)"
    and "f_data_bytes in' \<le> length (mem_of (f_data in'))" and "src = take (f_data_bytes in') (mem_of (f_data in'))"
    and "jp_read_header J src = Some d0" and "fill_huff_tables J d0 = Some d" and "jp_start_decompress J src d cs = Some (w, h)"
  shows "conv J al in' out = None \<longleftrightarrow>
    (\<exists>n < h. (\<forall>m \<le> n. jp_read_scanline J src d cs m \<noteq> None) \<and>
       length (mem_of (f_data sized)) < n * unat (f_width in' * bpp) + w * components cs)"
proof -
  have fault: "read_scanlines (jp_read_scanline J src d cs) step h h buf = None \<longleftrightarrow>
      (\<exists>n < h. (\<forall>m \<le> n. jp_read_scanline J src d cs m \<noteq> None) \<and> length buf < n * step + w * components cs)" for step buf
    using read_scanlines_fault [where line = "jp_read_scanline J src d cs" and height = h and k = h and rl = "w * components cs"]
      line_length [OF assms(2,9)] by auto
  show ?thesis
    unfolding mjpeg_runs [OF assms(1,3-9) refl]
    using fault by (auto simp: Option.bind_eq_None_conv split: prod.splits)
qed

text \<open>
  Decoding an MJPEG frame.  When the stream has the size the frame states, the output frame is owned by
  the library and libjpeg delivers every line, the conversion succeeds: the image is the lines in order,
  the description is that of the source in the target format.
\<close>

lemma mjpeg_correct:
  assumes "(conv, dst, bpp, cs) \<in> set mjpeg_converters" and "libjpeg_ok J" and "alloc_ok al" and "frame_wf out"
    and "f_frame_format in' = FORMAT_MJPEG"
    and "uvc_ensure_frame_size al out (unat (f_width in' * f_height in' * bpp)) = (UVC_SUCCESS, sized)"
    and "f_data_bytes in' \<le> length (mem_of (f_data in'))" and "src = take (f_data_bytes in') (mem_of (f_data in'))"
    and "jp_read_header J src = Some d0" and "fill_huff_tables J d0 = Some d"
    and "jp_start_decompress J src d cs = Some (unat (f_width in'), unat (f_height in'))"
    and "unat (f_width in') * unat (f_height in') * unat bpp < 2 ^ 32"
    and "\<forall>n < unat (f_height in'). jp_read_scanline J src d cs n = Some (row n)" and "jp_finish_decompress J src d cs"
  shows "\<exists>out'. conv J al in' out = Some (UVC_SUCCESS, out') \<and> f_width out' = f_width in' \<and> f_height out' = f_height in' \<and>
    f_frame_format out' = dst \<and> f_sequence out' = f_sequence in' \<and>
    take (unat (f_width in') * unat (f_height in') * components cs) (mem_of (f_data out')) = concat (map row [0..<unat (f_height in')]) \<and>
    length (mem_of (f_data out')) = length (mem_of (f_data sized))"
proof -
  let ?h = "unat (f_height in')" let ?w = "unat (f_width in')" let ?c = "components cs" let ?step = "unat (f_width in' * bpp)"
  note c = mjpeg_converter_eq(2) [OF assms(1)]
  have size: "unat (f_width in' * f_height in' * bpp) = ?w * ?h * ?c"
    using unat_product [of "f_width in'" "f_height in'" bpp] assms(12) c by simp
  have room: "?h * (?w * ?c) \<le> length (mem_of (f_data sized))" and some: "f_data sized \<noteq> None"
    using ensure_frame_size_ok [OF assms(3,4,6)] size by (auto simp: frame_wf_def algebra_simps)
  have row: "jp_read_scanline J src d cs n = Some (row n) \<and> length (row n) = ?w * ?c" if "n < ?h" for n
    using line_length [OF assms(2,11)] assms(13) that by blast
  have step: "?h = 0 \<or> ?step = ?w * ?c"
  proof -
    have "?w * ?c < 2 ^ 32" if "?h \<noteq> 0"
      using assms(12) c that by (metis (no_types, lifting) One_nat_def Suc_leI le_less_trans mult.commute mult.left_commute mult_le_mono1 nat_mult_1 neq0_conv)
    then show ?thesis using c by (cases "?h = 0") (simp_all add: unat_word_ariths)
  qed
  have "read_scanlines (jp_read_scanline J src d cs) ?step ?h ?h (mem_of (f_data sized)) =
      Some (True, concat (map row [0..<?h]) @ drop (?h * (?w * ?c)) (mem_of (f_data sized)))"
    using step read_scanlines_rows [OF row room le_refl] by auto
  moreover have len: "length (concat (map row [0..<?h])) = ?h * (?w * ?c)"
  proof -
    have "map length (map row [0..<?h]) = replicate ?h (?w * ?c)" using row by (auto intro: nth_equalityI)
    then show ?thesis by (simp add: length_concat sum_list_replicate del: map_map)
  qed
  ultimately show ?thesis
    unfolding mjpeg_runs [OF assms(1,5-11) refl] using assms(14) some room by (auto simp: mem_of_def algebra_simps)
qed

text \<open>
  A stand-in for libjpeg: the stream is width, height and one byte per pixel, and has no tables.
\<close>

definition raw_jpeg :: libjpeg where
  "raw_jpeg = \<lparr> jp_alloc_huff_table = \<lparr> ht_bits = replicate 17 9, ht_huffval = replicate 256 9 \<rparr>,
     jp_read_header = (\<lambda>src. if length src < 2 then None
       else Some \<lparr> jd_dc_huff_tbl_ptrs = replicate 4 None, jd_ac_huff_tbl_ptrs = replicate 4 None \<rparr>),
     jp_start_decompress = (\<lambda>src d cs. Some (unat (src ! 0), unat (src ! 1))),
     jp_read_scanline = (\<lambda>src d cs n. let w = unat (src ! 0) in
       if length src < 2 + (n + 1) * w then None
       else Some (concat (map (\<lambda>b. replicate (components cs) b) (take w (drop (2 + n * w) src))))),
     jp_finish_decompress = (\<lambda>_ _ _. True) \<rparr>"

lemma raw_jpeg_ok: "libjpeg_ok raw_jpeg"
  by (auto simp: libjpeg_ok_def raw_jpeg_def huff_tbl_ok_def dinfo_ok_def Let_def length_concat comp_def sum_list_triv split: if_splits)

definition sample_mjpeg :: "u32 \<Rightarrow> u32 \<Rightarrow> uvc_frame" where
  "sample_mjpeg w h = uvc_frame0\<lparr> f_data := Some [2, 2, 10, 20, 30, 40], f_data_bytes := 6, f_width := w, f_height := h,
     f_frame_format := FORMAT_MJPEG \<rparr>"

lemma replicate_3: "replicate 3 x = [x, x, x]"
  by (simp add: numeral_3_eq_3)

text \<open>The frame says one pixel, the stream four.\<close>

theorem mjpeg_fault_iff_witness: "uvc_mjpeg2gray raw_jpeg zero_alloc (sample_mjpeg 1 1) sample_out = None"
proof -
  have "fill_huff_tables raw_jpeg \<lparr> jd_dc_huff_tbl_ptrs = replicate 4 None, jd_ac_huff_tbl_ptrs = replicate 4 None \<rparr> \<noteq> None"
    using fill_huff_tables_defined [OF raw_jpeg_ok, of "[2, 2]"] by (simp add: raw_jpeg_def)
  then obtain d where d: "fill_huff_tables raw_jpeg \<lparr> jd_dc_huff_tbl_ptrs = replicate 4 None, jd_ac_huff_tbl_ptrs = replicate 4 None \<rparr> = Some d" by auto
  show ?thesis
    by (subst mjpeg_fault_iff [where src = "[2, 2, 10, 20, 30, 40]" and d = d and cs = JCS_GRAYSCALE and bpp = 1 and dst = FORMAT_GRAY8 and w = 2 and h = 2
          and sized = "sample_out\<lparr> f_data := Some [0], f_data_bytes := 1 \<rparr>", OF _ raw_jpeg_ok _ _ _ _ _ d])
      (auto simp: mjpeg_converters_def sample_mjpeg_def raw_jpeg_def sample_defs uvc_ensure_frame_size_def realloc_def Let_def intro!: exI [of _ 0])
qed

lemma mjpeg_correct_witness:
  "\<exists>out'. uvc_mjpeg2rgb raw_jpeg zero_alloc (sample_mjpeg 2 2) sample_out = Some (UVC_SUCCESS, out') \<and>
     take 12 (mem_of (f_data out')) = [10, 10, 10, 20, 20, 20, 30, 30, 30, 40, 40, 40]"
proof -
  let ?row = "\<lambda>n. if n = 0 then [10, 10, 10, 20, 20, 20] else [30, 30, 30, 40, 40, 40 :: u8]"
  have "fill_huff_tables raw_jpeg \<lparr> jd_dc_huff_tbl_ptrs = replicate 4 None, jd_ac_huff_tbl_ptrs = replicate 4 None \<rparr> \<noteq> None"
    using fill_huff_tables_defined [OF raw_jpeg_ok, of "[2, 2]"] by (simp add: raw_jpeg_def)
  then obtain d where d: "fill_huff_tables raw_jpeg \<lparr> jd_dc_huff_tbl_ptrs = replicate 4 None, jd_ac_huff_tbl_ptrs = replicate 4 None \<rparr> = Some d" by auto
  have al: "alloc_ok zero_alloc" "frame_wf sample_out" by (simp_all add: sample_defs)
  have "\<exists>out'. uvc_mjpeg2rgb raw_jpeg zero_alloc (sample_mjpeg 2 2) sample_out = Some (UVC_SUCCESS, out') \<and>
      f_width out' = f_width (sample_mjpeg 2 2) \<and> f_height out' = f_height (sample_mjpeg 2 2) \<and> f_frame_format out' = FORMAT_RGB \<and>
      f_sequence out' = f_sequence (sample_mjpeg 2 2) \<and>
      take (unat (f_width (sample_mjpeg 2 2)) * unat (f_height (sample_mjpeg 2 2)) * components JCS_RGB) (mem_of (f_data out')) =
        concat (map ?row [0..<unat (f_height (sample_mjpeg 2 2))]) \<and>
      length (mem_of (f_data out')) = length (mem_of (f_data (sample_out\<lparr> f_data := Some (replicate 12 0), f_data_bytes := 12 \<rparr>)))"
    by (rule mjpeg_correct [where bpp = 3, OF _ raw_jpeg_ok al _ _ _ refl _ d])
      (auto simp: mjpeg_converters_def sample_mjpeg_def raw_jpeg_def sample_defs uvc_ensure_frame_size_def realloc_def Let_def less_2_cases_iff replicate_3)
  then show ?thesis by (auto simp: sample_mjpeg_def uvc_frame0_def upt_rec)
qed

text \<open>
  The tables given to a stream without any.  Each of the four is a complete specification: one value for
  every code, no value twice, and a prefix code that leaves the code of sixteen ones unused; they are
  installed whole, whatever was there, and no other table changes.
\<close>

lemma standard_tables:
  assumes "huff_tbl_ok (jp_alloc_huff_table J)" and "dinfo_ok d"
  shows "(\<forall>(len, val) \<in> set [(dc_lumi_len, dc_lumi_val), (dc_chromi_len, dc_chromi_val), (ac_lumi_len, ac_lumi_val), (ac_chromi_len, ac_chromi_val)].
      huff_spec_ok len val) \<and>
    (\<exists>d'. insert_huff_tables J d = Some d' \<and> dinfo_ok d' \<and>
      take 2 (jd_dc_huff_tbl_ptrs d') = [Some (table_of dc_lumi_len dc_lumi_val), Some (table_of dc_chromi_len dc_chromi_val)] \<and>
      take 2 (jd_ac_huff_tbl_ptrs d') = [Some (table_of ac_lumi_len ac_lumi_val), Some (table_of ac_chromi_len ac_chromi_val)] \<and>
      drop 2 (jd_dc_huff_tbl_ptrs d') = drop 2 (jd_dc_huff_tbl_ptrs d) \<and> drop 2 (jd_ac_huff_tbl_ptrs d') = drop 2 (jd_ac_huff_tbl_ptrs d))"
proof -
  obtain a0 a1 a2 a3 b0 b1 b2 b3 where "jd_dc_huff_tbl_ptrs d = [a0, a1, a2, a3]" "jd_ac_huff_tbl_ptrs d = [b0, b1, b2, b3]"
    using assms(2) by (auto simp: dinfo_ok_def length_Suc_conv eval_nat_numeral)
  then show ?thesis using standard_specs insert_huff_tables_eq [OF assms] assms(2)
    by (auto simp: dinfo_ok_def huff_tbl_ok_def table_of_def table_lengths)
qed

lemma standard_tables_witness:
  "\<exists>d'. insert_huff_tables raw_jpeg \<lparr> jd_dc_huff_tbl_ptrs = replicate 4 None, jd_ac_huff_tbl_ptrs = replicate 4 None \<rparr> = Some d' \<and>
     take 2 (jd_dc_huff_tbl_ptrs d') = [Some (table_of dc_lumi_len dc_lumi_val), Some (table_of dc_chromi_len dc_chromi_val)]"
  using standard_tables [of raw_jpeg "\<lparr> jd_dc_huff_tbl_ptrs = replicate 4 None, jd_ac_huff_tbl_ptrs = replicate 4 None \<rparr>"] raw_jpeg_ok
  by (auto simp: libjpeg_ok_def dinfo_ok_def)

end
