(* ===== verification/Diag.thy ===== *)
theory Diag
  imports Stream_Ctrl Dev_List
begin

text \<open>
  Diagnostics (diag.c): error texts and the printed descriptions.  A printing function returns what it
  writes; a division by zero or a string read past its object leaves it without a result.  The stream
  argument is dropped.
\<close>

section \<open>Formatted output\<close>

definition tab :: string where "tab = [CHR 0x09]"

definition nl :: string where "nl = [CHR 0x0A]"

definition digit :: "nat \<Rightarrow> char" where
  "digit n = char_of (if n < 10 then 48 + n else 87 + n)"

function digits :: "nat \<Rightarrow> nat \<Rightarrow> string" where
  "digits b n = (if n < b \<or> b < 2 then [digit n] else digits b (n div b) @ [digit (n mod b)])"
  by auto
termination by (relation "measure snd") auto

declare digits.simps [simp del]

text \<open>\<open>%d\<close>, \<open>%0wx\<close> and \<open>%ws\<close>.  An unsigned 32-bit value printed with \<open>%d\<close> is read as a signed one.\<close>

definition fmt_d :: "int \<Rightarrow> string" where
  "fmt_d i = (if i < 0 then ''-'' else []) @ digits 10 (nat \<bar>i\<bar>)"

definition fmt_x :: "nat \<Rightarrow> nat \<Rightarrow> string" where
  "fmt_x w n = (let s = digits 16 n in replicate (w - length s) CHR ''0'' @ s)"

definition fmt_s :: "nat \<Rightarrow> string \<Rightarrow> string" where
  "fmt_s w s = replicate (w - length s) CHR '' '' @ s"

text \<open>The string that starts at the head of an object with these bytes.\<close>

definition c_string :: "bytes \<Rightarrow> string option" where
  "c_string bs = (if 0 \<in> set bs then Some (map (\<lambda>b. char_of (unat b)) (takeWhile (\<lambda>b. b \<noteq> 0) bs)) else None)"

definition text_of :: "bytes \<Rightarrow> string" where
  "text_of bs = map (\<lambda>b. char_of (unat b)) bs"

text \<open>\<^verbatim>\<open>1/%d\<close> of ten million divided by an interval.\<close>

definition rate :: "u32 \<Rightarrow> string option" where
  "rate v = (if v = 0 then None else Some (''1/'' @ fmt_d (sint (10000000 div v))))"

definition print_all :: "('a \<Rightarrow> string option) \<Rightarrow> 'a list \<Rightarrow> string option" where
  "print_all f xs = foldr (\<lambda>x r. do { a \<leftarrow> f x; b \<leftarrow> r; Some (a @ b) }) xs (Some [])"

section \<open>Errors\<close>

definition uvc_error_msgs :: "(int \<times> string) list" where
  "uvc_error_msgs = [(UVC_SUCCESS, ''Success''), (UVC_ERROR_IO, ''I/O error''), (UVC_ERROR_INVALID_PARAM, ''Invalid parameter''),
     (-3, ''Access denied''), (UVC_ERROR_NO_DEVICE, ''No such device''), (UVC_ERROR_NOT_FOUND, ''Not found''), (UVC_ERROR_BUSY, ''Busy''),
     (UVC_ERROR_TIMEOUT, ''Timeout''), (-8, ''Overflow''), (-9, ''Pipe''), (-10, ''Interrupted''), (UVC_ERROR_NO_MEM, ''Out of memory''),
     (UVC_ERROR_NOT_SUPPORTED, ''Not supported''), (UVC_ERROR_INVALID_DEVICE, ''Invalid device''), (UVC_ERROR_INVALID_MODE, ''Invalid mode''),
     (UVC_ERROR_CALLBACK_EXISTS, ''Callback exists'')]"

fun search_msg :: "int \<Rightarrow> (int \<times> string) list \<Rightarrow> string" where
  "search_msg err [] = ''Unknown error''"
| "search_msg err ((e, msg) # ms) = (if e = err then msg else search_msg err ms)"

definition uvc_strerror :: "int \<Rightarrow> string" where
  "uvc_strerror err = search_msg err uvc_error_msgs"

text \<open>\<open>msg\<close> is \<^term>\<open>None\<close> for \<^verbatim>\<open>NULL\<close>.\<close>

definition uvc_perror :: "int \<Rightarrow> string option \<Rightarrow> string" where
  "uvc_perror err msg =
     (case msg of None \<Rightarrow> [] | Some m \<Rightarrow> if m = [] then [] else m @ '': '') @
     uvc_strerror err @ '' ('' @ fmt_d err @ '')'' @ nl"

section \<open>Control blocks\<close>

definition uvc_print_stream_ctrl :: "uvc_stream_ctrl \<Rightarrow> string" where
  "uvc_print_stream_ctrl c =
     ''bmHint: '' @ fmt_x 4 (unat (sc_bmHint c)) @ nl @
     ''bFormatIndex: '' @ fmt_d (uint (sc_bFormatIndex c)) @ nl @
     ''bFrameIndex: '' @ fmt_d (uint (sc_bFrameIndex c)) @ nl @
     ''dwFrameInterval: '' @ fmt_d (uint (sc_dwFrameInterval c)) @ nl @
     ''wKeyFrameRate: '' @ fmt_d (uint (sc_wKeyFrameRate c)) @ nl @
     ''wPFrameRate: '' @ fmt_d (uint (sc_wPFrameRate c)) @ nl @
     ''wCompQuality: '' @ fmt_d (uint (sc_wCompQuality c)) @ nl @
     ''wCompWindowSize: '' @ fmt_d (uint (sc_wCompWindowSize c)) @ nl @
     ''wDelay: '' @ fmt_d (uint (sc_wDelay c)) @ nl @
     ''dwMaxVideoFrameSize: '' @ fmt_d (uint (sc_dwMaxVideoFrameSize c)) @ nl @
     ''dwMaxPayloadTransferSize: '' @ fmt_d (uint (sc_dwMaxPayloadTransferSize c)) @ nl @
     ''bInterfaceNumber: '' @ fmt_d (uint (sc_bInterfaceNumber c)) @ nl"

section \<open>Device descriptions\<close>

definition uvc_name_for_format_subtype :: "u8 \<Rightarrow> string" where
  "uvc_name_for_format_subtype subtype =
     (if subtype = 0x04 then ''UncompressedFormat'' else if subtype = 0x06 then ''MJPEGFormat''
      else if subtype = 0x10 then ''FrameFormat'' else ''Unknown'')"

text \<open>The loop over the zero-terminated array of intervals; \<open>i\<close> is the index.\<close>

fun print_intervals :: "string \<Rightarrow> nat \<Rightarrow> u32 list \<Rightarrow> string option" where
  "print_intervals ind i [] = None"
| "print_intervals ind i (v # vs) =
     (if v = 0 then Some []
      else do {
        r \<leftarrow> rate v;
        rest \<leftarrow> print_intervals ind (i + 1) vs;
        Some (ind @ ''interval['' @ fmt_d (int i) @ '']: '' @ r @ nl @ rest) })"

text \<open>\<open>ind\<close> and \<open>ind'\<close> are the indentations of the heading and of the fields.\<close>

definition print_frame_desc :: "string \<Rightarrow> string \<Rightarrow> uvc_frame_desc \<Rightarrow> string option" where
  "print_frame_desc ind ind' fr = do {
     default \<leftarrow> rate (fr_dwDefaultFrameInterval fr);
     let head =
       ind @ ''FrameDescriptor('' @ fmt_d (uint (fr_bFrameIndex fr)) @ '')'' @ nl @
       ind' @ ''capabilities: '' @ fmt_x 2 (unat (fr_bmCapabilities fr)) @ nl @
       ind' @ ''size: '' @ fmt_d (uint (fr_wWidth fr)) @ ''x'' @ fmt_d (uint (fr_wHeight fr)) @ nl @
       ind' @ ''bit rate: '' @ fmt_d (sint (fr_dwMinBitRate fr)) @ ''-'' @ fmt_d (sint (fr_dwMaxBitRate fr)) @ nl @
       ind' @ ''max frame size: '' @ fmt_d (sint (fr_dwMaxVideoFrameBufferSize fr)) @ nl @
       ind' @ ''default interval: '' @ default @ nl;
     case fr_intervals fr of
       Some ivs \<Rightarrow> do { l \<leftarrow> print_intervals ind' 0 ivs; Some (head @ l) }
     | None \<Rightarrow> do {
         mn \<leftarrow> rate (fr_dwMinFrameInterval fr);
         mx \<leftarrow> rate (fr_dwMaxFrameInterval fr);
         let range =
           ind' @ ''min interval['' @ fmt_d (sint (fr_dwMinFrameInterval fr)) @ ''] = '' @ mn @ nl @
           ind' @ ''max interval['' @ fmt_d (sint (fr_dwMaxFrameInterval fr)) @ ''] = '' @ mx @ nl;
         if fr_dwFrameIntervalStep fr \<noteq> 0
         then do {
           st \<leftarrow> rate (fr_dwFrameIntervalStep fr);
           Some (head @ range @ ind' @ ''interval step['' @ fmt_d (sint (fr_dwFrameIntervalStep fr)) @ ''] = '' @ st @ nl) }
         else Some (head @ range) } }"

text \<open>
  The heading of a format.  \<^verbatim>\<open>fourccFormat\<close> is printed as a string; it is the start of the 16 bytes of the
  union, and the string has to end inside them.
\<close>

definition print_format_head :: "string \<Rightarrow> string \<Rightarrow> uvc_format_desc \<Rightarrow> string option" where
  "print_format_head ind ind' fmt = do {
     four \<leftarrow> c_string (fo_guidFormat fmt);
     Some (
       ind @ uvc_name_for_format_subtype (fo_bDescriptorSubtype fmt) @ ''('' @ fmt_d (uint (fo_bFormatIndex fmt)) @ '')'' @ nl @
       ind' @ ''bits per pixel: '' @ fmt_d (uint (fo_bBitsPerPixel fmt)) @ nl @
       ind' @ ''GUID: '' @ concat (map (\<lambda>b. fmt_x 2 (unat b)) (fo_guidFormat fmt)) @ '' ('' @ fmt_s 4 four @ '')'' @ nl @
       ind' @ ''default frame: '' @ fmt_d (uint (fo_bDefaultFrameIndex fmt)) @ nl @
       ind' @ ''aspect ratio: '' @ fmt_d (uint (fo_bAspectRatioX fmt)) @ ''x'' @ fmt_d (uint (fo_bAspectRatioY fmt)) @ nl @
       ind' @ ''interlace flags: '' @ fmt_x 2 (unat (fo_bmInterlaceFlags fmt)) @ nl @
       ind' @ ''copy protect: '' @ fmt_x 2 (unat (fo_bCopyProtect fmt)) @ nl) }"

definition print_still_frame :: "uvc_still_frame_desc \<Rightarrow> string" where
  "print_still_frame s =
     tab @ tab @ tab @ ''StillFrameDescriptor'' @ nl @
     tab @ tab @ tab @ ''  bEndPointAddress: '' @ fmt_x 2 (unat (sf_bEndPointAddress s)) @ nl @
     concat (map (\<lambda>p.
       tab @ tab @ tab @ ''  wWidth('' @ fmt_d (uint (sr_bResolutionIndex p)) @ '') = '' @ fmt_d (uint (sr_wWidth p)) @ nl @
       tab @ tab @ tab @ ''  wHeight('' @ fmt_d (uint (sr_bResolutionIndex p)) @ '') = '' @ fmt_d (uint (sr_wHeight p)) @ nl) (sf_imageSizePatterns s))"

definition known_format :: "uvc_format_desc \<Rightarrow> bool" where
  "known_format fmt = (fo_bDescriptorSubtype fmt = 0x04 \<or> fo_bDescriptorSubtype fmt = 0x06 \<or> fo_bDescriptorSubtype fmt = 0x10)"

definition print_unknown :: "uvc_format_desc \<Rightarrow> string" where
  "print_unknown fmt = tab @ ''-UnknownFormat ('' @ fmt_d (uint (fo_bDescriptorSubtype fmt)) @ '')'' @ nl"

definition print_format_diag :: "uvc_format_desc \<Rightarrow> string option" where
  "print_format_diag fmt =
     (if known_format fmt
      then do {
        head \<leftarrow> print_format_head tab (tab @ tab @ ''  '') fmt;
        frames \<leftarrow> print_all (print_frame_desc (tab @ tab @ tab) (tab @ tab @ tab @ ''  '')) (fo_frame_descs fmt);
        Some (head @ frames @ concat (map print_still_frame (fo_still_frame_desc fmt))) }
      else Some (print_unknown fmt))"

text \<open>\<open>streaming\<close> is whether the handle has a stream, \<open>dev\<close> the address of its device structure.\<close>

definition uvc_print_diag :: "bool \<Rightarrow> nat \<Rightarrow> dev_heap \<Rightarrow> uvc_device_info \<Rightarrow> string option" where
  "uvc_print_diag streaming dev heap info =
     (if ci_bcdUVC (in_ctrl_if info) \<noteq> 0
      then do {
        (_, desc) \<leftarrow> uvc_get_device_descriptor dev heap;
        desc \<leftarrow> desc;
        ifs \<leftarrow> print_all (\<lambda>(stream_idx, si). do {
          formats \<leftarrow> print_all print_format_diag (si_format_descs si);
          Some (''VideoStreaming('' @ fmt_d (int stream_idx) @ ''):'' @ nl @ tab @ ''bEndpointAddress: '' @
            fmt_d (uint (si_bEndpointAddress si)) @ nl @ tab @ ''Formats:'' @ nl @ formats) }) (enumerate 1 (in_stream_ifs info));
        Some (
          ''DEVICE CONFIGURATION ('' @ fmt_x 4 (unat (dd_idVendor desc)) @ '':'' @ fmt_x 4 (unat (dd_idProduct desc)) @ ''/'' @
          (case dd_serialNumber desc of None \<Rightarrow> ''[none]'' | Some s \<Rightarrow> text_of s) @ '') ---'' @ nl @
          ''Status: '' @ (if streaming then ''streaming'' else ''idle'') @ nl @
          ''VideoControl:'' @ nl @ tab @ ''bcdUVC: 0x'' @ fmt_x 4 (unat (ci_bcdUVC (in_ctrl_if info))) @ nl @
          ifs @ ''END DEVICE CONFIGURATION'' @ nl) }
      else Some (''uvc_print_diag: Device not configured!'' @ nl))"

definition spaces :: "nat \<Rightarrow> string" where
  "spaces n = replicate n CHR '' ''"

definition print_format_plain :: "uvc_format_desc \<Rightarrow> string option" where
  "print_format_plain fmt =
     (if known_format fmt
      then do {
        head \<leftarrow> print_format_head (spaces 9) (spaces 12) fmt;
        frames \<leftarrow> print_all (print_frame_desc (spaces 15) (spaces 18)) (fo_frame_descs fmt);
        Some (head @ frames) }
      else Some (print_unknown fmt))"

definition uvc_print_frameformats :: "uvc_device_info \<Rightarrow> string option" where
  "uvc_print_frameformats info =
     (if ci_bcdUVC (in_ctrl_if info) \<noteq> 0
      then print_all (\<lambda>si. print_all print_format_plain (si_format_descs si)) (in_stream_ifs info)
      else Some (''uvc_print_frameformats: Device not configured!'' @ nl))"

section \<open>When printing is undefined\<close>

lemma print_all_None: "print_all f xs = None \<longleftrightarrow> (\<exists>x \<in> set xs. f x = None)"
  by (induction xs) (auto simp: print_all_def bind_eq_None_conv)

lemma print_intervals_None:
  "print_intervals ind i vs = None \<longleftrightarrow> 0 \<notin> set vs"
  by (induction vs arbitrary: i) (auto simp: rate_def bind_eq_None_conv)

text \<open>A frame that cannot be printed: an interval of zero where there is no array, or a default of zero.\<close>

definition frame_unprintable :: "uvc_frame_desc \<Rightarrow> bool" where
  "frame_unprintable fr = (fr_dwDefaultFrameInterval fr = 0 \<or>
     fr_intervals fr = None \<and> (fr_dwMinFrameInterval fr = 0 \<or> fr_dwMaxFrameInterval fr = 0))"

definition format_unprintable :: "uvc_format_desc \<Rightarrow> bool" where
  "format_unprintable fmt = (known_format fmt \<and> (0 \<notin> set (fo_guidFormat fmt) \<or> list_ex frame_unprintable (fo_frame_descs fmt)))"

lemma frame_wf_terminated: "frame_desc_wf fr \<Longrightarrow> fr_intervals fr = Some ivs \<Longrightarrow> 0 \<in> set ivs"
  by (auto simp: frame_desc_wf_def split: option.splits) (metis last_in_set length_0_conv nat.distinct(1))

lemma print_frame_None:
  assumes "frame_desc_wf fr"
  shows "print_frame_desc ind ind' fr = None \<longleftrightarrow> frame_unprintable fr"
proof (cases "fr_intervals fr")
  case None
  then show ?thesis by (auto simp: print_frame_desc_def frame_unprintable_def rate_def bind_eq_None_conv Let_def)
next
  case (Some ivs)
  then have "print_intervals ind' 0 ivs \<noteq> None" using print_intervals_None frame_wf_terminated [OF assms] by simp
  then show ?thesis using Some by (auto simp: print_frame_desc_def frame_unprintable_def rate_def bind_eq_None_conv Let_def)
qed

lemma print_head_None: "print_format_head ind ind' fmt = None \<longleftrightarrow> 0 \<notin> set (fo_guidFormat fmt)"
  by (simp add: print_format_head_def c_string_def)

lemma print_format_None:
  assumes "format_desc_wf fmt"
  shows "print_format_diag fmt = None \<longleftrightarrow> format_unprintable fmt" and "print_format_plain fmt = None \<longleftrightarrow> format_unprintable fmt"
proof -
  have "print_all (print_frame_desc i j) (fo_frame_descs fmt) = None \<longleftrightarrow> list_ex frame_unprintable (fo_frame_descs fmt)" for i j
    using assms print_frame_None by (auto simp: print_all_None format_desc_wf_def list_all_iff list_ex_iff)
  then show "print_format_diag fmt = None \<longleftrightarrow> format_unprintable fmt" and "print_format_plain fmt = None \<longleftrightarrow> format_unprintable fmt"
    by (auto simp: print_format_diag_def print_format_plain_def format_unprintable_def print_head_None bind_eq_None_conv)
qed

section \<open>Numbers\<close>

text \<open>Reading digits back.\<close>

definition undigit :: "char \<Rightarrow> nat" where
  "undigit c = (let n = of_char c in if n < 58 then n - 48 else n - 87)"

lemma fmt_x_length: "w \<le> length (fmt_x w n)"
  by (simp add: fmt_x_def Let_def)

lemma undigit_digit: "n < 16 \<Longrightarrow> undigit (digit n) = n"
  by (simp add: undigit_def digit_def Let_def)

lemma digits_value: "2 \<le> b \<Longrightarrow> b \<le> 16 \<Longrightarrow> foldl (\<lambda>a c. a * b + undigit c) 0 (digits b n) = n"
proof (induction b n rule: digits.induct)
  case (1 b n)
  show ?case
  proof (cases "n < b")
    case True
    then show ?thesis using 1(3) by (subst digits.simps) (simp add: undigit_digit)
  next
    case False
    then have "foldl (\<lambda>a c. a * b + undigit c) 0 (digits b (n div b)) = n div b" using 1 by simp
    moreover have "n mod b < 16" using 1(2,3) mod_less_divisor [of b n] by linarith
    ultimately show ?thesis using False 1(2) by (subst digits.simps) (simp add: undigit_digit)
  qed
qed

lemma fmt_x_value: "foldl (\<lambda>a c. a * 16 + undigit c) 0 (fmt_x w n) = n"
proof -
  have "foldl (\<lambda>a c. a * 16 + undigit c) 0 (replicate k CHR ''0'') = 0" for k
    by (induction k) (simp_all add: undigit_def)
  then show ?thesis using digits_value [of 16 n] by (simp add: fmt_x_def Let_def)
qed

text \<open>Every code of the table has a text of its own; the one code of \<^verbatim>\<open>enum uvc_error\<close> that is missing has none.\<close>

lemma strerror_texts:
  "map uvc_strerror (map fst uvc_error_msgs) = map snd uvc_error_msgs" "distinct (map snd uvc_error_msgs)"
  "uvc_strerror UVC_ERROR_OTHER = ''Unknown error''"
  by (simp_all add: uvc_strerror_def uvc_error_msgs_def)

section \<open>Properties\<close>

text \<open>
  Printing the description of a device that was parsed.  The two functions are undefined in exactly
  these cases: the device descriptor cannot be read (the first only), a frame states a default interval of
  zero or a continuous range that starts or ends at zero, or the bytes of a format hold no zero.  All of
  these are values the device chooses.
\<close>

lemma print_fault_iff:
  assumes "device_info_wf info" and "hp_devices heap dev = Some d"
  shows "(uvc_print_diag streaming dev heap info = None \<longleftrightarrow>
      ci_bcdUVC (in_ctrl_if info) \<noteq> 0 \<and>
      (ud_desc_ret (dv_usb_dev d) \<noteq> UVC_SUCCESS \<or> list_ex (\<lambda>si. list_ex format_unprintable (si_format_descs si)) (in_stream_ifs info))) \<and>
    (uvc_print_frameformats info = None \<longleftrightarrow>
      ci_bcdUVC (in_ctrl_if info) \<noteq> 0 \<and> list_ex (\<lambda>si. list_ex format_unprintable (si_format_descs si)) (in_stream_ifs info))"
proof -
  have wf: "\<forall>si \<in> set (in_stream_ifs info). \<forall>fmt \<in> set (si_format_descs si). format_desc_wf fmt"
    using assms(1) by (auto simp: device_info_wf_def stream_if_wf_def list_all_iff)
  have diag: "print_all (\<lambda>(stream_idx, si). do { formats \<leftarrow> print_all print_format_diag (si_format_descs si); Some (h stream_idx si formats) })
      (enumerate 1 (in_stream_ifs info)) = None \<longleftrightarrow> list_ex (\<lambda>si. list_ex format_unprintable (si_format_descs si)) (in_stream_ifs info)" for h
  proof -
    have "(\<exists>x \<in> set (enumerate 1 (in_stream_ifs info)). P (snd x)) \<longleftrightarrow> (\<exists>si \<in> set (in_stream_ifs info). P si)" for P
      by (metis (no_types, lifting) image_iff list.set_map map_snd_enumerate)
    from this [of "\<lambda>si. \<exists>fmt \<in> set (si_format_descs si). print_format_diag fmt = None"] show ?thesis
      using wf print_format_None(1) by (simp add: print_all_None bind_eq_None_conv list_ex_iff case_prod_beta)
  qed
  have plain: "print_all (\<lambda>si. print_all print_format_plain (si_format_descs si)) (in_stream_ifs info) = None \<longleftrightarrow>
      list_ex (\<lambda>si. list_ex format_unprintable (si_format_descs si)) (in_stream_ifs info)"
    using wf print_format_None(2) by (simp add: print_all_None list_ex_iff)
  show ?thesis
    using assms(2) plain diag
    by (auto simp: uvc_print_diag_def uvc_print_frameformats_def uvc_get_device_descriptor_def bind_eq_None_conv Let_def)
qed

text \<open>One uncompressed format with one frame whose default interval is zero.\<close>

definition zero_interval_info :: uvc_device_info where
  "zero_interval_info = (device_info0 [[\<lparr> id_bInterfaceNumber = 0, id_bAlternateSetting = 0, id_bInterfaceClass = 14, id_bInterfaceSubClass = 2,
       id_endpoint = [], id_extra = [] \<rparr>]])\<lparr> in_ctrl_if := ctrl_if0\<lparr> ci_bcdUVC := 0x100 \<rparr>,
     in_stream_ifs := [stream_if0\<lparr> si_format_descs := [format_desc0\<lparr> fo_bDescriptorSubtype := 4,
       fo_frame_descs := [frame_desc0\<lparr> fr_dwMinFrameInterval := 333333, fr_dwMaxFrameInterval := 666666 \<rparr>] \<rparr>] \<rparr>] \<rparr>"

lemma print_fault_iff_witness:
  "device_info_wf zero_interval_info \<and> uvc_print_frameformats zero_interval_info = None"
proof -
  have "device_info_wf zero_interval_info"
    by (simp add: zero_interval_info_def device_info_wf_def stream_if_wf_def format_desc_wf_def frame_desc_wf_def device_info0_def
        ctrl_if0_def stream_if0_def format_desc0_def frame_desc0_def)
  moreover from print_fault_iff [OF this, of "heap0\<lparr> hp_devices := [0 \<mapsto> \<lparr> dv_ref = 1, dv_usb_dev = sample_usb 1 14 \<rparr>] \<rparr>" 0]
  have "uvc_print_frameformats zero_interval_info = None"
    by (simp add: zero_interval_info_def device_info0_def ctrl_if0_def stream_if0_def format_desc0_def frame_desc0_def
        format_unprintable_def frame_unprintable_def known_format_def)
  ultimately show ?thesis by blast
qed

end
