(* ===== verification/Info_Free.thy ===== *)
theory Info_Free
  imports Desc_Types
begin

text \<open>
  Freeing a parsed device description (device.c).  The call is the list of the blocks it gives back, in
  order; the configuration descriptor goes back to libusb.
\<close>

datatype info_block =
    Input_terminal_block | Selector_unit_block | Processing_unit_block | Extension_unit_block
  | Stream_if_block | Format_block | Frame_block | Intervals_block | Still_frame_block | Still_res_block | Compression_block
  | Config_block | Info_block

definition free_frame_desc :: "uvc_frame_desc \<Rightarrow> info_block list" where
  "free_frame_desc fr = (if fr_intervals fr \<noteq> None then [Intervals_block] else []) @ [Frame_block]"

definition free_still_frame_desc :: "uvc_still_frame_desc \<Rightarrow> info_block list" where
  "free_still_frame_desc s =
     map (\<lambda>_. Still_res_block) (sf_imageSizePatterns s) @
     (if sf_bCompression s \<noteq> None then [Compression_block] else []) @ [Still_frame_block]"

definition free_format_desc :: "uvc_format_desc \<Rightarrow> info_block list" where
  "free_format_desc fmt = concat (map free_frame_desc (fo_frame_descs fmt)) @
     concat (map free_still_frame_desc (fo_still_frame_desc fmt)) @ [Format_block]"

definition uvc_free_device_info :: "uvc_device_info \<Rightarrow> info_block list" where
  "uvc_free_device_info info =
     map (\<lambda>_. Input_terminal_block) (ci_input_term_descs (in_ctrl_if info)) @
     map (\<lambda>_. Processing_unit_block) (ci_processing_unit_descs (in_ctrl_if info)) @
     map (\<lambda>_. Extension_unit_block) (ci_extension_unit_descs (in_ctrl_if info)) @
     concat (map (\<lambda>si. concat (map free_format_desc (si_format_descs si)) @ [Stream_if_block]) (in_stream_ifs info)) @
     [Config_block, Info_block]"

section \<open>What is given back\<close>

abbreviation formats_of :: "uvc_device_info \<Rightarrow> uvc_format_desc list" where
  "formats_of info \<equiv> concat (map si_format_descs (in_stream_ifs info))"

abbreviation frames_of :: "uvc_device_info \<Rightarrow> uvc_frame_desc list" where
  "frames_of info \<equiv> concat (map fo_frame_descs (formats_of info))"

abbreviation stills_of :: "uvc_device_info \<Rightarrow> uvc_still_frame_desc list" where
  "stills_of info \<equiv> concat (map fo_still_frame_desc (formats_of info))"

text \<open>The blocks a description consists of, by kind.\<close>

fun owned :: "info_block \<Rightarrow> uvc_device_info \<Rightarrow> nat" where
  "owned Input_terminal_block info = length (ci_input_term_descs (in_ctrl_if info))"
| "owned Selector_unit_block info = length (ci_selector_unit_descs (in_ctrl_if info))"
| "owned Processing_unit_block info = length (ci_processing_unit_descs (in_ctrl_if info))"
| "owned Extension_unit_block info = length (ci_extension_unit_descs (in_ctrl_if info))"
| "owned Stream_if_block info = length (in_stream_ifs info)"
| "owned Format_block info = length (formats_of info)"
| "owned Frame_block info = length (frames_of info)"
| "owned Intervals_block info = length (filter (\<lambda>fr. fr_intervals fr \<noteq> None) (frames_of info))"
| "owned Still_frame_block info = length (stills_of info)"
| "owned Still_res_block info = length (concat (map sf_imageSizePatterns (stills_of info)))"
| "owned Compression_block info = length (filter (\<lambda>s. sf_bCompression s \<noteq> None) (stills_of info))"
| "owned Config_block info = 1"
| "owned Info_block info = 1"

lemma count_const: "count_list (map (\<lambda>_. b) xs) b' = (if b = b' then length xs else 0)"
  by (induction xs) auto

lemma count_frames:
  "count_list (concat (map free_frame_desc frs)) b =
     (if b = Frame_block then length frs else if b = Intervals_block then length (filter (\<lambda>fr. fr_intervals fr \<noteq> None) frs) else 0)"
  by (induction frs) (auto simp: free_frame_desc_def)

lemma count_stills:
  "count_list (concat (map free_still_frame_desc ss)) b =
     (if b = Still_frame_block then length ss else if b = Still_res_block then length (concat (map sf_imageSizePatterns ss))
      else if b = Compression_block then length (filter (\<lambda>s. sf_bCompression s \<noteq> None) ss) else 0)"
  by (induction ss) (auto simp: free_still_frame_desc_def count_const)

lemma count_formats:
  "count_list (concat (map free_format_desc fs)) b =
     count_list (concat (map free_frame_desc (concat (map fo_frame_descs fs)))) b +
     count_list (concat (map free_still_frame_desc (concat (map fo_still_frame_desc fs)))) b + (if b = Format_block then length fs else 0)"
  by (induction fs) (auto simp: free_format_desc_def)

lemma count_stream_ifs:
  "count_list (concat (map (\<lambda>si. concat (map free_format_desc (si_format_descs si)) @ [Stream_if_block]) sis)) b =
     count_list (concat (map free_format_desc (concat (map si_format_descs sis)))) b + (if b = Stream_if_block then length sis else 0)"
  by (induction sis) auto

text \<open>Every block is given back exactly once, the selector units never.\<close>

lemma free_device_info_blocks:
  "count_list (uvc_free_device_info info) b = (if b = Selector_unit_block then 0 else owned b info)"
  by (cases b) (auto simp: uvc_free_device_info_def count_const count_stream_ifs count_formats count_frames count_stills)

end
