(* ===== verification/Example.thy ===== *)
theory Example
  imports Lifecycle Ctrl Diag
begin

text \<open>
  The two programs that come with the library (example.c, test.c): find a camera, open it, negotiate,
  stream with a callback for a while, and take everything down again.  Both are one frame around a
  session with the open device; the frame and what it promises is proved once, for every session that
  ends with its streams closed.  While a program streams, transfers complete and the callback thread takes
  its turns, in any order; every frame it delivers is given to the callback of the program, and a session is
  undefined when that callback is.  The text printed is dropped, but a print that is undefined is not.
\<close>

section \<open>The frame callbacks\<close>

text \<open>
  The result of the conversion, if there was one, and the blocks of the frame \<^verbatim>\<open>bgr\<close> that were freed.
  \<open>frame_ok\<close> is whether the structure of that frame could be allocated.  Showing the image is OpenCV's.
\<close>

definition cb :: "bool \<Rightarrow> allocator \<Rightarrow> uvc_frame \<Rightarrow> (int option \<times> frame_block list) option" where
  "cb frame_ok al frame =
     (case uvc_allocate_frame frame_ok al (unat (f_width frame * f_height frame * 3)) of
        None \<Rightarrow> Some (None, [])
      | Some bgr \<Rightarrow>
          if f_frame_format frame = FORMAT_H264 then Some (None, uvc_free_frame bgr)
          else if f_frame_format frame = FORMAT_MJPEG then Some (None, uvc_free_frame bgr)
          else if f_frame_format frame = FORMAT_YUYV
          then do {
            (ret, bgr) \<leftarrow> uvc_any2bgr al frame bgr;
            Some (Some ret, uvc_free_frame bgr) }
          else Some (None, uvc_free_frame bgr))"


section \<open>Sessions\<close>
















section \<open>The programs\<close>








section \<open>Streams keep their interface\<close>

lemma swap_if [simp]: "sh_stream_if (uvc_swap_buffers now s) = sh_stream_if s"
  by (simp add: uvc_swap_buffers_def Let_def)






lemma delete_if [simp]: "sh_stream_if (delete_transfer t s) = sh_stream_if s"
  by (simp add: delete_transfer_def split: option.splits)









lemma drop_transfers_if [simp]: "sh_stream_if (drop_transfers i n s) = sh_stream_if s"
  by (simp add: drop_transfers_def)








section \<open>References of the programs\<close>


















section \<open>The interface of a session\<close>




section \<open>Properties\<close>









lemma rounds_fit: "24 * rounds n \<le> n \<longleftrightarrow> 24 dvd n"
proof -
  have "rounds n = n div 24 + (n mod 24 + 23) div 24"
    using div_add1_eq [of "24 * (n div 24)" "n mod 24 + 23" 24] by (simp add: rounds_def)
  moreover have "n = 24 * (n div 24) + n mod 24" by simp
  moreover have "(n mod 24 + 23) div 24 = (if n mod 24 = 0 then 0 else 1)"
    by (auto intro: div_nat_eqI)
  ultimately show ?thesis by (auto simp: dvd_eq_mod_eq_0)
qed

text \<open>
  The callback of the example on a YUYV frame: with memory for the converted image, it is defined exactly
  when the image has a whole number of rounds of eight pixels and the frame really holds it, which the
  callback does not check; then it converts and frees what it allocated.
\<close>

lemma cb_yuyv:
  assumes "alloc_ok al" and "al (unat (f_width frame * f_height frame * 3)) = Some mem" and "f_frame_format frame = FORMAT_YUYV"
    and "n = unat (f_width frame * f_height frame * 3)" and "0 < n"
  shows "cb True al frame = (if 24 dvd n \<and> 2 * n \<le> 3 * length (mem_of (f_data frame)) then Some (Some UVC_SUCCESS, [Blk_data, Blk_frame]) else None)"
proof -
  have len: "length mem = n" using assms(1,2,4) by (simp add: alloc_ok_def)
  let ?bgr = "uvc_frame0\<lparr> f_library_owns_data := True, f_data_bytes := n, f_data := Some mem \<rparr>"
  have bgr: "uvc_allocate_frame True al n = Some ?bgr" using assms(2,4,5) by (simp add: uvc_allocate_frame_def)
  have sz: "uvc_ensure_frame_size al ?bgr n = (UVC_SUCCESS, ?bgr)" by (simp add: uvc_ensure_frame_size_def)
  let ?loop = "loop_8 IYUYV2BGR_2 (mem_of (f_data frame)) 0 mem 0 n"
  have "?loop = None \<longleftrightarrow> \<not> (24 dvd n \<and> 2 * n \<le> 3 * length (mem_of (f_data frame)))"
  proof (cases "24 dvd n")
    case True
    then obtain k where k: "n = 24 * k" by blast
    then have "rounds n = k" by (simp add: rounds_def)
    then show ?thesis using yb.loop_8_fault [of "mem_of (f_data frame)" mem n] len k by auto
  next
    case False
    then show ?thesis using yb.loop_8_fault [of "mem_of (f_data frame)" mem n] len rounds_fit [of n] by auto
  qed
  moreover have "cb True al frame = map_option (\<lambda>p. (Some UVC_SUCCESS, [Blk_data, Blk_frame])) ?loop"
    using assms(3) bgr sz assms(5) by (cases ?loop) (simp_all add: cb_def uvc_any2bgr_def uvc_yuyv2bgr_def convert_def mem_of_def uvc_free_frame_def uvc_frame0_def flip: assms(4))
  ultimately show ?thesis by (cases ?loop) auto
qed

end
