(* ===== verification/Misc.thy ===== *)
theory Misc
  imports Frame_Conv
begin

text \<open>
  The replacement of \<^verbatim>\<open>strndup\<close> for systems without it (misc.c).  A string is the bytes of its object
  from the pointer on.
\<close>

text \<open>The loop that counts up to the terminating zero, wherever that is.\<close>

fun src_len :: "bytes \<Rightarrow> nat option" where
  "src_len [] = None"
| "src_len (b # bs) = (if b = 0 then Some 0 else map_option Suc (src_len bs))"

text \<open>The memory is not checked before it is written.\<close>

definition strndup :: "allocator \<Rightarrow> bytes \<Rightarrow> nat \<Rightarrow> bytes option" where
  "strndup al s n = do {
     src_n \<leftarrow> src_len s;
     let n = (if src_n < n then src_n else n);
     d \<leftarrow> al (n + 1);
     d \<leftarrow> mem_copy d 0 s 0 n;
     mem_put d n [0] }"

lemma src_len_eq: "src_len s = (if 0 \<in> set s then Some (length (takeWhile (\<lambda>b. b \<noteq> 0) s)) else None)"
  by (induction s) auto

text \<open>
  The copy is the string, cut after \<open>n\<close> bytes and terminated.  It is undefined when there is no memory,
  and for an object without a zero byte, also when its first \<open>n\<close> bytes would do.
\<close>

lemma strndup_correct:
  assumes "alloc_ok al"
  shows "strndup al s n = (if 0 \<in> set s \<and> al (min (length (takeWhile (\<lambda>b. b \<noteq> 0) s)) n + 1) \<noteq> None
    then Some (take n (takeWhile (\<lambda>b. b \<noteq> 0) s) @ [0]) else None)"
proof (cases "0 \<in> set s")
  case True
  let ?t = "takeWhile (\<lambda>b. b \<noteq> 0) s" and ?m = "min (length (takeWhile (\<lambda>b. b \<noteq> 0) s)) n"
  have m: "(if length ?t < n then length ?t else n) = ?m" by auto
  show ?thesis
  proof (cases "al (?m + 1)")
    case (Some d)
    then have d: "length d = ?m + 1" using assms by (simp add: alloc_ok_def)
    have le: "?m \<le> length s" using length_takeWhile_le [of "\<lambda>b. b \<noteq> 0" s] by linarith
    have "take (length ?t) s = ?t" by (rule takeWhile_eq_take [symmetric])
    then have take: "take ?m s = take n ?t" using take_take [of n "length ?t" s] by (simp add: min.commute)
    have "mem_copy d 0 s 0 ?m = Some (take ?m s @ drop ?m d)" using d le by (simp add: mem_copy_def rd_bytes_def mem_put_def)
    moreover have "mem_put (take ?m s @ drop ?m d) ?m [0] = Some (take ?m s @ [0])" using d le by (simp add: mem_put_def)
    ultimately show ?thesis using True Some unfolding strndup_def src_len_eq by (simp add: m Let_def take)
  qed (use True in \<open>simp add: strndup_def src_len_eq m Let_def\<close>)
qed (simp add: strndup_def src_len_eq)

end
