(* ===== verification/Spec2Isabelle.thy ===== *)
theory Spec2Isabelle
  imports Desc_Parse Reattach_Guard Claim Status_Xfer Stream_Ctrl Payload Stream_Life Stream_Threads Stream_Frames Ctrl Dev_List Lifecycle Status_Event Utlist Mjpeg Diag
    Info_Free Example Misc
begin

text \<open>
  \<^bold>\<open>A verification development for libuvc\<close> (the CeraLive fork), a userspace driver for USB video class
  cameras on top of libusb.

  \<^bold>\<open>The program.\<close>  A program creates a context (\<^verbatim>\<open>src/init.c\<close>), finds a device and opens it (\<^verbatim>\<open>src/device.c\<close>):
  the library parses the class-specific descriptors the device sends, takes the VideoControl interface from
  the kernel driver, and submits an interrupt transfer for status events.  Controls are read and set with
  control requests (\<^verbatim>\<open>src/ctrl.c\<close>, generated \<^verbatim>\<open>src/ctrl-gen.c\<close>).  For video the program negotiates a control
  block, opens a stream on an interface and starts it (\<^verbatim>\<open>src/stream.c\<close>); libusb's completions deliver payloads
  on an event thread, which assembles frames; the program polls for them or a callback thread delivers them,
  and may convert them (\<^verbatim>\<open>src/frame.c\<close>, \<^verbatim>\<open>src/frame-mjpeg.c\<close>).  Closing stops the streams and the status
  transfer, gives the interfaces back and frees the handle, or keeps ("quarantines") what libusb may still
  touch.  A helper process gives the interfaces back when the program dies (\<^verbatim>\<open>src/reattach_guard.c\<close>).

  \<^bold>\<open>Conventions\<close> (\<open>Uvc_Prelude\<close>).  C integers are words of their width.  Memory is the list of its bytes; a
  function that may read or write outside an object, dereference a null pointer, divide by zero or shift by
  too much returns an option, and \<^term>\<open>None\<close> means exactly that.  Error codes are integers in the result.  Linked
  lists are HOL lists; that the pointers of \<^verbatim>\<open>include/utlist.h\<close> represent them is shown in \<open>Utlist\<close>.  libusb,
  libjpeg, the allocator, the clock and the kernel are parameters; what is assumed of them is a hypothesis
  by name (\<open>usb_binding\<close>, \<open>libjpeg_ok\<close>, \<open>alloc_ok\<close>), shown to hold for a concrete instance.

  \<^bold>\<open>Theories.\<close>

  \<^item> \<open>Desc_Types\<close>, \<open>Desc_Parse\<close>: the descriptor structures and the whole parser of \<^verbatim>\<open>device.c\<close>
    (\<^verbatim>\<open>uvc_get_device_info\<close>, \<^verbatim>\<open>uvc_scan_control\<close>, \<^verbatim>\<open>uvc_scan_streaming\<close>, every \<^verbatim>\<open>uvc_parse_*\<close>, the frame repair).  The two scan
    loops are one locale, interpreted for both.  Whatever the bytes, a description that is returned is well
    formed; conforming descriptors are parsed without a fault; the exact fault conditions of the
    VideoStreaming parser; valid frames survive writing and parsing.
  \<^item> \<open>Reattach_Guard\<close>, \<open>Claim\<close>: the helper and its record, and \<^verbatim>\<open>uvc_claim_if\<close>, \<^verbatim>\<open>uvc_release_if\<close> and
    \<^verbatim>\<open>uvc_release_claimed_ifs\<close>.  Every state between two libusb calls is recorded: at each instant at which
    the process can die, every interface taken from the kernel is armed for the helper, and the helper
    gives back exactly the armed ones.
  \<^item> \<open>Status_Xfer\<close>: the status transfer as a system of the opening and closing thread, the event thread in its callback
    and at the head of its loop, libusb and a mutex, with one step per statement; the streams that a close stops
    first and the join of the event thread are points at which it waits.  On every schedule no late completion
    finds freed memory or a released interface, and a close can only be held up by its streams, by a holder of the
    mutex that is on its way, or by an event thread that has been told to end.  \<open>Status_Event\<close>: what the bytes of a
    completed status transfer mean to the program.
  \<^item> \<open>Stream_Ctrl\<close>: the format table, the probe and commit requests and the negotiation; \<open>Stream_Life\<close>:
    opening, configuring, starting, stopping and closing streams, with the completions that arrive while a
    stop waits; \<open>Payload\<close>: the assembly of payloads into frames, refined against an abstract assembler, the
    transfer callback, polling and the callback thread.
  \<^item> \<open>Stream_Threads\<close>, \<open>Stream_Frames\<close>: the four threads of a stream (the application in start, stop and close, the
    event thread in the transfer callback, the callback thread, a polling thread) as a system with one step
    per unprotected access, lock, wait and libusb call, on the handle of \<open>Payload\<close>.  On every schedule of a stream that is
    not started again while transfers or polls of its last run are under way: no transfer that libusb or a callback
    has loses its slot, and the handle outlives them and the callback thread; the completions are assembled in order
    and every frame delivered is a published one, whole, or has no image once memory was short.  A stop or close is
    never stuck, and rests on no spurious wake-up.  Two runs in which the handle is freed too early, under transfers
    after such a restart and under a polling thread, show where the hypotheses are needed.
  \<^item> \<open>Frame_Conv\<close>, \<open>Mjpeg\<close>: frames, the packed conversions against a per-pixel reference, duplication, and the
    decoding of MJPEG frames with the standard Huffman tables.
  \<^item> \<open>Ctrl\<close>: all generated getters and setters against the table of \<^verbatim>\<open>standard-units.yaml\<close>.
  \<^item> \<open>Dev_List\<close>: listing and finding devices, reference counts; \<open>Lifecycle\<close>: contexts, opening, wrapping and
    closing devices and the event thread, with all calls a program may make as a step relation.
  \<^item> \<open>Utlist\<close>: the doubly linked list macros on a heap of nodes; \<open>Info_Free\<close>: what freeing a description gives
    back; \<open>Diag\<close>: error texts and printed descriptions; \<open>Misc\<close>: the copy of a string prefix of \<^verbatim>\<open>src/misc.c\<close>.
  \<^item> \<open>Example\<close>: the programs \<^verbatim>\<open>src/example.c\<close> and \<^verbatim>\<open>src/test.c\<close> with their frame callbacks, as one composition of the
    above from \<^verbatim>\<open>uvc_init\<close> to \<^verbatim>\<open>uvc_exit\<close> around a session with the open device.  What the composition needs of a
    session is a locale, interpreted for both.  A session runs the transfers that complete and the turns of the callback
    thread while the program sleeps, and the callback on every frame delivered.  Whatever the camera does within
    defined behaviour, the programs end and give back every reference, or keep one quarantined device.

  This theory adds the composition of \<open>Lifecycle\<close> and \<open>Utlist\<close>.

  \<^bold>\<open>Bounds.\<close>  Loops over lists and arrays are structural.  The stop of the status transfer polls every
  2 ms up to 500 ms, the helper tries a rebind 80 times, a stream stop waits through five timeouts, an
  alternate setting is tried three times, and at most 100 transfers are used: all as in the source.  A wait
  that may not end, the joins of the callback thread and of the event thread among them, has an explicit outcome
  (\<open>Still_waiting\<close>); the theorems that a call returns name what has to happen for it (\<open>stop_ends\<close>, \<open>stop_bounded\<close>: the
  timeouts of a stop pass or its transfers come back, and the callback thread ends; \<open>ce_turns\<close>: the event thread gets
  its turn).
  The loops of \<open>Utlist\<close> are partial functions, proved to return.

  \<^bold>\<open>Assumptions.\<close>  One event thread per context; the callbacks that run while a stop waits are those of the
  stream that is stopped.  In \<open>Stream_Life\<close> a start runs without interleaved completions; \<open>Stream_Threads\<close> has
  the interleavings, with the part of a start before its first submission as one step, since no
  transfer of the stream is then under way.  The two frames of a conversion are distinct objects.  The allocation
  of a context and the small ones of the descriptor parsers succeed; those of devices, handles, transfers, frames and
  all buffers may fail, and where the code does not check one, its failure is \<^term>\<open>None\<close> or a buffer without bytes.  In
  \<open>Stream_Life\<close> an outstanding transfer is a slot that is not empty; who owns the transfer is in \<open>Stream_Threads\<close>.  In
  \<open>Lifecycle\<close> the outcome of the status stop is an argument; its interleavings are in \<open>Status_Xfer\<close>.

  \<^bold>\<open>Not modelled.\<close>  The macros of \<^verbatim>\<open>utlist.h\<close> the library does not use, debug output and what the two
  programs print, the display of images by OpenCV, the raw process creation of the helper, and the
  getters that return a field.
\<close>

section \<open>Open devices as a linked list\<close>

text \<open>The address of a handle; no handle is at \<^verbatim>\<open>NULL\<close>.\<close>

definition handle_addr :: "'u uvc_device_handle \<Rightarrow> nat" where
  "handle_addr h = dh_id h + 1"

definition devices_linked :: "nat \<times> node_heap \<Rightarrow> 'u uvc_context \<Rightarrow> bool" where
  "devices_linked s c = dl_list (snd s) (fst s) (map handle_addr (cx_open_devices c))"

lemma open_appends:
  assumes "uvc_open usb_open env dev c = Some (ret, Some h, c')" and "life_inv c"
  shows "cx_open_devices c' = cx_open_devices c @ [h]" and "handle_addr h \<notin> set (map handle_addr (cx_open_devices c))"
proof -
  have "uvc_open_internal env dev c = Some (ret, Some h, c')" using assms(1) by (auto simp: uvc_open_def split: if_splits)
  then have "cx_open_devices c' = cx_open_devices c @ [h] \<and> cx_next c \<le> dh_id h"
    by (cases rule: open_internal_cases) (auto simp: uvc_start_handler_thread_def)
  then show "cx_open_devices c' = cx_open_devices c @ [h]" "handle_addr h \<notin> set (map handle_addr (cx_open_devices c))"
    using assms(2) by (auto simp: life_inv_def ids_ok_def handle_addr_def)
qed

lemma filter_handle_addr: "map handle_addr (filter (\<lambda>h. dh_id h \<noteq> i) hs) = filter (\<lambda>a. a \<noteq> i + 1) (map handle_addr hs)"
  by (induction hs) (auto simp: handle_addr_def)

text \<open>
  C10: the list of open devices of a context and its pointers.  On every context a program can reach, with
  the handles linked by the pointers of utlist.h: a successful open appends the new handle with
  \<^verbatim>\<open>DL_APPEND\<close>, a close that returns removes its handle with \<^verbatim>\<open>DL_DELETE\<close>, freed or quarantined, and both leave
  pointers that represent the open devices of the context again.
\<close>

theorem open_devices_linked:
  assumes "life_reachable c" and "devices_linked (head, hp) c"
  shows "(\<forall>usb_open env dev ret h c'. uvc_open usb_open env dev c = Some (ret, Some h, c') \<and> hp (handle_addr h) \<noteq> None \<longrightarrow>
      (\<exists>s. DL_APPEND head (handle_addr h) hp = Some s \<and> devices_linked s c')) \<and>
    (\<forall>env h r c'. h \<in> set (cx_open_devices c) \<and> uvc_close env (dh_id h) c = Some (Returned r c') \<longrightarrow>
      (\<exists>s. DL_DELETE head (handle_addr h) hp = Some s \<and> devices_linked s c'))"
proof (intro conjI allI impI; elim conjE)
  note inv = life_reachable_inv [OF assms(1)]
  fix usb_open env dev ret h c'
  assume o: "uvc_open usb_open env dev c = Some (ret, Some h, c')" and "hp (handle_addr h) \<noteq> None"
  moreover have "handle_addr h \<noteq> 0" by (simp add: handle_addr_def)
  ultimately show "\<exists>s. DL_APPEND head (handle_addr h) hp = Some s \<and> devices_linked s c'"
    using dl.ins_rep [of "(head, hp)" "map handle_addr (cx_open_devices c)" "handle_addr h"] assms(2) open_appends [OF o inv]
    by (auto simp: devices_linked_def)
next
  fix env h r c'
  assume h: "h \<in> set (cx_open_devices c)" and c: "uvc_close env (dh_id h) c = Some (Returned r c')"
  have "cx_open_devices c' = filter (\<lambda>x. dh_id x \<noteq> dh_id h) (cx_open_devices c)"
    by (rule close_open_devices(1) [OF c])
  then have "map handle_addr (cx_open_devices c') = filter (\<lambda>a. a \<noteq> handle_addr h) (map handle_addr (cx_open_devices c))"
    using filter_handle_addr [of "dh_id h"] by (simp add: handle_addr_def)
  moreover have "handle_addr h \<in> set (map handle_addr (cx_open_devices c))" using h by simp
  ultimately show "\<exists>s. DL_DELETE head (handle_addr h) hp = Some s \<and> devices_linked s c'"
    using dl.del_rep [of "(head, hp)" _ "handle_addr h"] assms(2) unfolding devices_linked_def by auto
qed

text \<open>The camera is opened, the list being empty before; then it is closed.\<close>

theorem open_devices_linked_witness:
  "\<exists>s. DL_DELETE 2 2 [2 \<mapsto> \<lparr> n_prev = 2, n_next = 0 \<rparr>] = Some s \<and> devices_linked s (cam_closed True)"
proof -
  have "devices_linked (2, [2 \<mapsto> \<lparr> n_prev = 2, n_next = 0 \<rparr>]) (cam_opened cam_ctx)"
    by (simp add: devices_linked_def cam_opened_def cam_ctx_eq cam_handle_def handle_addr_def dl_list_def)
  note linked = open_devices_linked [OF cam_opened_reachable this]
  have h: "cam_handle 1 \<in> set (cx_open_devices (cam_opened cam_ctx))" "dh_id (cam_handle 1) = 1" "handle_addr (cam_handle 1) = 2"
    by (simp_all add: cam_opened_def cam_ctx_eq cam_handle_def handle_addr_def)
  obtain "uvc_close (cam_close True) 1 (cam_opened cam_ctx) = Some (Returned UVC_SUCCESS (cam_closed True))"
    by (rule cam_closed_eq [of True])
  with linked [THEN conjunct2, THEN spec, of "cam_close True", THEN spec, of "cam_handle 1", THEN spec, of UVC_SUCCESS, THEN spec, of "cam_closed True"]
  show ?thesis unfolding h by (simp only: h simp_thms)
qed

end
